(* ===== verification/Prelude.thy ===== *)
theory Prelude
  imports Main "HOL-Library.Word" "HOL-Library.AList" "HOL-Library.Code_Target_Nat"
begin

text \<open>
  Shared vocabulary of the development: the byte type, results that may carry a thrown
  error, loops that may throw, JavaScript's index conversion for slices, and generic
  lemmas on lists and association lists. Nothing here models a file of the repository
  on its own; every other theory builds on it.
\<close>

unbundle bit_operations_syntax

section \<open>Types\<close>

type_synonym byte = "8 word"
type_synonym bytes = "8 word list"

text \<open>
  A JavaScript \<open>Map\<close> that is read in insertion order, or only by key, is an association
  list with distinct keys: \<^const>\<open>AList.update\<close> is \<open>Map.set\<close> (in place for a known key, at
  the end for a new one), \<^const>\<open>AList.delete\<close> is \<open>Map.delete\<close>, \<^const>\<open>map_of\<close> is \<open>Map.get\<close>.
\<close>

type_synonym ('k, 'v) jsmap = "('k \<times> 'v) list"

named_theorems bind_simps \<open>equations that run a computation that may throw\<close>

section \<open>Computations that may throw\<close>

text \<open>
  A call that may throw has a sum type, \<^const>\<open>Inl\<close> for the error. \<open>bindE\<close> is
  sequencing: the rest runs only when the first part returned.
\<close>

fun bindE :: "'e + 'a \<Rightarrow> ('a \<Rightarrow> 'e + 'b) \<Rightarrow> 'e + 'b" where
  "bindE (Inl e) f = Inl e"
| "bindE (Inr x) f = f x"

lemma bindE_cong [fundef_cong]:
  assumes "m = m'" and "\<And>x. m' = Inr x \<Longrightarrow> f x = f' x"
  shows "bindE m f = bindE m' f'"
  using assms by (cases m') auto

lemma bindE_Inr_iff [bind_simps]:
  "bindE m f = Inr y \<longleftrightarrow> (\<exists>x. m = Inr x \<and> f x = Inr y)"
  by (cases m) auto

lemma bindE_Inl_iff:
  "bindE m f = Inl e \<longleftrightarrow> m = Inl e \<or> (\<exists>x. m = Inr x \<and> f x = Inl e)"
  by (cases m) auto

lemma bindE_assoc: "bindE (bindE m f) g = bindE m (\<lambda>x. bindE (f x) g)"
  by (cases m) auto

lemma bindE_Inr_right [simp]: "bindE m Inr = m"
  by (cases m) auto

lemma bindE_InrE:
  assumes "bindE m f = Inr y"
  obtains x where "m = Inr x" and "f x = Inr y"
  using assms by (cases m) auto

lemma not_Inl_obtains:
  assumes "\<And>e. m \<noteq> Inl e"
  obtains x where "m = Inr x"
  using assms by (cases m) auto

text \<open>\<open>forE f xs\<close> is \<open>for (const x of xs) out.push(f(x))\<close>, stopping at the first throw.\<close>

fun forE :: "('a \<Rightarrow> 'e + 'b) \<Rightarrow> 'a list \<Rightarrow> 'e + 'b list" where
  "forE f [] = Inr []"
| "forE f (x # xs) = bindE (f x) (\<lambda>y. bindE (forE f xs) (\<lambda>ys. Inr (y # ys)))"

lemma forE_length: "forE f xs = Inr ys \<Longrightarrow> length ys = length xs"
  by (induction xs arbitrary: ys) (auto simp: bind_simps)

lemma forE_Inr_iff: "forE f xs = Inr ys \<longleftrightarrow> list_all2 (\<lambda>x y. f x = Inr y) xs ys"
proof (induction xs arbitrary: ys)
  case Nil
  then show ?case by auto
next
  case (Cons x xs)
  then show ?case by (cases ys) (auto simp: bind_simps)
qed

text \<open>
  \<open>foldE f xs s\<close> is a loop over \<open>xs\<close> whose body updates the state \<open>s\<close> and may throw;
  \<open>repeatE n f s\<close> runs a reader \<open>n\<close> times and collects what it returned.
\<close>

fun foldE :: "('a \<Rightarrow> 's \<Rightarrow> 'e + 's) \<Rightarrow> 'a list \<Rightarrow> 's \<Rightarrow> 'e + 's" where
  "foldE f [] s = Inr s"
| "foldE f (x # xs) s = bindE (f x s) (foldE f xs)"

lemma foldE_cong [fundef_cong]:
  assumes "xs = ys" and "s = t" and "\<And>x u. x \<in> set ys \<Longrightarrow> f x u = g x u"
  shows "foldE f xs s = foldE g ys t"
proof -
  have "(\<And>x u. x \<in> set ys \<Longrightarrow> f x u = g x u) \<Longrightarrow> foldE f ys t = foldE g ys t" for t
    by (induction ys arbitrary: t) (auto intro!: bindE_cong)
  with assms show ?thesis by blast
qed

fun repeatE :: "nat \<Rightarrow> ('s \<Rightarrow> 'e + 'a \<times> 's) \<Rightarrow> 's \<Rightarrow> 'e + 'a list \<times> 's" where
  "repeatE 0 f s = Inr ([], s)"
| "repeatE (Suc n) f s =
     bindE (f s) (\<lambda>(x, s). bindE (repeatE n f s) (\<lambda>(xs, s). Inr (x # xs, s)))"

lemma repeatE_Suc:
  "repeatE (Suc n) f =
     (\<lambda>s. bindE (f s) (\<lambda>(x, s). bindE (repeatE n f s) (\<lambda>(xs, s). Inr (x # xs, s))))"
  by (rule ext) simp

section \<open>JavaScript slices\<close>

text \<open>
  \<open>a.subarray(b, e)\<close> and \<open>s.slice(b, e)\<close> take relative positions: a negative position
  counts from the end, both are clamped to the array, and an end before the start gives
  the empty slice.
\<close>

definition rel_index :: "nat \<Rightarrow> int \<Rightarrow> nat" where
  "rel_index n k = (if k < 0 then nat (int n + k) else min (nat k) n)"

definition subarray :: "'a list \<Rightarrow> int \<Rightarrow> int \<Rightarrow> 'a list" where
  "subarray xs b e =
     (let n = length xs; i = rel_index n b; j = rel_index n e
      in take (j - i) (drop i xs))"

lemma rel_index_nonneg [simp]: "rel_index n (int k) = min k n"
  by (simp add: rel_index_def)

lemma rel_index_le: "rel_index n k \<le> n"
  by (auto simp: rel_index_def)

lemma subarray_nat: "subarray xs (int b) (int e) = take (e - b) (drop b xs)"
proof (cases "b \<le> length xs")
  case True
  then show ?thesis
    by (auto simp: subarray_def Let_def min_def)
next
  case False
  then show ?thesis by (simp add: subarray_def Let_def)
qed

lemma subarray_append:
  "subarray (xs @ ys @ zs) (int (length xs)) (int (length xs) + int (length ys)) = ys"
proof -
  have "int (length xs) + int (length ys) = int (length xs + length ys)" by simp
  then show ?thesis by (simp only: subarray_nat) simp
qed

definition subarray_from :: "'a list \<Rightarrow> int \<Rightarrow> 'a list" where
  "subarray_from xs b = subarray xs b (int (length xs))"

lemma subarray_from_nat: "subarray_from xs (int b) = drop b xs"
  by (simp only: subarray_from_def subarray_nat) simp

lemma subarray_from_end: "n \<le> length xs \<Longrightarrow> subarray_from xs (int (length xs) - int n) = drop (length xs - n) xs"
  using subarray_from_nat [of xs "length xs - n"] by (simp add: of_nat_diff)

lemma subarray_to_end:
  "n \<le> length xs \<Longrightarrow> subarray xs 0 (int (length xs) - int n) = take (length xs - n) xs"
  using subarray_nat [of xs 0 "length xs - n"] by (simp add: of_nat_diff)

lemma length_subarray_le: "length (subarray xs b e) \<le> length xs"
  by (simp add: subarray_def Let_def)

section \<open>Association lists\<close>

lemma map_of_update [simp]: "map_of (AList.update k v m) = (map_of m)(k \<mapsto> v)"
  by (simp add: update_conv')

lemma map_of_delete [simp]: "map_of (AList.delete k m) = (map_of m)(k := None)"
  by (simp add: delete_conv')

lemma distinct_keys_update [simp]:
  "distinct (map fst m) \<Longrightarrow> distinct (map fst (AList.update k v m))"
  by (rule distinct_update)

lemma distinct_keys_delete [simp]:
  "distinct (map fst m) \<Longrightarrow> distinct (map fst (AList.delete k m))"
  by (rule distinct_delete)

section \<open>Lists\<close>

lemma filter_sorted_prefix:
  assumes "sorted xs" and "\<And>a b. a \<le> b \<Longrightarrow> P a \<Longrightarrow> P b"
  shows "filter P xs = dropWhile (\<lambda>x. \<not> P x) xs"
  using assms(1)
proof (induction xs)
  case Nil
  then show ?case by simp
next
  case (Cons x xs)
  show ?case
  proof (cases "P x")
    case True
    with Cons.prems assms(2) have "\<forall>y \<in> set xs. P y" by auto
    with True show ?thesis by simp
  next
    case False
    with Cons show ?thesis by simp
  qed
qed

end
