(* ===== verification/Js_String.thy ===== *)
theory Js_String
  imports Prelude
begin

text \<open>
  JavaScript strings as lists of 16-bit code units, the string operations the sources
  use, and the UTF-8 conversions \<^verbatim>\<open>TextEncoder\<close> and \<^verbatim>\<open>TextDecoder\<close> of the platform, as
  their standards define them: the encoder replaces a lone surrogate by U+FFFD, the
  decoder replaces malformed bytes by U+FFFD and drops a leading byte order mark.
  The main result is the round trip on strings without lone surrogates and without a
  leading byte order mark.
\<close>

section \<open>Strings and literals\<close>

type_synonym cunit = "16 word"
type_synonym jstr = "16 word list"

definition cu :: "char \<Rightarrow> cunit" where
  "cu c = of_char c"

definition js :: "string \<Rightarrow> jstr" where
  "js s = map cu s"

lemma unat_cu: "unat (cu c) = of_char c"
proof -
  have "of_char c < (256 :: nat)" by (rule nat_of_char_less_256)
  then have "(of_char c :: nat) < 2 ^ LENGTH(16)" by (rule order_less_trans) simp
  moreover have "cu c = of_nat (of_char c)" by (simp add: cu_def of_nat_of_char)
  ultimately show ?thesis by (simp add: unat_of_nat)
qed

lemma cu_eq_iff [simp]: "cu c = cu d \<longleftrightarrow> c = d"
  by (metis unat_cu of_char_eq_iff)

lemma inj_cu: "inj cu"
  by (rule injI) simp

lemma js_eq_iff [simp]: "js s = js t \<longleftrightarrow> s = t"
  by (simp add: js_def inj_map_eq_map [OF inj_cu])

lemma js_Nil [simp]: "js [] = []"
  by (simp add: js_def)

lemma js_eq_Nil_iff [simp]: "js s = [] \<longleftrightarrow> s = []" "[] = js s \<longleftrightarrow> s = []"
  by (auto simp: js_def)

lemma js_append: "js (s @ t) = js s @ js t"
  by (simp add: js_def)

section \<open>Operations\<close>

text \<open>White space as \<^verbatim>\<open>String.prototype.trim\<close> and \<open>\s\<close> see it.\<close>

definition is_space :: "cunit \<Rightarrow> bool" where
  "is_space c = (c \<in> {9, 10, 11, 12, 13, 32, 160, 0x1680, 0x2028, 0x2029, 0x202F, 0x205F, 0x3000, 0xFEFF}
     \<or> 0x2000 \<le> c \<and> c \<le> 0x200A)"

definition trim :: "jstr \<Rightarrow> jstr" where
  "trim s = rev (dropWhile is_space (rev (dropWhile is_space s)))"

definition is_digit :: "cunit \<Rightarrow> bool" where
  "is_digit c = (48 \<le> c \<and> c \<le> 57)"

text \<open>\<open>split_on sep s\<close> is \<open>s.split(sep)\<close> for a separator of one code unit.\<close>

fun split_on :: "cunit \<Rightarrow> jstr \<Rightarrow> jstr list" where
  "split_on sep [] = [[]]"
| "split_on sep (c # s) =
     (if c = sep then [] # split_on sep s
      else (case split_on sep s of [] \<Rightarrow> [[c]] | p # ps \<Rightarrow> (c # p) # ps))"

lemma split_on_not_Nil [simp]: "split_on sep s \<noteq> []"
  by (induction s) (auto split: list.splits)

lemma split_on_no_sep: "sep \<notin> set s \<Longrightarrow> split_on sep s = [s]"
  by (induction s) auto

lemma split_on_append:
  "sep \<notin> set s \<Longrightarrow> split_on sep (s @ sep # t) = s # split_on sep t"
  by (induction s) auto

lemma split_on_pieces: "p \<in> set (split_on sep s) \<Longrightarrow> sep \<notin> set p"
proof (induction s arbitrary: p)
  case Nil
  then show ?case by simp
next
  case (Cons c s)
  then show ?case
    by (cases "split_on sep s") (auto split: if_splits)
qed

lemma split_on_hd: "hd (split_on sep s) = takeWhile (\<lambda>c. c \<noteq> sep) s"
  by (induction s) (auto split: list.splits)

lemma length_split_on: "length (split_on sep s) = Suc (count_list s sep)"
  by (induction s) (auto split: list.splits)

lemma trim_id:
  assumes "s \<noteq> [] \<Longrightarrow> \<not> is_space (hd s)" and "s \<noteq> [] \<Longrightarrow> \<not> is_space (last s)"
  shows "trim s = s"
proof (cases s rule: rev_cases)
  case Nil
  then show ?thesis by (simp add: trim_def)
next
  case (snoc t c)
  have "dropWhile is_space s = s"
    using assms(1) by (cases s) auto
  moreover have "dropWhile is_space (rev s) = rev s"
    using assms(2) snoc by simp
  ultimately show ?thesis by (simp add: trim_def)
qed

lemma trim_hd: "trim s \<noteq> [] \<Longrightarrow> \<not> is_space (hd (trim s))"
proof -
  assume ne: "trim s \<noteq> []"
  define t where "t = dropWhile is_space s"
  obtain u where u: "rev t = u @ dropWhile is_space (rev t)"
    by (metis takeWhile_dropWhile_id)
  then have "t = trim s @ rev u"
    by (metis t_def trim_def rev_append rev_rev_ident)
  with ne have "hd t = hd (trim s)" and "t \<noteq> []" by (auto simp: hd_append)
  with hd_dropWhile [of is_space s] show ?thesis by (simp add: t_def)
qed

lemma trim_last: "trim s \<noteq> [] \<Longrightarrow> \<not> is_space (last (trim s))"
  by (simp add: trim_def last_rev hd_dropWhile)

lemma set_trim: "set (trim s) \<subseteq> set s"
  by (auto simp: trim_def dest!: set_dropWhileD)

section \<open>Code units and code points\<close>

definition is_high :: "cunit \<Rightarrow> bool" where
  "is_high c = (0xD800 \<le> c \<and> c \<le> 0xDBFF)"

definition is_low :: "cunit \<Rightarrow> bool" where
  "is_low c = (0xDC00 \<le> c \<and> c \<le> 0xDFFF)"

text \<open>A scalar value is a code point that is no surrogate.\<close>

definition scalar :: "nat \<Rightarrow> bool" where
  "scalar cp = (cp < 0xD800 \<or> 0xE000 \<le> cp \<and> cp < 0x110000)"

text \<open>The string as scalar values, each lone surrogate replaced (\<^verbatim>\<open>USVString\<close>).\<close>

fun to_scalars :: "jstr \<Rightarrow> nat list" where
  "to_scalars [] = []"
| "to_scalars [c] = [if is_high c \<or> is_low c then 0xFFFD else unat c]"
| "to_scalars (c # d # s) =
     (if is_high c \<and> is_low d
      then (0x10000 + (unat c - 0xD800) * 0x400 + (unat d - 0xDC00)) # to_scalars s
      else (if is_high c \<or> is_low c then 0xFFFD else unat c) # to_scalars (d # s))"

definition of_scalar :: "nat \<Rightarrow> jstr" where
  "of_scalar cp =
     (if cp < 0x10000 then [of_nat cp]
      else [of_nat (0xD800 + (cp - 0x10000) div 0x400), of_nat (0xDC00 + (cp - 0x10000) mod 0x400)])"

definition of_scalars :: "nat list \<Rightarrow> jstr" where
  "of_scalars cps = concat (map of_scalar cps)"

text \<open>No lone surrogate (\<^verbatim>\<open>isWellFormed\<close>).\<close>

fun well_formed :: "jstr \<Rightarrow> bool" where
  "well_formed [] = True"
| "well_formed [c] = (\<not> is_high c \<and> \<not> is_low c)"
| "well_formed (c # d # s) =
     (if is_high c then is_low d \<and> well_formed s
      else \<not> is_low c \<and> well_formed (d # s))"

lemma well_formed_Cons: "\<not> is_high c \<Longrightarrow> \<not> is_low c \<Longrightarrow> well_formed s \<Longrightarrow> well_formed (c # s)"
  by (cases s) auto

lemma well_formed_units: "list_all (\<lambda>c. \<not> is_high c \<and> \<not> is_low c) s \<Longrightarrow> well_formed s"
  by (induction s) (auto intro: well_formed_Cons)

section \<open>UTF-8\<close>

text \<open>One scalar value as its UTF-8 bytes.\<close>

definition utf8_of :: "nat \<Rightarrow> nat list" where
  "utf8_of cp =
     (if cp < 0x80 then [cp]
      else if cp < 0x800 then [0xC0 + cp div 64, 0x80 + cp mod 64]
      else if cp < 0x10000
        then [0xE0 + cp div 4096, 0x80 + cp div 64 mod 64, 0x80 + cp mod 64]
      else [0xF0 + cp div 262144, 0x80 + cp div 4096 mod 64, 0x80 + cp div 64 mod 64,
            0x80 + cp mod 64])"

text \<open>
  The decoder of the Encoding standard. Its state is the number of continuation bytes
  still needed, the code point so far, and the range the next byte must be in; an
  unexpected byte ends the sequence with U+FFFD and is looked at again.
\<close>

function utf8_run :: "nat \<Rightarrow> nat \<Rightarrow> nat \<Rightarrow> nat \<Rightarrow> nat list \<Rightarrow> nat list" where
  "utf8_run need cp lo hi [] = (if need = 0 then [] else [0xFFFD])"
| "utf8_run need cp lo hi (b # bs) =
     (if need = 0 then
        (if b < 0x80 then b # utf8_run 0 0 0x80 0xBF bs
         else if 0xC2 \<le> b \<and> b \<le> 0xDF then utf8_run 1 (b - 0xC0) 0x80 0xBF bs
         else if 0xE0 \<le> b \<and> b \<le> 0xEF
           then utf8_run 2 (b - 0xE0) (if b = 0xE0 then 0xA0 else 0x80)
                  (if b = 0xED then 0x9F else 0xBF) bs
         else if 0xF0 \<le> b \<and> b \<le> 0xF4
           then utf8_run 3 (b - 0xF0) (if b = 0xF0 then 0x90 else 0x80)
                  (if b = 0xF4 then 0x8F else 0xBF) bs
         else 0xFFFD # utf8_run 0 0 0x80 0xBF bs)
      else if lo \<le> b \<and> b \<le> hi then
        (if need = 1 then (cp * 64 + (b - 0x80)) # utf8_run 0 0 0x80 0xBF bs
         else utf8_run (need - 1) (cp * 64 + (b - 0x80)) 0x80 0xBF bs)
      else 0xFFFD # utf8_run 0 0 0x80 0xBF (b # bs))"
  by pat_completeness auto
termination
  by (relation "measure (\<lambda>(need, cp, lo, hi, bs). 2 * length bs + (if need = 0 then 0 else 1))")
    auto

definition utf8_decode :: "nat list \<Rightarrow> nat list" where
  "utf8_decode bs = utf8_run 0 0 0x80 0xBF bs"

definition strip_bom :: "nat list \<Rightarrow> nat list" where
  "strip_bom bs = (if take 3 bs = [0xEF, 0xBB, 0xBF] then drop 3 bs else bs)"

text \<open>\<open>new TextEncoder().encode(s)\<close> and \<open>new TextDecoder().decode(bs)\<close>.\<close>

definition text_encode :: "jstr \<Rightarrow> bytes" where
  "text_encode s = map of_nat (concat (map utf8_of (to_scalars s)))"

definition text_decode :: "bytes \<Rightarrow> jstr" where
  "text_decode bs = of_scalars (utf8_decode (strip_bom (map unat bs)))"

section \<open>Round trip\<close>

lemma utf8_of_bytes: "scalar cp \<Longrightarrow> \<forall>b \<in> set (utf8_of cp). b < 256"
  by (auto simp: utf8_of_def scalar_def)

lemma base64_digits3: "(n :: nat) = (n div 4096 * 64 + n div 64 mod 64) * 64 + n mod 64"
proof -
  have "n div 4096 = n div 64 div 64" by (simp add: div_mult2_eq [symmetric])
  then have "n div 4096 * 64 + n div 64 mod 64 = n div 64" by (simp add: mult.commute)
  then show ?thesis by simp
qed

lemma base64_digits4:
  "(n :: nat) = ((n div 262144 * 64 + n div 4096 mod 64) * 64 + n div 64 mod 64) * 64 + n mod 64"
proof -
  have "n div 262144 = n div 64 div 4096" and "n div 4096 = n div 64 div 64"
    by (simp_all add: div_mult2_eq [symmetric])
  then have "(n div 262144 * 64 + n div 4096 mod 64) * 64 + n div 64 mod 64 = n div 64"
    using base64_digits3 [of "n div 64"] by simp
  then show ?thesis by simp
qed

lemma utf8_run_2:
  assumes "0x80 \<le> cp" "cp < 0x800"
  shows "utf8_run 0 0 0x80 0xBF (utf8_of cp @ bs) = cp # utf8_run 0 0 0x80 0xBF bs"
proof -
  have q: "2 \<le> cp div 64" "cp div 64 < 32" "cp mod 64 < 64" using assms by auto
  show ?thesis using assms q by (simp add: utf8_of_def)
qed

lemma utf8_run_3:
  assumes "0x800 \<le> cp" "cp < 0x10000" "scalar cp"
  shows "utf8_run 0 0 0x80 0xBF (utf8_of cp @ bs) = cp # utf8_run 0 0 0x80 0xBF bs"
proof -
  define q r t where "q = cp div 4096" and "r = cp div 64 mod 64" and "t = cp mod 64"
  have b: "q < 16" "r < 64" "t < 64" using assms by (auto simp: q_def r_def t_def)
  have cp: "cp = (q * 64 + r) * 64 + t"
    unfolding q_def r_def t_def by (rule base64_digits3)
  have lo: "q = 0 \<Longrightarrow> 0x20 \<le> r" using cp assms(1) b by simp
  have hi: "q = 13 \<Longrightarrow> r < 0x20" using cp assms(3) b by (auto simp: scalar_def)
  have "utf8_of cp = [0xE0 + q, 0x80 + r, 0x80 + t]"
    using assms by (simp add: utf8_of_def q_def r_def t_def)
  with b lo hi show ?thesis by (auto simp: cp)
qed

lemma utf8_run_4:
  assumes "0x10000 \<le> cp" "cp < 0x110000"
  shows "utf8_run 0 0 0x80 0xBF (utf8_of cp @ bs) = cp # utf8_run 0 0 0x80 0xBF bs"
proof -
  define p q r t where "p = cp div 262144" and "q = cp div 4096 mod 64"
    and "r = cp div 64 mod 64" and "t = cp mod 64"
  have b: "p < 5" "q < 64" "r < 64" "t < 64"
    using assms by (auto simp: p_def q_def r_def t_def)
  have cp: "cp = ((p * 64 + q) * 64 + r) * 64 + t"
    unfolding p_def q_def r_def t_def by (rule base64_digits4)
  have lo: "p = 0 \<Longrightarrow> 0x10 \<le> q" using cp assms(1) b by simp
  have hi: "p = 4 \<Longrightarrow> q < 0x10" using cp assms(2) b by simp
  have "utf8_of cp = [0xF0 + p, 0x80 + q, 0x80 + r, 0x80 + t]"
    using assms by (simp add: utf8_of_def p_def q_def r_def t_def)
  with b lo hi show ?thesis by (auto simp: cp)
qed

lemma utf8_run_scalar:
  "scalar cp \<Longrightarrow> utf8_run 0 0 0x80 0xBF (utf8_of cp @ bs) = cp # utf8_run 0 0 0x80 0xBF bs"
proof -
  assume s: "scalar cp"
  then have "cp < 0x110000" by (auto simp: scalar_def)
  with s show ?thesis
    using utf8_run_2 [of cp bs] utf8_run_3 [of cp bs] utf8_run_4 [of cp bs]
    by (cases "cp < 0x80"; cases "cp < 0x800"; cases "cp < 0x10000") (auto simp: utf8_of_def)
qed

lemma utf8_decode_encode:
  "\<forall>cp \<in> set cps. scalar cp \<Longrightarrow> utf8_decode (concat (map utf8_of cps)) = cps"
  by (induction cps) (auto simp: utf8_decode_def utf8_run_scalar)

lemma utf8_bom: "scalar cp \<Longrightarrow> take 3 (utf8_of cp @ bs) = [0xEF, 0xBB, 0xBF] \<Longrightarrow> cp = 0xFEFF"
proof -
  assume s: "scalar cp" and t: "take 3 (utf8_of cp @ bs) = [0xEF, 0xBB, 0xBF]"
  have "cp < 0x110000" using s by (auto simp: scalar_def)
  moreover have "hd (utf8_of cp) = 0xEF"
    using arg_cong [OF t, of hd] by (auto simp: utf8_of_def split: if_splits)
  ultimately have r: "0x800 \<le> cp" "cp < 0x10000" by (auto simp: utf8_of_def split: if_splits)
  with t have e: "cp div 4096 = 15" "cp div 64 mod 64 = 0x3B" "cp mod 64 = 0x3F"
    by (auto simp: utf8_of_def numeral_3_eq_3)
  have "cp = (cp div 4096 * 64 + cp div 64 mod 64) * 64 + cp mod 64"
    by (rule base64_digits3)
  with e show ?thesis by simp
qed

subsection \<open>UTF-16\<close>

lemma unat_high: "is_high c \<Longrightarrow> 0xD800 \<le> unat c \<and> unat c \<le> 0xDBFF"
  by (simp add: is_high_def word_le_nat_alt)

lemma unat_low: "is_low c \<Longrightarrow> 0xDC00 \<le> unat c \<and> unat c \<le> 0xDFFF"
  by (simp add: is_low_def word_le_nat_alt)

lemma unat_plain: "\<not> is_high c \<Longrightarrow> \<not> is_low c \<Longrightarrow> scalar (unat c)"
  using unsigned_less [of c, where ?'a = nat] by (auto simp: is_high_def is_low_def word_le_nat_alt scalar_def)

lemma of_scalar_plain [simp]: "of_scalar (unat (c :: cunit)) = [c]"
  using unsigned_less [of c, where ?'a = nat] by (simp add: of_scalar_def)

lemma of_scalar_pair:
  assumes "is_high c" and "is_low d"
  shows "of_scalar (0x10000 + (unat c - 0xD800) * 0x400 + (unat d - 0xDC00)) = [c, d]"
proof -
  define x y where "x = unat c - 0xD800" and "y = unat d - 0xDC00"
  have x: "unat c = 0xD800 + x" using unat_high [OF assms(1)] by (simp add: x_def)
  have y: "unat d = 0xDC00 + y" "y < 0x400"
    using unat_low [OF assms(2)] by (auto simp: y_def)
  have c: "c = of_nat (0xD800 + x)" by (simp add: x [symmetric])
  have d: "d = of_nat (0xDC00 + y)" by (simp add: y(1) [symmetric])
  have "of_scalar (0x10000 + x * 0x400 + y) = [of_nat (0xD800 + x), of_nat (0xDC00 + y)]"
    using y(2) by (simp add: of_scalar_def add.assoc del: of_nat_add)
  then show ?thesis by (simp only: c [symmetric] d [symmetric] flip: x_def y_def)
qed

lemma scalar_pair:
  assumes "is_high c" and "is_low d"
  shows "scalar (0x10000 + (unat c - 0xD800) * 0x400 + (unat d - 0xDC00))"
  using unat_high [OF assms(1)] unat_low [OF assms(2)] by (auto simp: scalar_def)

lemma to_scalars_scalar: "\<forall>cp \<in> set (to_scalars s). scalar cp"
  by (induction s rule: to_scalars.induct)
    (auto simp: scalar_pair unat_plain, simp_all add: scalar_def)

lemma of_scalars_to_scalars: "well_formed s \<Longrightarrow> of_scalars (to_scalars s) = s"
  by (induction s rule: to_scalars.induct)
    (auto simp: of_scalars_def of_scalar_pair split: if_splits)

lemma to_scalars_hd_bom: "hd (to_scalars s) = 0xFEFF \<Longrightarrow> s \<noteq> [] \<Longrightarrow> hd s = 0xFEFF"
proof (induction s rule: to_scalars.induct)
  case (2 c)
  then show ?case by (auto simp: word_unat_eq_iff split: if_splits)
next
  case (3 c d s)
  then show ?case by (auto simp: word_unat_eq_iff split: if_splits)
qed simp

subsection \<open>Strings through UTF-8\<close>

text \<open>A string that both platform coders leave alone.\<close>

definition codable :: "jstr \<Rightarrow> bool" where
  "codable s = (well_formed s \<and> (s \<noteq> [] \<longrightarrow> hd s \<noteq> 0xFEFF))"

lemma unat_text_encode: "map unat (text_encode s) = concat (map utf8_of (to_scalars s))"
proof -
  have "unat (of_nat b :: byte) = b" if "b \<in> set (concat (map utf8_of (to_scalars s)))" for b
  proof -
    have "b < 256" using that utf8_of_bytes to_scalars_scalar by auto
    then show ?thesis by (simp add: unat_of_nat)
  qed
  then show ?thesis by (simp only: text_encode_def map_map) (rule map_idI, simp)
qed

lemma to_scalars_eq_Nil [simp]: "to_scalars s = [] \<longleftrightarrow> s = []"
  by (induction s rule: to_scalars.induct) auto

lemma strip_bom_encode:
  assumes "s \<noteq> [] \<Longrightarrow> hd s \<noteq> 0xFEFF"
  shows "strip_bom (concat (map utf8_of (to_scalars s))) = concat (map utf8_of (to_scalars s))"
proof (cases "to_scalars s")
  case Nil
  then show ?thesis by (simp add: strip_bom_def)
next
  case (Cons cp cps)
  then have s: "s \<noteq> []" and cp: "scalar cp" using to_scalars_scalar [of s] by auto
  have "cp \<noteq> 0xFEFF" using to_scalars_hd_bom [of s] Cons s assms by auto
  then have "take 3 (utf8_of cp @ concat (map utf8_of cps)) \<noteq> [0xEF, 0xBB, 0xBF]"
    using utf8_bom [OF cp] by blast
  then show ?thesis by (simp add: strip_bom_def Cons)
qed

lemma text_roundtrip: "codable s \<Longrightarrow> text_decode (text_encode s) = s"
  by (simp add: text_decode_def unat_text_encode strip_bom_encode codable_def
      utf8_decode_encode to_scalars_scalar of_scalars_to_scalars)

text \<open>Every string reaches a fixed point after one pass, unless it starts with a mark.\<close>

lemma text_decode_encode:
  "(s \<noteq> [] \<Longrightarrow> hd s \<noteq> 0xFEFF) \<Longrightarrow> text_decode (text_encode s) = of_scalars (to_scalars s)"
  by (simp add: text_decode_def unat_text_encode strip_bom_encode
      utf8_decode_encode to_scalars_scalar)

lemma well_formed_ascii: "well_formed (js s)"
proof -
  have "\<not> is_high (cu c) \<and> \<not> is_low (cu c)" for c
  proof -
    have "unat (cu c) < 256" by (simp add: unat_cu)
    then show ?thesis by (auto dest: unat_high unat_low)
  qed
  then have "well_formed (map cu s)" by (induction s rule: induct_list012) auto
  then show ?thesis by (simp add: js_def)
qed

lemma codable_ascii [simp]: "codable (js s)"
proof (cases s)
  case Nil
  then show ?thesis by (simp add: codable_def)
next
  case (Cons c t)
  have "unat (cu c) < 256" by (simp add: unat_cu)
  then have "cu c \<noteq> 0xFEFF" by (auto simp: word_unat_eq_iff)
  with well_formed_ascii [of s] show ?thesis by (simp add: codable_def Cons js_def)
qed

lemma length_to_scalars: "length (to_scalars s) \<le> length s"
  by (induction s rule: to_scalars.induct) auto

lemma length_utf8_of_unit: "length (utf8_of (unat (c :: cunit))) \<le> 3"
  using unsigned_less [of c] by (simp add: utf8_of_def)

lemma length_utf8_pieces: "sum_list (map (\<lambda>cp. length (utf8_of cp)) (to_scalars s)) \<le> 3 * length s"
proof (induction s rule: to_scalars.induct)
  case (2 c)
  have "length (utf8_of 0xFFFD) \<le> 3" by (simp add: utf8_of_def)
  then show ?case using length_utf8_of_unit [of c] by simp
next
  case (3 c d s)
  have "length (utf8_of n) \<le> 4" for n by (simp add: utf8_of_def)
  from this [of "0x10000 + (unat c - 0xD800) * 0x400 + (unat d - 0xDC00)"]
  have high: "length (utf8_of (0x10000 + (unat c - 0xD800) * 0x400 + (unat d - 0xDC00))) \<le> 4" .
  have unit: "length (utf8_of 0xFFFD) \<le> 3" by (simp add: utf8_of_def)
  show ?case
  proof (cases "is_high c \<and> is_low d")
    case True
    with 3(1) [OF True] high show ?thesis by simp
  next
    case False
    with 3(2) [OF False] unit length_utf8_of_unit [of c] show ?thesis by auto
  qed
qed simp

lemma length_text_encode: "length (text_encode s) \<le> 3 * length s"
proof -
  have "length (text_encode s) = length (concat (map utf8_of (to_scalars s)))"
    by (metis unat_text_encode length_map)
  then show ?thesis using length_utf8_pieces [of s] by (simp add: length_concat o_def)
qed

end
