(* ===== verification/Js_Number.thy ===== *)
theory Js_Number
  imports Js_String
begin

text \<open>
  Integer-valued JavaScript numbers: rounding to the nearest double, their conversion to
  strings (shortest digits that read back as the same double, exponent form from
  $10^{21}$ on) and \<^verbatim>\<open>parseInt(s, 10)\<close>. Fractions, NaN as a stored value and the sign
  of zero are not values of \<open>jsnum\<close>; \<^const>\<open>None\<close> stands for the NaN that
  \<^verbatim>\<open>parseInt\<close> returns. The main results are that numbers below $2^{53}$ print as
  their plain decimal digits and that \<^verbatim>\<open>parseInt\<close> reads them back.
\<close>

section \<open>Decimal digits\<close>

fun digits :: "nat \<Rightarrow> nat list" where
  "digits n = (if n < 10 then [n] else digits (n div 10) @ [n mod 10])"

declare digits.simps [simp del]

lemma digits_less [simp]: "n < 10 \<Longrightarrow> digits n = [n]"
  by (simp add: digits.simps)

lemma digits_ge: "10 \<le> n \<Longrightarrow> digits n = digits (n div 10) @ [n mod 10]"
  by (simp add: digits.simps)

definition digits_value :: "nat list \<Rightarrow> nat" where
  "digits_value ds = foldl (\<lambda>a d. 10 * a + d) 0 ds"

lemma digits_value_snoc [simp]: "digits_value (ds @ [d]) = 10 * digits_value ds + d"
  by (simp add: digits_value_def)

lemma digits_value_digits [simp]: "digits_value (digits n) = n"
proof (induction n rule: digits.induct)
  case (1 n)
  then show ?case
    by (cases "n < 10") (simp add: digits_value_def, simp add: digits_ge)
qed

lemma digits_bound: "d \<in> set (digits n) \<Longrightarrow> d < 10"
proof (induction n rule: digits.induct)
  case (1 n)
  then show ?case by (cases "n < 10") (auto simp: digits_ge)
qed

lemma digits_not_Nil [simp]: "digits n \<noteq> []"
  by (cases "n < 10") (simp_all add: digits_ge)

lemma digits_times_power:
  "0 < s \<Longrightarrow> digits (s * 10 ^ e) = digits s @ replicate e 0"
proof (induction e)
  case 0
  then show ?case by simp
next
  case (Suc e)
  have "10 \<le> s * 10 ^ Suc e" using Suc.prems by (simp add: Suc_le_eq)
  then have "digits (s * 10 ^ Suc e) = digits (s * 10 ^ e) @ [0]"
    by (subst digits_ge) (simp_all add: mult.left_commute)
  with Suc show ?case by (simp add: replicate_append_same)
qed

lemma digits_length: "n < 10 ^ k \<Longrightarrow> 0 < k \<Longrightarrow> length (digits n) \<le> k"
proof (induction n arbitrary: k rule: digits.induct)
  case (1 n)
  show ?case
  proof (cases "n < 10")
    case True
    with 1 show ?thesis by simp
  next
    case False
    then obtain k' where k: "k = Suc k'" "0 < k'"
      using "1.prems" by (cases k; cases "k - 1") auto
    have "n div 10 < 10 ^ k'" using "1.prems"(1) k by (simp add: less_mult_imp_div_less)
    with "1.IH" [of k'] False k show ?thesis by (simp add: digits_ge)
  qed
qed

definition digit_cu :: "nat \<Rightarrow> cunit" where
  "digit_cu d = of_nat (48 + d)"

definition nat_to_js :: "nat \<Rightarrow> jstr" where
  "nat_to_js n = map digit_cu (digits n)"

lemma unat_digit_cu: "d < 10 \<Longrightarrow> unat (digit_cu d) = 48 + d"
  by (simp add: digit_cu_def unat_of_nat del: of_nat_add)

lemma is_digit_cu [simp]: "d < 10 \<Longrightarrow> is_digit (digit_cu d)"
  by (simp add: is_digit_def word_le_nat_alt unat_digit_cu)

lemma nat_to_js_digits: "c \<in> set (nat_to_js n) \<Longrightarrow> is_digit c"
  by (auto simp: nat_to_js_def dest: digits_bound)

lemma nat_to_js_not_Nil [simp]: "nat_to_js n \<noteq> []"
  by (simp add: nat_to_js_def)

lemma is_digit_facts:
  "is_digit c \<Longrightarrow> \<not> is_space c"
  "is_digit c \<Longrightarrow> c \<noteq> cu CHR ''-''"
  "is_digit c \<Longrightarrow> c \<noteq> cu CHR ''+''"
proof -
  assume "is_digit c"
  then have u: "48 \<le> unat c \<and> unat c \<le> 57" by (simp add: is_digit_def word_le_nat_alt)
  then show "\<not> is_space c"
    by (auto simp: is_space_def word_unat_eq_iff word_le_nat_alt)
  show "c \<noteq> cu CHR ''-''" "c \<noteq> cu CHR ''+''"
    using u by (auto simp: unat_cu)
qed

section \<open>Doubles\<close>

fun bit_len :: "nat \<Rightarrow> nat" where
  "bit_len n = (if n = 0 then 0 else Suc (bit_len (n div 2)))"

declare bit_len.simps [simp del]

lemma bit_len_lower: "0 < n \<Longrightarrow> 2 ^ (bit_len n - 1) \<le> n"
proof (induction n rule: bit_len.induct)
  case (1 n)
  show ?case
  proof (cases "n div 2 = 0")
    case True
    with 1 show ?thesis by (simp add: bit_len.simps [of n] bit_len.simps [of 0])
  next
    case False
    then have "0 < bit_len (n div 2)" by (simp add: bit_len.simps)
    then have "2 ^ bit_len (n div 2) = 2 * (2 :: nat) ^ (bit_len (n div 2) - 1)"
      by (cases "bit_len (n div 2)") auto
    also have "\<dots> \<le> 2 * (n div 2)" using 1 False by simp
    also have "\<dots> \<le> n" by simp
    finally show ?thesis using 1 by (simp add: bit_len.simps [of n])
  qed
qed

lemma bit_len_upper: "n < 2 ^ bit_len n"
proof (induction n rule: bit_len.induct)
  case (1 n)
  then show ?case by (cases "n = 0") (auto simp: bit_len.simps [of n])
qed

lemma bit_len_ge: "2 ^ k \<le> n \<Longrightarrow> k < bit_len n"
  using bit_len_upper [of n] by (metis not_less order_le_less_trans power_increasing one_le_numeral)

text \<open>Round to nearest, ties to even, at 53 significant bits.\<close>

definition rd :: "nat \<Rightarrow> nat" where
  "rd n =
     (if n < 2 ^ 53 then n
      else let e = bit_len n - 53; q = n div 2 ^ e; r = n mod 2 ^ e; half = 2 ^ (e - 1)
           in (if half < r \<or> r = half \<and> odd q then q + 1 else q) * 2 ^ e)"

lemma rd_small [simp]: "n < 2 ^ 53 \<Longrightarrow> rd n = n"
  by (simp add: rd_def)

lemma rd_big:
  assumes "2 ^ 53 \<le> n"
  shows "2 ^ 53 \<le> rd n"
proof -
  define e where "e = bit_len n - 53"
  have k: "53 < bit_len n" by (rule bit_len_ge) (rule assms)
  then have e: "e \<noteq> 0" "bit_len n - 1 = 52 + e" by (auto simp: e_def)
  have "(2 :: nat) ^ (52 + e) \<le> n"
    using bit_len_lower [of n] assms e(2) by simp
  then have q: "2 ^ 52 \<le> n div 2 ^ e"
    by (simp add: power_add less_eq_div_iff_mult_less_eq)
  have "(2 :: nat) ^ 53 = 2 ^ 52 * 2 ^ 1" by simp
  also have "\<dots> \<le> n div 2 ^ e * 2 ^ e"
    using q e(1) by (intro mult_mono power_increasing) auto
  also have "\<dots> \<le> rd n"
    using assms by (simp add: rd_def Let_def flip: e_def)
  finally show ?thesis .
qed

lemma rd_eq_small: "rd c = m \<Longrightarrow> m < 2 ^ 53 \<Longrightarrow> c = m"
  using rd_big [of c] by (cases "c < 2 ^ 53") auto

datatype jsnum = Fin int | PosInf | NegInf

definition to_num :: "int \<Rightarrow> jsnum" where
  "to_num n =
     (let m = rd (nat \<bar>n\<bar>)
      in if 2 ^ 1024 \<le> m then (if n < 0 then NegInf else PosInf) else Fin (sgn n * int m))"

definition safe_int :: "int \<Rightarrow> bool" where
  "safe_int n = (\<bar>n\<bar> < 2 ^ 53)"

lemma to_num_safe [simp]:
  assumes "safe_int n"
  shows "to_num n = Fin n"
proof -
  have m: "nat \<bar>n\<bar> < 2 ^ 53" using assms by (simp add: safe_int_def nat_less_iff)
  moreover have "(2 :: nat) ^ 53 \<le> 2 ^ 1024" by (rule power_increasing) simp_all
  ultimately have "\<not> 2 ^ 1024 \<le> nat \<bar>n\<bar>" by linarith
  with m show ?thesis by (simp add: to_num_def Let_def sgn_mult_abs)
qed

section \<open>Numbers as strings\<close>

text \<open>
  The digits of $s$ and the exponent $e$, as large as possible, such that $s \cdot 10^e$
  reads back as \<open>m\<close>; of two candidates the one closer to \<open>m\<close>.
\<close>

fun shortest :: "nat \<Rightarrow> nat \<Rightarrow> nat \<times> nat" where
  "shortest 0 m = (m, 0)"
| "shortest (Suc e) m =
     (let p = 10 ^ Suc e; lo = m div p; hi = lo + 1
      in if rd (lo * p) = m \<and> (rd (hi * p) \<noteq> m \<or> m - lo * p \<le> hi * p - m) then (lo, Suc e)
         else if rd (hi * p) = m then (hi, Suc e)
         else shortest e m)"

definition pos_to_js :: "nat \<Rightarrow> jstr" where
  "pos_to_js m =
     (let (s, e) = shortest (length (digits m)) m; ds = nat_to_js s; n = length ds + e
      in if n \<le> 21 then ds @ replicate e (digit_cu 0)
         else hd ds # (if tl ds = [] then [] else cu CHR ''.'' # tl ds)
                @ js ''e+'' @ nat_to_js (n - 1))"

fun num_to_js :: "jsnum \<Rightarrow> jstr" where
  "num_to_js (Fin n) =
     (if n = 0 then js ''0''
      else if n < 0 then cu CHR ''-'' # pos_to_js (nat (- n))
      else pos_to_js (nat n))"
| "num_to_js PosInf = js ''Infinity''"
| "num_to_js NegInf = js ''-Infinity''"

text \<open>\<^verbatim>\<open>parseInt(s, 10)\<close>.\<close>

definition parse_int :: "jstr \<Rightarrow> jsnum option" where
  "parse_int s =
     (let t = dropWhile is_space s;
          neg = (t \<noteq> [] \<and> hd t = cu CHR ''-'');
          u = (if t \<noteq> [] \<and> (hd t = cu CHR ''-'' \<or> hd t = cu CHR ''+'') then tl t else t);
          ds = takeWhile is_digit u;
          v = int (digits_value (map (\<lambda>c. unat c - 48) ds))
      in if ds = [] then None else Some (to_num (if neg then - v else v)))"

lemma shortest_exact:
  "m < 2 ^ 53 \<Longrightarrow> fst (shortest e m) * 10 ^ snd (shortest e m) = m"
proof (induction e)
  case 0
  then show ?case by simp
next
  case (Suc e)
  let ?p = "10 ^ Suc e :: nat" and ?lo = "m div 10 ^ Suc e"
  from Suc.prems have "rd c = m \<Longrightarrow> c = m" for c by (rule rd_eq_small [rotated])
  then have "rd (?lo * ?p) = m \<Longrightarrow> ?lo * ?p = m" and "rd ((?lo + 1) * ?p) = m \<Longrightarrow> (?lo + 1) * ?p = m"
    by blast+
  with Suc show ?case by (simp add: Let_def del: power_Suc)
qed

lemma pos_to_js_safe:
  assumes "0 < m" and "m < 2 ^ 53"
  shows "pos_to_js m = nat_to_js m"
proof -
  obtain s e where se: "shortest (length (digits m)) m = (s, e)" by fastforce
  with shortest_exact [OF assms(2), of "length (digits m)"] have m: "m = s * 10 ^ e" by simp
  with assms(1) have d: "digits m = digits s @ replicate e 0"
    by (simp add: digits_times_power)
  have "(2 :: nat) ^ 53 \<le> 10 ^ 21" by simp
  with assms(2) have "m < 10 ^ 21" by linarith
  then have "length (digits m) \<le> 21" by (rule digits_length) simp
  with d have "length (digits s) + e \<le> 21" by simp
  then have "pos_to_js m = nat_to_js s @ replicate e (digit_cu 0)"
    unfolding pos_to_js_def se Let_def prod.case by (simp add: nat_to_js_def)
  also have "\<dots> = nat_to_js m" by (simp add: nat_to_js_def d)
  finally show ?thesis .
qed

lemma num_to_js_safe:
  assumes "safe_int n"
  shows "num_to_js (Fin n) = (if n < 0 then [cu CHR ''-''] else []) @ nat_to_js (nat \<bar>n\<bar>)"
proof -
  have "nat \<bar>n\<bar> < 2 ^ 53" using assms by (simp add: safe_int_def nat_less_iff)
  then show ?thesis
    using pos_to_js_safe [of "nat \<bar>n\<bar>"]
    by (auto simp: nat_to_js_def js_def digit_cu_def cu_def)
qed

lemma takeWhile_digits_nat_to_js [simp]: "takeWhile is_digit (nat_to_js n) = nat_to_js n"
  by (simp add: takeWhile_eq_all_conv nat_to_js_digits)

lemma value_nat_to_js [simp]: "digits_value (map (\<lambda>c. unat c - 48) (nat_to_js n)) = n"
proof -
  have "map (\<lambda>c. unat c - 48) (nat_to_js n) = digits n"
    by (simp add: nat_to_js_def map_idI unat_digit_cu digits_bound)
  then show ?thesis by simp
qed

lemma parse_int_print:
  assumes "safe_int n"
  shows "parse_int (num_to_js (Fin n)) = Some (Fin n)"
proof -
  let ?d = "nat_to_js (nat \<bar>n\<bar>)"
  have hd: "is_digit (hd ?d)" by (rule nat_to_js_digits [where n = "nat \<bar>n\<bar>"]) simp
  have "\<not> is_space (cu CHR ''-'')" by (simp add: is_space_def cu_def)
  with hd have "dropWhile is_space (num_to_js (Fin n)) = num_to_js (Fin n)"
    using is_digit_facts(1) [OF hd]
    by (cases ?d) (auto simp: num_to_js_safe [OF assms] simp del: num_to_js.simps)
  moreover have "hd ?d \<noteq> cu CHR ''-''" "hd ?d \<noteq> cu CHR ''+''"
    using is_digit_facts(2,3) [OF hd] .
  ultimately show ?thesis
    using assms
    by (auto simp: parse_int_def Let_def num_to_js_safe [OF assms] simp del: num_to_js.simps)
qed

lemma num_to_js_chars:
  assumes "safe_int n" and "c \<in> set (num_to_js (Fin n))"
  shows "is_digit c \<or> c = cu CHR ''-''"
  using assms(2) by (auto simp: num_to_js_safe [OF assms(1)] dest: nat_to_js_digits
      simp del: num_to_js.simps split: if_splits)

section \<open>Hexadecimal digits\<close>

definition hex_digit :: "nat \<Rightarrow> cunit" where
  "hex_digit d = cu (''0123456789abcdef'' ! d)"

lemma hex_digit_range:
  assumes "d < 16"
  shows "hex_digit d \<in> {48 .. 57} \<union> {97 .. 102}"
proof -
  have "list_all (\<lambda>d. 48 \<le> hex_digit d \<and> hex_digit d \<le> 57 \<or> 97 \<le> hex_digit d \<and> hex_digit d \<le> 102) [0..<16]"
    by code_simp
  then show ?thesis using assms by (simp add: list_all_iff)
qed

end
