(* ===== verification/Js_Object.thy ===== *)
theory Js_Object
  imports Js_Number
begin

text \<open>
  Plain JavaScript objects used as string-keyed records (\<^verbatim>\<open>Record<string, V>\<close>): the list
  of own enumerable properties in the order \<^verbatim>\<open>Object.entries\<close> gives them, array indices
  first in ascending order, then the other keys in order of creation. Assigning to the
  key \<^verbatim>\<open>__proto__\<close> of an object literal calls the inherited setter and creates no
  property. The main result is that re-assigning the entries of an object one by one
  rebuilds that object.
\<close>

type_synonym 'v jsobj = "(jstr \<times> 'v) list"

definition proto_key :: jstr where
  "proto_key = js ''__proto__''"

text \<open>The array index a key denotes: a canonical numeral below $2^{32} - 1$.\<close>

definition array_index :: "jstr \<Rightarrow> nat option" where
  "array_index k =
     (let v = digits_value (map (\<lambda>c. unat c - 48) k)
      in if k \<noteq> [] \<and> list_all is_digit k \<and> (hd k \<noteq> cu CHR ''0'' \<or> tl k = []) \<and> v < 4294967295
         then Some v else None)"

fun insert_index :: "nat \<Rightarrow> jstr \<Rightarrow> 'v \<Rightarrow> 'v jsobj \<Rightarrow> 'v jsobj" where
  "insert_index i k v [] = [(k, v)]"
| "insert_index i k v (p # ps) =
     (case array_index (fst p) of
        None \<Rightarrow> (k, v) # p # ps
      | Some j \<Rightarrow> if j < i then p # insert_index i k v ps else (k, v) # p # ps)"

text \<open>\<open>obj[k] = v\<close>, with a string as the value.\<close>

definition obj_set :: "jstr \<Rightarrow> 'v \<Rightarrow> 'v jsobj \<Rightarrow> 'v jsobj" where
  "obj_set k v ps =
     (if k = proto_key then ps
      else if k \<in> set (map fst ps) then AList.update k v ps
      else (case array_index k of None \<Rightarrow> ps @ [(k, v)] | Some i \<Rightarrow> insert_index i k v ps))"

text \<open>\<open>Object.assign(obj, src)\<close>: every entry of \<open>src\<close> is assigned in turn.\<close>

definition obj_assign :: "'v jsobj \<Rightarrow> 'v jsobj \<Rightarrow> 'v jsobj" where
  "obj_assign ps src = foldl (\<lambda>ob (k, v). obj_set k v ob) ps src"

section \<open>The shape every object has\<close>

fun key_before :: "jstr \<Rightarrow> jstr \<Rightarrow> bool" where
  "key_before a b =
     (case (array_index a, array_index b) of
        (Some i, Some j) \<Rightarrow> i < j
      | (None, Some j) \<Rightarrow> False
      | _ \<Rightarrow> a \<noteq> b)"

definition obj_ok :: "'v jsobj \<Rightarrow> bool" where
  "obj_ok ps = (sorted_wrt key_before (map fst ps) \<and> proto_key \<notin> set (map fst ps))"

lemma key_before_irrefl [simp]: "\<not> key_before a a"
  by (auto split: option.splits)

lemma obj_ok_distinct: "obj_ok ps \<Longrightarrow> distinct (map fst ps)"
proof -
  assume "obj_ok ps"
  then have "sorted_wrt key_before (map fst ps)" by (simp add: obj_ok_def)
  then show ?thesis by (induction ps) (auto simp del: key_before.simps)
qed

lemma obj_ok_Nil [simp]: "obj_ok []"
  by (simp add: obj_ok_def)

lemma set_insert_index: "set (insert_index i k v ps) = insert (k, v) (set ps)"
  by (induction ps) (auto split: option.splits)

lemma keys_insert_index: "fst ` set (insert_index i k v ps) = insert k (fst ` set ps)"
  by (simp add: set_insert_index)

lemma map_of_insert_index:
  "k \<notin> fst ` set ps \<Longrightarrow> map_of (insert_index i k v ps) = (map_of ps)(k \<mapsto> v)"
  by (induction ps) (auto split: option.splits)

lemma obj_set_lookup:
  "map_of (obj_set k v ps) = (if k = proto_key then map_of ps else (map_of ps)(k \<mapsto> v))"
proof (cases "k \<in> set (map fst ps)")
  case True
  then show ?thesis by (simp add: obj_set_def)
next
  case False
  then have "map_of ps k = None" by (simp add: map_of_eq_None_iff)
  with False show ?thesis
    by (auto simp: obj_set_def map_of_insert_index map_add_def fun_eq_iff split: option.splits)
qed

lemma keys_obj_set:
  "fst ` set (obj_set k v ps) = (if k = proto_key then fst ` set ps else insert k (fst ` set ps))"
proof -
  have "fst ` set xs = dom (map_of xs)" for xs :: "'a jsobj" by (simp add: dom_map_of_conv_image_fst)
  then show ?thesis by (simp add: obj_set_lookup)
qed

lemma map_fst_update_mem:
  "k \<in> set (map fst ps) \<Longrightarrow> map fst (AList.update k v ps) = map fst ps"
  by (induction ps) auto

lemma insert_index_sorted:
  assumes "sorted_wrt key_before (map fst ps)" and "array_index k = Some i"
    and "k \<notin> fst ` set ps" and "\<forall>a \<in> fst ` set ps. array_index a \<noteq> Some i"
  shows "sorted_wrt key_before (map fst (insert_index i k v ps))"
  using assms
proof (induction ps)
  case Nil
  then show ?case by simp
next
  case (Cons p ps)
  show ?case
  proof (cases "array_index (fst p)")
    case None
    then have "\<forall>b \<in> set (map fst ps). array_index b = None"
      using Cons.prems(1) by (auto split: option.splits)
    with Cons.prems None show ?thesis by (auto split: option.splits)
  next
    case (Some j)
    show ?thesis
    proof (cases "j < i")
      case True
      with Cons Some show ?thesis by (auto simp: set_insert_index)
    next
      case False
      with Cons.prems Some have "i < j" by auto
      with Cons.prems Some False show ?thesis by (fastforce split: option.splits)
    qed
  qed
qed

text \<open>An array index has one spelling, so two keys with the same index are equal.\<close>

lemma digits_of_value:
  "ds \<noteq> [] \<Longrightarrow> \<forall>d \<in> set ds. d < 10 \<Longrightarrow> hd ds \<noteq> 0 \<or> tl ds = [] \<Longrightarrow> digits (digits_value ds) = ds"
proof (induction ds rule: rev_induct)
  case Nil
  then show ?case by simp
next
  case (snoc d ds)
  show ?case
  proof (cases "ds = []")
    case True
    with snoc.prems show ?thesis by (simp add: digits_value_def)
  next
    case False
    with snoc.prems have "hd ds \<noteq> 0" by auto
    with False snoc have ih: "digits (digits_value ds) = ds" by auto
    have "digits_value ds \<noteq> 0"
    proof
      assume "digits_value ds = 0"
      with ih have "ds = [0]" by simp
      with \<open>hd ds \<noteq> 0\<close> show False by simp
    qed
    then have "10 \<le> 10 * digits_value ds + d" by simp
    with snoc.prems ih show ?thesis by (simp add: digits_ge)
  qed
qed

lemma digit_cu_of_unat: "is_digit c \<Longrightarrow> digit_cu (unat c - 48) = c"
proof -
  assume "is_digit c"
  then have "48 \<le> unat c" by (simp add: is_digit_def word_le_nat_alt)
  then have "48 + (unat c - 48) = unat c" by simp
  then show ?thesis by (simp only: digit_cu_def) simp
qed

lemma array_index_SomeD:
  assumes "array_index k = Some i"
  shows "k = nat_to_js i"
proof -
  let ?ds = "map (\<lambda>c. unat c - 48) k"
  have k: "k \<noteq> []" "list_all is_digit k" "hd k \<noteq> cu CHR ''0'' \<or> tl k = []" "i = digits_value ?ds"
    using assms by (auto simp: array_index_def Let_def split: if_splits)
  have small: "\<forall>d \<in> set ?ds. d < 10"
    using k(2) by (auto simp: list_all_iff is_digit_def word_le_nat_alt)
  have "hd ?ds \<noteq> 0 \<or> tl ?ds = []"
  proof (cases "tl k = []")
    case True
    then show ?thesis by (simp add: map_tl [symmetric])
  next
    case False
    with k(1,2) have "is_digit (hd k)" by (cases k) auto
    then have "digit_cu (unat (hd k) - 48) = hd k" by (rule digit_cu_of_unat)
    moreover have "digit_cu 0 = cu CHR ''0''" by (simp add: digit_cu_def cu_def)
    ultimately have "unat (hd k) - 48 \<noteq> 0" using k(3) False by metis
    with k(1) show ?thesis by (simp add: hd_map)
  qed
  with small k(1) have "digits i = ?ds" unfolding k(4) by (intro digits_of_value) auto
  moreover have "map digit_cu ?ds = k"
    using k(2) by (simp add: map_idI digit_cu_of_unat list_all_iff)
  ultimately show ?thesis by (simp add: nat_to_js_def)
qed

lemma array_index_inj: "array_index a = Some i \<Longrightarrow> array_index b = Some i \<Longrightarrow> a = b"
  by (auto dest: array_index_SomeD)

lemma sorted_snoc_None:
  "sorted_wrt key_before ks \<Longrightarrow> k \<notin> set ks \<Longrightarrow> array_index k = None \<Longrightarrow> sorted_wrt key_before (ks @ [k])"
  by (auto simp: sorted_wrt_append split: option.splits)

lemma obj_ok_set:
  assumes "obj_ok ps"
  shows "obj_ok (obj_set k v ps)"
proof (cases "k = proto_key \<or> k \<in> set (map fst ps)")
  case True
  then show ?thesis
    using assms
    by (auto simp only: obj_set_def obj_ok_def map_fst_update_mem if_True if_False split: if_splits)
next
  case False
  then have "sorted_wrt key_before (map fst (obj_set k v ps))"
    using assms
    by (cases "array_index k")
      (auto simp: obj_set_def obj_ok_def simp del: key_before.simps
        intro!: sorted_snoc_None insert_index_sorted dest: array_index_inj)
  moreover have "proto_key \<notin> fst ` set (obj_set k v ps)"
    using assms False by (auto simp: keys_obj_set obj_ok_def)
  ultimately show ?thesis by (simp add: obj_ok_def)
qed

lemma obj_ok_assign: "obj_ok ps \<Longrightarrow> obj_ok (obj_assign ps src)"
  unfolding obj_assign_def by (induction src arbitrary: ps) (auto simp: obj_ok_set)

section \<open>Rebuilding an object from its entries\<close>

lemma insert_index_last:
  "\<forall>p \<in> set ps. \<exists>j < i. array_index (fst p) = Some j \<Longrightarrow> insert_index i k v ps = ps @ [(k, v)]"
  by (induction ps) auto

lemma obj_set_last:
  assumes "obj_ok (ps @ [(k, v)])"
  shows "obj_set k v ps = ps @ [(k, v)]"
proof -
  from assms have kb: "\<forall>a \<in> fst ` set ps. key_before a k" and np: "k \<noteq> proto_key"
    by (auto simp: obj_ok_def sorted_wrt_append simp del: key_before.simps)
  from kb have notin: "k \<notin> fst ` set ps" using key_before_irrefl by blast
  show ?thesis
  proof (cases "array_index k")
    case None
    with np notin show ?thesis by (simp add: obj_set_def)
  next
    case (Some i)
    with kb have "\<forall>p \<in> set ps. \<exists>j < i. array_index (fst p) = Some j"
      by (fastforce split: option.splits)
    with np notin Some show ?thesis by (simp add: obj_set_def insert_index_last)
  qed
qed

lemma obj_ok_prefix: "obj_ok (ps @ qs) \<Longrightarrow> obj_ok ps"
  by (auto simp: obj_ok_def sorted_wrt_append simp del: key_before.simps)

lemma obj_assign_rebuild: "obj_ok ps \<Longrightarrow> obj_assign [] ps = ps"
proof (induction ps rule: rev_induct)
  case Nil
  then show ?case by (simp add: obj_assign_def)
next
  case (snoc p ps)
  then have "obj_assign [] ps = ps" by (blast dest: obj_ok_prefix)
  with snoc.prems show ?case
    by (cases p) (simp add: obj_assign_def obj_set_last)
qed

end
