(* ===== verification/Node.thy ===== *)
theory Node
  imports Js_Object
begin

text \<open>
  The protocol node tree and its builder (\<^verbatim>\<open>packages/wazeko-protocol/src/node.ts\<close>):
  \<open>node\<close> is \<^verbatim>\<open>ProtocolNode\<close>, \<open>node_content\<close> is \<^verbatim>\<open>NodeContent\<close>, \<open>node_builder\<close> the
  builder's private fields, each builder method a function from builder to builder.
  The results are that the builder only makes nodes whose attributes are a well-shaped
  object, and what it looks up.
\<close>

type_synonym node_attrs = "jstr jsobj"

datatype node_content = CNull | CUndefined | CBytes bytes | CNodes "node list"
and node = Node (tag: jstr) (attrs: node_attrs) (content: node_content)

record node_builder =
  b_tag :: jstr
  b_attrs :: node_attrs
  b_content :: node_content

definition create :: "jstr \<Rightarrow> node_builder" where
  "create t = \<lparr>b_tag = t, b_attrs = [], b_content = CUndefined\<rparr>"

definition attr :: "jstr \<Rightarrow> jstr \<Rightarrow> node_builder \<Rightarrow> node_builder" where
  "attr k v b = b\<lparr>b_attrs := obj_set k v (b_attrs b)\<rparr>"

definition add_attrs :: "node_attrs \<Rightarrow> node_builder \<Rightarrow> node_builder" where
  "add_attrs as b = b\<lparr>b_attrs := obj_assign (b_attrs b) as\<rparr>"

definition content_bytes :: "bytes \<Rightarrow> node_builder \<Rightarrow> node_builder" where
  "content_bytes bs b = b\<lparr>b_content := CBytes bs\<rparr>"

definition content_nodes :: "node list \<Rightarrow> node_builder \<Rightarrow> node_builder" where
  "content_nodes ns b = b\<lparr>b_content := CNodes ns\<rparr>"

definition build :: "node_builder \<Rightarrow> node" where
  "build b = Node (b_tag b) (b_attrs b) (b_content b)"

definition get_child_node :: "node \<Rightarrow> jstr \<Rightarrow> node option" where
  "get_child_node n t =
     (case content n of CNodes ns \<Rightarrow> find (\<lambda>c. tag c = t) ns | _ \<Rightarrow> None)"

definition get_children_nodes :: "node \<Rightarrow> jstr \<Rightarrow> node list" where
  "get_children_nodes n t =
     (case content n of CNodes ns \<Rightarrow> filter (\<lambda>c. tag c = t) ns | _ \<Rightarrow> [])"

lemmas builder_defs = create_def attr_def add_attrs_def content_bytes_def content_nodes_def build_def

section \<open>Shape, depth and normal form of a tree\<close>

text \<open>Number of nodes on the longest path down.\<close>

fun node_depth :: "node \<Rightarrow> nat" where
  "node_depth (Node t as c) =
     (case c of CNodes ns \<Rightarrow> Suc (foldr (\<lambda>n m. max (node_depth n) m) ns 0) | _ \<Rightarrow> 1)"

text \<open>\<^verbatim>\<open>null\<close> and \<^verbatim>\<open>undefined\<close> both mean no content; decoding gives \<^verbatim>\<open>undefined\<close>.\<close>

fun normal :: "node \<Rightarrow> node" where
  "normal (Node t as c) =
     Node t as (case c of CNodes ns \<Rightarrow> CNodes (map normal ns) | CNull \<Rightarrow> CUndefined | _ \<Rightarrow> c)"

text \<open>
  What both coders of the platform leave alone: strings without lone surrogates and
  leading byte order mark, attributes with the shape of an object, byte contents whose
  length is a positive 32-bit integer.
\<close>

fun node_ok :: "node \<Rightarrow> bool" where
  "node_ok (Node t as c) =
     (codable t \<and> obj_ok as \<and> list_all (\<lambda>(k, v). codable k \<and> codable v) as \<and>
      (case c of CBytes bs \<Rightarrow> length bs < 2 ^ 31 | CNodes ns \<Rightarrow> list_all node_ok ns | _ \<Rightarrow> True))"

lemma node_depth_pos: "0 < node_depth n"
  by (cases n) (auto split: node_content.splits)

lemma foldr_max_le: "foldr (\<lambda>n m. max (f n) m) ns 0 \<le> (k :: nat) \<longleftrightarrow> (\<forall>n \<in> set ns. f n \<le> k)"
  by (induction ns) auto

lemma node_depth_children:
  "node_depth (Node t as (CNodes ns)) \<le> Suc k \<longleftrightarrow> (\<forall>n \<in> set ns. node_depth n \<le> k)"
  by (simp add: foldr_max_le)

section \<open>The builder\<close>

text \<open>The attributes under construction always have the shape of an object.\<close>

definition builder_ok :: "node_builder \<Rightarrow> bool" where
  "builder_ok b = obj_ok (b_attrs b)"

lemma builder_ok_steps:
  "builder_ok (create t)"
  "builder_ok b \<Longrightarrow> builder_ok (attr k v b)"
  "builder_ok b \<Longrightarrow> builder_ok (add_attrs as b)"
  "builder_ok b \<Longrightarrow> builder_ok (content_bytes bs b)"
  "builder_ok b \<Longrightarrow> builder_ok (content_nodes ns b)"
  by (simp_all add: builder_ok_def builder_defs obj_ok_set obj_ok_assign)

lemma attr_lookup:
  "map_of (attrs (build (attr k v b))) =
     (if k = proto_key then map_of (attrs (build b)) else (map_of (attrs (build b)))(k \<mapsto> v))"
  by (simp add: builder_defs obj_set_lookup)

lemma get_child_node_hd:
  "get_child_node n t = (case get_children_nodes n t of [] \<Rightarrow> None | c # cs \<Rightarrow> Some c)"
proof -
  have "find P ns = (case filter P ns of [] \<Rightarrow> None | c # cs \<Rightarrow> Some c)" for P and ns :: "node list"
    by (induction ns) auto
  then show ?thesis
    by (auto simp: get_child_node_def get_children_nodes_def split: node_content.splits)
qed

end
