(* ===== verification/Tokens.thy ===== *)
theory Tokens
  imports Js_String
begin

text \<open>
  The single-byte token dictionary (\<^verbatim>\<open>packages/wazeko-protocol/src/tokens.ts\<close>): the table,
  the reverse map built from it at module load, and the two lookups. The empty string at
  index 0 has no reverse entry.
\<close>

definition token_names :: "string list" where
  "token_names =
     ['''', ''xmlstreamstart'', ''xmlstreamend'', ''s.whatsapp.net'', ''type'', ''participant'',
      ''from'', ''receipt'', ''to'', ''ribbon'', ''status_elapsed'', ''napi_version'', ''notify'',
      ''messages'', ''chat'', ''subject'', ''action'', ''presence'', ''response'', ''resume'',
      ''status'', ''set'', ''value'', ''get'', ''item'', ''preview'', ''w'', ''media'', ''read'',
      ''message'', ''pkmsg'', ''msg'', ''raw'', ''query'', ''body'', ''result'', ''media_type'',
      ''enc'', ''enc_v2'', ''notification'', ''ack'', ''call'', ''relay'', ''ib'', ''edge'',
      ''login'', ''iq'', ''ping'', ''pin'', ''pong'', ''config'', ''user'', ''group'', ''account'',
      ''auth'', ''success'', ''failure'']"

definition SINGLE_BYTE_TOKENS :: "jstr list" where
  "SINGLE_BYTE_TOKENS = map js token_names"

definition index_tokens :: "jstr list \<Rightarrow> (jstr, nat) jsmap" where
  "index_tokens ts =
     foldl (\<lambda>m (index, token). if token = [] then m else AList.update token index m)
       [] (enumerate 0 ts)"

definition token_to_index_map :: "(jstr, nat) jsmap" where
  "token_to_index_map = index_tokens SINGLE_BYTE_TOKENS"

text \<open>An index outside the table, or \<^verbatim>\<open>undefined\<close>, gives \<^verbatim>\<open>undefined\<close>.\<close>

definition get_token :: "nat option \<Rightarrow> jstr option" where
  "get_token index =
     (case index of
        Some i \<Rightarrow> if i < length SINGLE_BYTE_TOKENS then Some (SINGLE_BYTE_TOKENS ! i) else None
      | None \<Rightarrow> None)"

definition get_token_index :: "jstr \<Rightarrow> nat option" where
  "get_token_index token = map_of token_to_index_map token"

lemma index_tokens_snoc:
  "index_tokens (ts @ [t]) =
     (if t = [] then index_tokens ts else AList.update t (length ts) (index_tokens ts))"
  by (simp add: index_tokens_def enumerate_append_eq)

lemma index_tokens_sound:
  "map_of (index_tokens ts) t = Some i \<Longrightarrow> i < length ts \<and> ts ! i = t \<and> t \<noteq> []"
proof (induction ts rule: rev_induct)
  case Nil
  then show ?case by (simp add: index_tokens_def)
next
  case (snoc u ts)
  then show ?case by (auto simp: index_tokens_snoc nth_append split: if_splits)
qed

lemma index_tokens_complete:
  "distinct ts \<Longrightarrow> i < length ts \<Longrightarrow> ts ! i \<noteq> [] \<Longrightarrow> map_of (index_tokens ts) (ts ! i) = Some i"
proof (induction ts rule: rev_induct)
  case Nil
  then show ?case by simp
next
  case (snoc u ts)
  then show ?case
    by (auto simp: index_tokens_snoc nth_append less_Suc_eq nth_mem)
qed

lemma length_tokens: "length SINGLE_BYTE_TOKENS = 57"
  by (simp add: SINGLE_BYTE_TOKENS_def token_names_def)

lemma distinct_tokens: "distinct SINGLE_BYTE_TOKENS"
proof -
  have "distinct token_names" by (simp add: token_names_def)
  then show ?thesis unfolding SINGLE_BYTE_TOKENS_def by (simp add: distinct_map inj_on_def)
qed

text \<open>What the codec relies on: an index fits one byte and the table gives the token back.\<close>

lemma get_token_index_SomeD:
  "get_token_index t = Some i \<Longrightarrow> i < 57 \<and> get_token (Some i) = Some t"
  using index_tokens_sound [of SINGLE_BYTE_TOKENS t i]
  by (simp add: get_token_index_def token_to_index_map_def get_token_def length_tokens)

lemma get_token_index_get_token:
  "get_token (Some i) = Some t \<Longrightarrow> get_token_index t = (if t = [] then None else Some i)"
  using index_tokens_complete [OF distinct_tokens, of i]
    index_tokens_sound [of SINGLE_BYTE_TOKENS "[]"]
  by (fastforce simp: get_token_index_def token_to_index_map_def get_token_def split: if_splits)

text \<open>Looking a literal up compares characters: evaluation of closed terms goes through this.\<close>

lemma map_of_zip_js: "map_of (zip (map js ts) is) (js t) = map_of (zip ts is) t"
proof (induction ts arbitrary: "is")
  case Nil
  then show ?case by simp
next
  case (Cons u ts)
  then show ?case by (cases "is") auto
qed

lemma index_tokens_zip:
  assumes "distinct ts"
  shows "map_of (index_tokens ts) t = (if t = [] then None else map_of (zip ts [0..<length ts]) t)"
proof (cases "t \<noteq> [] \<and> t \<in> set ts")
  case True
  then obtain i where i: "i < length ts" "ts ! i = t" by (auto simp: in_set_conv_nth)
  then have "map_of (zip ts [0..<length ts]) (ts ! i) = Some ([0..<length ts] ! i)"
    using assms by (intro map_of_zip_nth) auto
  with i True index_tokens_complete [OF assms i(1)] show ?thesis by simp
next
  case False
  then have "map_of (index_tokens ts) t = None"
    using index_tokens_sound [of ts t] by (cases "map_of (index_tokens ts) t") auto
  moreover have "t \<noteq> [] \<Longrightarrow> map_of (zip ts [0..<length ts]) t = None"
    using False by (auto simp: map_of_zip_is_None)
  ultimately show ?thesis by metis
qed

lemma get_token_index_js:
  "get_token_index (js t) = (if t = [] then None else map_of (zip token_names [0..<57]) t)"
  using index_tokens_zip [OF distinct_tokens, of "js t"]
  by (simp add: get_token_index_def token_to_index_map_def length_tokens)
    (simp add: SINGLE_BYTE_TOKENS_def map_of_zip_js)

lemmas token_eval = get_token_index_js token_names_def upt_rec

end
