(* ===== verification/Js_Int32.thy ===== *)
theory Js_Int32
  imports Prelude
begin

text \<open>
  JavaScript's bit operators work on signed 32-bit integers: both operands are reduced
  modulo $2^{32}$, and the result is read as two's complement. This theory has the two
  idioms of the codec: taking one byte out of a length, \<^verbatim>\<open>(n >> k) & 0xff\<close>, and putting
  bytes together, \<^verbatim>\<open>(b[0] << 8) | b[1]\<close>. An absent byte is \<^verbatim>\<open>undefined\<close>, which the
  operators read as 0.
\<close>

definition byte_of :: "nat \<Rightarrow> nat \<Rightarrow> byte" where
  "byte_of k n = ucast (signed_drop_bit k (word_of_nat n :: 32 word) AND 0xFF)"

definition int32_of :: "byte option \<Rightarrow> 32 word" where
  "int32_of b = (case b of None \<Rightarrow> 0 | Some x \<Rightarrow> ucast x)"

definition be16 :: "byte option \<Rightarrow> byte option \<Rightarrow> int" where
  "be16 b0 b1 = sint (push_bit 8 (int32_of b0) OR int32_of b1)"

definition be32 :: "byte option \<Rightarrow> byte option \<Rightarrow> byte option \<Rightarrow> byte option \<Rightarrow> int" where
  "be32 b0 b1 b2 b3 =
     sint (push_bit 24 (int32_of b0) OR push_bit 16 (int32_of b1) OR push_bit 8 (int32_of b2)
       OR int32_of b3)"

lemma bit_byte_of:
  "k \<le> 24 \<Longrightarrow> bit (byte_of k n) j \<longleftrightarrow> j < 8 \<and> bit n (k + j)"
proof -
  assume k: "k \<le> 24"
  have "byte_of k n = ucast (signed_drop_bit k (word_of_nat n :: 32 word) AND mask 8)"
    by (simp add: byte_of_def mask_eq_exp_minus_1)
  with k show ?thesis by (auto simp: bit_simps)
qed

lemma byte_of_eq: "k \<le> 24 \<Longrightarrow> byte_of k n = word_of_nat (n div 2 ^ k)"
  by (rule bit_word_eqI) (simp add: bit_byte_of bit_simps flip: drop_bit_eq_div)

lemma be16_word:
  assumes "n < 2 ^ 16"
  shows "push_bit 8 (ucast (byte_of 8 n)) OR ucast (byte_of 0 n) = (word_of_nat n :: 32 word)"
proof (rule bit_word_eqI)
  fix j
  assume "j < LENGTH(32)"
  have "\<not> bit n j" if "16 \<le> j"
    using assms that by (metis bit_take_bit_iff not_less take_bit_nat_eq_self)
  then show "bit (push_bit 8 (ucast (byte_of 8 n)) OR ucast (byte_of 0 n) :: 32 word) j
      = bit (word_of_nat n :: 32 word) j"
    using \<open>j < LENGTH(32)\<close>
    by (cases "j < 8"; cases "j < 16") (auto simp: bit_simps bit_byte_of not_less)
qed

lemma be32_word:
  assumes "n < 2 ^ 32"
  shows "push_bit 24 (ucast (byte_of 24 n)) OR push_bit 16 (ucast (byte_of 16 n))
      OR push_bit 8 (ucast (byte_of 8 n)) OR ucast (byte_of 0 n) = (word_of_nat n :: 32 word)"
proof (rule bit_word_eqI)
  fix j
  assume "j < LENGTH(32)"
  then show "bit (push_bit 24 (ucast (byte_of 24 n)) OR push_bit 16 (ucast (byte_of 16 n))
      OR push_bit 8 (ucast (byte_of 8 n)) OR ucast (byte_of 0 n) :: 32 word) j
      = bit (word_of_nat n :: 32 word) j"
    by (cases "j < 8"; cases "j < 16"; cases "j < 24") (auto simp: bit_simps bit_byte_of not_less)
qed

lemma sint_of_nat: "n < 2 ^ 31 \<Longrightarrow> sint (word_of_nat n :: 32 word) = int n"
  by (simp add: signed_of_nat signed_take_bit_int_eq_self)

lemma be16_bytes: "n < 2 ^ 16 \<Longrightarrow> be16 (Some (byte_of 8 n)) (Some (byte_of 0 n)) = int n"
  by (simp add: be16_def int32_of_def be16_word sint_of_nat)

lemma be32_bytes:
  "n < 2 ^ 31 \<Longrightarrow>
    be32 (Some (byte_of 24 n)) (Some (byte_of 16 n)) (Some (byte_of 8 n)) (Some (byte_of 0 n)) = int n"
  by (simp add: be32_def int32_of_def be32_word sint_of_nat)

text \<open>Two bytes never give a negative number; four bytes do from a leading byte of 0x80 on.\<close>

lemma be16_bounds: "0 \<le> be16 b0 b1 \<and> be16 b0 b1 < 65536"
proof -
  define w where "w = push_bit 8 (int32_of b0) OR int32_of b1"
  have "bit w j \<Longrightarrow> j < 16" for j
    by (auto simp: w_def bit_simps int32_of_def split: option.splits dest: bit_imp_le_length)
  then have "take_bit 16 w = w" by (intro bit_word_eqI) (auto simp: bit_simps)
  then have w: "uint w < 2 ^ 16"
    by (metis take_bit_int_less_exp unsigned_take_bit_eq)
  moreover have "- (2 ^ 31) \<le> uint w" by (rule order_trans [OF _ uint_ge_0]) simp
  ultimately have "sint w = uint w"
    by (simp add: sint_uint signed_take_bit_int_eq_self)
  with w show ?thesis by (simp add: be16_def w_def)
qed

end
