(* ===== verification/Encoder.thy ===== *)
theory Encoder
  imports Node Tokens Js_Int32
begin

text \<open>
  The binary encoder (\<^verbatim>\<open>packages/wazeko-protocol/src/encoder.ts\<close>). The private \<^verbatim>\<open>buffer\<close> is
  the byte list each method takes and returns; a throw is \<^const>\<open>Inl\<close>. The results are that
  every method only appends, and exactly which nodes can be encoded.
\<close>

definition TAG_LIST_EMPTY :: byte where "TAG_LIST_EMPTY = 0x00"
definition TAG_LIST_8 :: byte where "TAG_LIST_8 = 0x01"
definition TAG_LIST_16 :: byte where "TAG_LIST_16 = 0x02"
definition TAG_BINARY_8 :: byte where "TAG_BINARY_8 = 0x03"
definition TAG_BINARY_32 :: byte where "TAG_BINARY_32 = 0x04"
definition TAG_STRING :: byte where "TAG_STRING = 0x05"
definition TAG_TOKEN :: byte where "TAG_TOKEN = 0x06"

lemmas tag_defs = TAG_LIST_EMPTY_def TAG_LIST_8_def TAG_LIST_16_def TAG_BINARY_8_def
  TAG_BINARY_32_def TAG_STRING_def TAG_TOKEN_def

datatype enc_error = ListSizeExceeds nat | StringLengthExceeds

definition write_list_header :: "nat \<Rightarrow> bytes \<Rightarrow> enc_error + bytes" where
  "write_list_header sz buf =
     (if sz = 0 then Inr (buf @ [TAG_LIST_EMPTY])
      else if sz < 256 then Inr (buf @ [TAG_LIST_8, word_of_nat sz])
      else if sz < 65536 then Inr (buf @ [TAG_LIST_16, byte_of 8 sz, byte_of 0 sz])
      else Inl (ListSizeExceeds sz))"

definition write_string :: "jstr \<Rightarrow> bytes \<Rightarrow> enc_error + bytes" where
  "write_string text buf =
     (let bs = text_encode text; len = length bs;
          plain = (if 65535 < len then Inl StringLengthExceeds
                   else Inr (buf @ [TAG_STRING, byte_of 8 len, byte_of 0 len] @ bs))
      in case get_token_index text of
           Some i \<Rightarrow> if i < 256 then Inr (buf @ [TAG_TOKEN, word_of_nat i]) else plain
         | None \<Rightarrow> plain)"

definition write_binary :: "bytes \<Rightarrow> bytes \<Rightarrow> bytes" where
  "write_binary bs buf =
     (let len = length bs
      in if len < 256 then buf @ [TAG_BINARY_8, word_of_nat len] @ bs
         else buf @ [TAG_BINARY_32, byte_of 24 len, byte_of 16 len, byte_of 8 len, byte_of 0 len] @ bs)"

fun write_attr :: "jstr \<times> jstr \<Rightarrow> bytes \<Rightarrow> enc_error + bytes" where
  "write_attr (key, value) buf = bindE (write_string key buf) (write_string value)"

fun write_node :: "node \<Rightarrow> bytes \<Rightarrow> enc_error + bytes" where
  "write_node (Node t as c) buf =
     (let hasContent = (c \<noteq> CNull \<and> c \<noteq> CUndefined);
          listSize = 1 + length as * 2 + (if hasContent then 1 else 0)
      in bindE (write_list_header listSize buf) (\<lambda>buf.
         bindE (write_string t buf) (\<lambda>buf.
         bindE (foldE write_attr as buf) (\<lambda>buf.
           case c of
             CBytes bs \<Rightarrow> Inr (write_binary bs buf)
           | CNodes ns \<Rightarrow> bindE (write_list_header (length ns) buf) (foldE write_node ns)
           | CNull \<Rightarrow> Inr buf
           | CUndefined \<Rightarrow> Inr buf))))"

definition encode :: "node \<Rightarrow> enc_error + bytes" where
  "encode n = write_node n []"

section \<open>Every method appends to the buffer\<close>

text \<open>
  \<open>appends w\<close>: whether \<open>w\<close> throws, and what it adds, does not depend on the buffer.
\<close>

definition appends :: "(bytes \<Rightarrow> enc_error + bytes) \<Rightarrow> bool" where
  "appends w = (\<forall>buf. w buf = map_sum id ((@) buf) (w []))"

lemma appendsD: "appends w \<Longrightarrow> w buf = map_sum id ((@) buf) (w [])"
  unfolding appends_def by blast

lemma appendsI: "(\<And>buf. w buf = map_sum id ((@) buf) (w [])) \<Longrightarrow> appends w"
  unfolding appends_def by blast

lemma appends_InrE:
  assumes "appends w" and "w buf = Inr out"
  obtains bs where "w [] = Inr bs" and "out = buf @ bs"
  using assms appendsD [OF assms(1), of buf] by (cases "w []") auto

lemma appends_bind:
  assumes "appends w" and "appends v"
  shows "appends (\<lambda>buf. bindE (w buf) v)"
proof (rule appendsI)
  fix buf
  show "bindE (w buf) v = map_sum id ((@) buf) (bindE (w []) v)"
  proof (cases "w []")
    case (Inl e)
    then have "w buf = Inl e" using appendsD [OF assms(1), of buf] by simp
    with Inl show ?thesis by simp
  next
    case (Inr out)
    then have "w buf = Inr (buf @ out)" using appendsD [OF assms(1), of buf] by simp
    moreover have "v (buf @ out) = map_sum id ((@) buf) (v out)"
      using appendsD [OF assms(2), of "buf @ out"] appendsD [OF assms(2), of out]
      by (cases "v []") auto
    ultimately show ?thesis using Inr by simp
  qed
qed

lemma appends_Inr: "appends Inr"
  by (rule appendsI) simp

lemma appends_foldE: "(\<And>x. x \<in> set xs \<Longrightarrow> appends (f x)) \<Longrightarrow> appends (foldE f xs)"
proof (induction xs)
  case Nil
  have "foldE f [] = Inr" by (rule ext) simp
  then show ?case by (simp only: appends_Inr)
next
  case (Cons x xs)
  have "foldE f (x # xs) = (\<lambda>buf. bindE (f x buf) (foldE f xs))" by (rule ext) simp
  with Cons show ?case by (simp only: appends_bind list.set_intros)
qed

lemma appends_write_list_header [intro]: "appends (write_list_header n)"
  by (rule appendsI) (simp add: write_list_header_def)

lemma appends_write_string [intro]: "appends (write_string t)"
  by (rule appendsI) (simp add: write_string_def Let_def split: option.split)

lemma appends_write_binary [intro]: "appends (\<lambda>buf. Inr (write_binary bs buf))"
  by (rule appendsI) (simp add: write_binary_def Let_def)

lemma appends_write_attr [intro]: "appends (write_attr kv)"
proof (cases kv)
  case (Pair k v)
  have eq: "write_attr (k, v) = (\<lambda>buf. bindE (write_string k buf) (write_string v))"
    by (rule ext) simp
  show ?thesis
    unfolding Pair eq by (intro appends_bind appends_write_string)
qed

text \<open>The content part of \<open>write_node\<close>, and \<open>write_node\<close> as a chain of writers.\<close>

definition write_content :: "node_content \<Rightarrow> bytes \<Rightarrow> enc_error + bytes" where
  "write_content c buf =
     (case c of
        CBytes bs \<Rightarrow> Inr (write_binary bs buf)
      | CNodes ns \<Rightarrow> bindE (write_list_header (length ns) buf) (foldE write_node ns)
      | CNull \<Rightarrow> Inr buf
      | CUndefined \<Rightarrow> Inr buf)"

lemma write_node_chain:
  "write_node (Node t as c) = (\<lambda>buf. bindE (write_list_header
      (1 + length as * 2 + (if c \<noteq> CNull \<and> c \<noteq> CUndefined then 1 else 0)) buf)
      (\<lambda>buf. bindE (write_string t buf) (\<lambda>buf. bindE (foldE write_attr as buf) (write_content c))))"
  by (rule ext) (simp only: write_node.simps Let_def write_content_def [abs_def])

lemma appends_write_attrs: "appends (foldE write_attr as)"
  by (rule appends_foldE) (rule appends_write_attr)

lemma write_content_simps:
  "write_content (CNodes ns) = (\<lambda>buf. bindE (write_list_header (length ns) buf) (foldE write_node ns))"
  "write_content (CBytes bs) = (\<lambda>buf. Inr (write_binary bs buf))"
  "write_content CNull = Inr" "write_content CUndefined = Inr"
  by (rule ext; simp add: write_content_def)+

lemma appends_write_content_children:
  "(\<And>ns n. c = CNodes ns \<Longrightarrow> n \<in> set ns \<Longrightarrow> appends (write_node n)) \<Longrightarrow> appends (write_content c)"
  by (cases c) (simp_all only: write_content_simps appends_Inr appends_write_binary appends_bind
      appends_write_list_header appends_foldE)

lemma appends_write_node: "appends (write_node n)"
proof (induction n rule: node_ok.induct)
  case (1 t as c)
  then have "appends (write_content c)" by (intro appends_write_content_children) auto
  then show ?case
    unfolding write_node_chain
    by (intro appends_bind appends_write_list_header appends_write_string appends_write_attrs)
qed

lemma appends_write_content: "appends (write_content c)"
  by (rule appends_write_content_children) (rule appends_write_node)

lemma encode_write_node: "write_node n buf = map_sum id ((@) buf) (encode n)"
  unfolding encode_def by (rule appendsD [OF appends_write_node])

text \<open>The four parts of an encoded node.\<close>

lemma write_node_InrE:
  assumes "write_node (Node t as c) [] = Inr bs"
  obtains h bt ba bc where
    "write_list_header (1 + length as * 2 + (if c \<noteq> CNull \<and> c \<noteq> CUndefined then 1 else 0)) [] = Inr h"
    and "write_string t [] = Inr bt" and "foldE write_attr as [] = Inr ba"
    and "write_content c [] = Inr bc" and "bs = h @ bt @ ba @ bc"
proof -
  from assms obtain h x y where w: "write_list_header
      (1 + length as * 2 + (if c \<noteq> CNull \<and> c \<noteq> CUndefined then 1 else 0)) [] = Inr h"
    "write_string t h = Inr x" "foldE write_attr as x = Inr y" "write_content c y = Inr bs"
    unfolding write_node_chain by (auto simp only: bind_simps)
  obtain bt where "write_string t [] = Inr bt" "x = h @ bt"
    using appends_write_string w(2) by (rule appends_InrE)
  moreover obtain ba where "foldE write_attr as [] = Inr ba" "y = x @ ba"
    using appends_write_attrs w(3) by (rule appends_InrE)
  moreover obtain bc where "write_content c [] = Inr bc" "bs = y @ bc"
    using appends_write_content w(4) by (rule appends_InrE)
  ultimately show ?thesis using that w(1) by simp
qed

section \<open>Which nodes can be encoded\<close>

text \<open>
  The format's limits: the number of list elements of a node, the number of children and
  the UTF-8 length of every string outside the token table must fit 16 bits.
\<close>

definition string_fits :: "jstr \<Rightarrow> bool" where
  "string_fits t = (get_token_index t \<noteq> None \<or> length (text_encode t) \<le> 65535)"

fun encodable :: "node \<Rightarrow> bool" where
  "encodable (Node t as c) =
     (1 + length as * 2 + (if c \<noteq> CNull \<and> c \<noteq> CUndefined then 1 else 0) < 65536 \<and> string_fits t \<and>
      list_all (\<lambda>(k, v). string_fits k \<and> string_fits v) as \<and>
      (case c of CNodes ns \<Rightarrow> length ns < 65536 \<and> list_all encodable ns | _ \<Rightarrow> True))"

definition succeeds :: "(bytes \<Rightarrow> enc_error + bytes) \<Rightarrow> bool" where
  "succeeds w = (\<exists>out. w [] = Inr out)"

lemma succeeds_any: "appends w \<Longrightarrow> (\<exists>out. w buf = Inr out) \<longleftrightarrow> succeeds w"
  using appendsD [of w buf] by (cases "w []") (auto simp: succeeds_def)

lemma succeeds_bind:
  assumes "appends w" and "appends v"
  shows "succeeds (\<lambda>buf. bindE (w buf) v) \<longleftrightarrow> succeeds w \<and> succeeds v"
proof -
  have "succeeds (\<lambda>buf. bindE (w buf) v) \<longleftrightarrow> (\<exists>b. w [] = Inr b \<and> (\<exists>out. v b = Inr out))"
    by (auto simp: succeeds_def bind_simps)
  also have "\<dots> \<longleftrightarrow> succeeds w \<and> succeeds v"
    unfolding succeeds_any [OF assms(2)] by (auto simp: succeeds_def)
  finally show ?thesis .
qed

lemma succeeds_Inr: "succeeds Inr"
  by (simp add: succeeds_def)

lemma succeeds_foldE:
  "(\<And>x. x \<in> set xs \<Longrightarrow> appends (f x)) \<Longrightarrow> succeeds (foldE f xs) \<longleftrightarrow> (\<forall>x \<in> set xs. succeeds (f x))"
proof (induction xs)
  case Nil
  then show ?case by (simp add: succeeds_def)
next
  case (Cons x xs)
  have eq: "foldE f (x # xs) = (\<lambda>buf. bindE (f x buf) (foldE f xs))" by (rule ext) simp
  have "appends (foldE f xs)" using Cons.prems by (intro appends_foldE) simp
  then have "succeeds (foldE f (x # xs)) \<longleftrightarrow> succeeds (f x) \<and> succeeds (foldE f xs)"
    unfolding eq using Cons.prems by (intro succeeds_bind) simp_all
  with Cons show ?case by (simp del: foldE.simps)
qed

lemma succeeds_write_list_header: "succeeds (write_list_header n) \<longleftrightarrow> n < 65536"
  by (auto simp: succeeds_def write_list_header_def)

lemma succeeds_write_string: "succeeds (write_string t) \<longleftrightarrow> string_fits t"
  using get_token_index_SomeD [of t]
  by (auto simp: succeeds_def write_string_def string_fits_def Let_def split: option.splits)

lemma succeeds_write_attr: "succeeds (write_attr (k, v)) \<longleftrightarrow> string_fits k \<and> string_fits v"
proof -
  have eq: "write_attr (k, v) = (\<lambda>buf. bindE (write_string k buf) (write_string v))"
    by (rule ext) simp
  show ?thesis
    unfolding eq by (simp add: succeeds_bind appends_write_string succeeds_write_string)
qed

lemma succeeds_write_node_iff:
  "succeeds (write_node (Node t as c)) \<longleftrightarrow>
     1 + length as * 2 + (if c \<noteq> CNull \<and> c \<noteq> CUndefined then 1 else 0) < 65536 \<and> string_fits t \<and>
     list_all (\<lambda>(k, v). string_fits k \<and> string_fits v) as \<and> succeeds (write_content c)"
proof -
  have "succeeds (foldE write_attr as) \<longleftrightarrow> list_all (\<lambda>(k, v). string_fits k \<and> string_fits v) as"
    by (auto simp: succeeds_foldE appends_write_attr list_all_iff succeeds_write_attr)
  then show ?thesis
    unfolding write_node_chain
    by (simp only: succeeds_bind appends_bind appends_write_list_header appends_write_string
        appends_write_attrs appends_write_content succeeds_write_list_header succeeds_write_string)
qed

lemma succeeds_write_content:
  "succeeds (write_content c) \<longleftrightarrow>
     (case c of CNodes ns \<Rightarrow> length ns < 65536 \<and> (\<forall>n \<in> set ns. succeeds (write_node n)) | _ \<Rightarrow> True)"
  by (cases c) (simp_all add: write_content_simps succeeds_bind succeeds_foldE appends_write_node
      appends_foldE appends_write_list_header succeeds_write_list_header succeeds_Inr,
      simp add: succeeds_def)

lemma succeeds_write_node: "succeeds (write_node n) \<longleftrightarrow> encodable n"
proof (induction n rule: encodable.induct)
  case (1 t as c)
  then have "succeeds (write_content c) \<longleftrightarrow>
      (case c of CNodes ns \<Rightarrow> length ns < 65536 \<and> list_all encodable ns | _ \<Rightarrow> True)"
    by (cases c) (auto simp: succeeds_write_content list_all_iff)
  then show ?case by (simp only: succeeds_write_node_iff encodable.simps)
qed

text \<open>
  C33. The encoder returns on exactly the nodes within the limits of the format; on every
  other node one of its two errors is thrown.
\<close>

theorem encode_returns_iff: "(\<exists>bs. encode n = Inr bs) \<longleftrightarrow> encodable n"
  unfolding succeeds_write_node [symmetric] succeeds_def encode_def ..

end
