(* ===== verification/Decoder.thy ===== *)
theory Decoder
  imports Encoder
begin

text \<open>
  The binary decoder (\<^verbatim>\<open>packages/wazeko-protocol/src/decoder.ts\<close>): the buffer, the read
  position (an integer: it can become negative, see \<open>read_bytes\<close>), and one function per
  method. Reading an element at a negative position gives \<^verbatim>\<open>undefined\<close>, here \<^const>\<open>None\<close>.
  \<open>read_node s\<close> runs with room for \<open>s\<close> nested calls of \<^verbatim>\<open>readNode\<close> on the engine's call
  stack; where the code would need one more, the engine throws its RangeError, here
  \<open>StackOverflow\<close>. The results here are the frame facts of the readers, that a deeper
  stack never changes an answer, and how deep a stack is enough.
\<close>

record decoder =
  data :: bytes
  offset :: int

datatype dec_error =
    EofByte
  | EofSlice
  | EmptyNodeList
  | InvalidListTag byte
  | InvalidTokenIndex "byte option"
  | InvalidStringTag byte
  | InvalidBinaryTag byte
  | UndefinedTag
  | StackOverflow

type_synonym 'a reader = "decoder \<Rightarrow> dec_error + 'a \<times> decoder"

definition byte_at :: "bytes \<Rightarrow> int \<Rightarrow> byte option" where
  "byte_at bs i = (if 0 \<le> i \<and> i < int (length bs) then Some (bs ! nat i) else None)"

definition peek_byte :: "byte option reader" where
  "peek_byte d =
     (if int (length (data d)) \<le> offset d then Inl EofByte
      else Inr (byte_at (data d) (offset d), d))"

definition read_byte :: "byte option reader" where
  "read_byte d =
     (if int (length (data d)) \<le> offset d then Inl EofByte
      else Inr (byte_at (data d) (offset d), d\<lparr>offset := offset d + 1\<rparr>))"

definition read_bytes :: "int \<Rightarrow> bytes reader" where
  "read_bytes len d =
     (if int (length (data d)) < offset d + len then Inl EofSlice
      else Inr (subarray (data d) (offset d) (offset d + len), d\<lparr>offset := offset d + len\<rparr>))"

text \<open>The result \<^const>\<open>None\<close> is the \<^verbatim>\<open>undefined\<close> a short header byte gives.\<close>

definition read_list_size :: "nat option reader" where
  "read_list_size d =
     bindE (read_byte d) (\<lambda>(t, d).
       case t of
         None \<Rightarrow> Inl UndefinedTag
       | Some t \<Rightarrow>
           if t = TAG_LIST_EMPTY then Inr (Some 0, d)
           else if t = TAG_LIST_8 then
             bindE (read_byte d) (\<lambda>(b, d). Inr (map_option unat b, d))
           else if t = TAG_LIST_16 then
             bindE (read_bytes 2 d) (\<lambda>(b, d).
               Inr (Some (nat (be16 (byte_at b 0) (byte_at b 1))), d))
           else Inl (InvalidListTag t))"

definition read_string :: "jstr reader" where
  "read_string d =
     bindE (read_byte d) (\<lambda>(t, d).
       case t of
         None \<Rightarrow> Inl UndefinedTag
       | Some t \<Rightarrow>
           if t = TAG_TOKEN then
             bindE (read_byte d) (\<lambda>(i, d).
               case get_token (map_option unat i) of
                 None \<Rightarrow> Inl (InvalidTokenIndex i)
               | Some token \<Rightarrow> Inr (token, d))
           else if t = TAG_STRING then
             bindE (read_bytes 2 d) (\<lambda>(b, d).
               bindE (read_bytes (be16 (byte_at b 0) (byte_at b 1)) d) (\<lambda>(s, d).
                 Inr (text_decode s, d)))
           else Inl (InvalidStringTag t))"

text \<open>
  The length byte after a tag is never \<^verbatim>\<open>undefined\<close> (\<open>read_byte_twice\<close> below), so the value
  chosen for \<^const>\<open>None\<close> is never used.
\<close>

definition read_binary :: "bytes reader" where
  "read_binary d =
     bindE (read_byte d) (\<lambda>(t, d).
       case t of
         None \<Rightarrow> Inl UndefinedTag
       | Some t \<Rightarrow>
           if t = TAG_BINARY_8 then
             bindE (read_byte d) (\<lambda>(len, d). read_bytes (case len of None \<Rightarrow> 0 | Some x \<Rightarrow> uint x) d)
           else if t = TAG_BINARY_32 then
             bindE (read_bytes 4 d) (\<lambda>(b, d).
               read_bytes (be32 (byte_at b 0) (byte_at b 1) (byte_at b 2) (byte_at b 3)) d)
           else Inl (InvalidBinaryTag t))"

text \<open>\<^verbatim>\<open>readContent\<close>, with the reader for child nodes as an argument.\<close>

definition read_content :: "node reader \<Rightarrow> node_content reader" where
  "read_content read_child d =
     (if int (length (data d)) \<le> offset d then Inr (CUndefined, d)
      else bindE (peek_byte d) (\<lambda>(t, d).
        if t = Some TAG_LIST_EMPTY \<or> t = Some TAG_LIST_8 \<or> t = Some TAG_LIST_16 then
          bindE (read_list_size d) (\<lambda>(count, d).
            bindE (repeatE (case count of None \<Rightarrow> 0 | Some k \<Rightarrow> k) read_child d) (\<lambda>(ns, d).
              Inr (CNodes ns, d)))
        else if t = Some TAG_BINARY_8 \<or> t = Some TAG_BINARY_32 then
          bindE (read_binary d) (\<lambda>(bs, d). Inr (CBytes bs, d))
        else bindE (read_string d) (\<lambda>(s, d). Inr (CBytes (text_encode s), d))))"

text \<open>The attribute loop of \<^verbatim>\<open>readNode\<close>.\<close>

fun read_attrs :: "nat \<Rightarrow> node_attrs \<Rightarrow> node_attrs reader" where
  "read_attrs 0 as d = Inr (as, d)"
| "read_attrs (Suc i) as d =
     bindE (read_string d) (\<lambda>(key, d).
     bindE (read_string d) (\<lambda>(val, d).
       read_attrs i (obj_set key val as) d))"

fun read_node :: "nat \<Rightarrow> node reader" where
  "read_node 0 d = Inl StackOverflow"
| "read_node (Suc s) d =
     bindE (read_list_size d) (\<lambda>(listSize, d).
       if listSize = Some 0 then Inl EmptyNodeList
       else bindE (read_string d) (\<lambda>(t, d).
         let numAttrs = (case listSize of None \<Rightarrow> 0 | Some n \<Rightarrow> (n - 1) div 2);
             hasContent = (case listSize of None \<Rightarrow> False | Some n \<Rightarrow> (n - 1) mod 2 = 1)
         in bindE (read_attrs numAttrs [] d) (\<lambda>(as, d).
              if hasContent then
                bindE (read_content (read_node s) d) (\<lambda>(c, d). Inr (Node t as c, d))
              else Inr (Node t as CUndefined, d))))"

definition decode :: "nat \<Rightarrow> bytes \<Rightarrow> dec_error + node" where
  "decode s bs = map_sum id fst (read_node s \<lparr>data = bs, offset = 0\<rparr>)"

section \<open>Positions\<close>

text \<open>A byte that was there puts the position after it, so the next byte is there too.\<close>

lemma read_byte_Some:
  "read_byte d = Inr (Some b, d') \<Longrightarrow>
     data d' = data d \<and> offset d' = offset d + 1 \<and> 0 \<le> offset d \<and> offset d < int (length (data d))
     \<and> b = data d ! nat (offset d)"
  by (auto simp: read_byte_def byte_at_def split: if_splits)

lemma read_byte_twice:
  "read_byte d = Inr (Some b, d') \<Longrightarrow> read_byte d' = Inr (c, d'') \<Longrightarrow> c \<noteq> None"
  by (auto simp: read_byte_def byte_at_def split: if_splits)

text \<open>A reader keeps the buffer and only moves the position.\<close>

definition keeps_data :: "'a reader \<Rightarrow> bool" where
  "keeps_data r = (\<forall>d x d'. r d = Inr (x, d') \<longrightarrow> data d' = data d)"

lemma keeps_dataD: "keeps_data r \<Longrightarrow> r d = Inr (x, d') \<Longrightarrow> data d' = data d"
  by (auto simp: keeps_data_def)

lemma keeps_data_leaf:
  "keeps_data read_byte" "keeps_data peek_byte" "keeps_data (read_bytes n)"
  by (auto simp: keeps_data_def read_byte_def peek_byte_def read_bytes_def split: if_splits)

lemma keeps_data_end:
  "keeps_data (\<lambda>d. Inr (x, d))" "keeps_data (\<lambda>d. Inl e)"
  by (auto simp: keeps_data_def)

lemma keeps_data_bind:
  "keeps_data r \<Longrightarrow> (\<And>x. keeps_data (f x)) \<Longrightarrow> keeps_data (\<lambda>d. bindE (r d) (\<lambda>(x, d). f x d))"
  unfolding keeps_data_def by (fastforce simp: bind_simps)

lemma keeps_data_if:
  "keeps_data r \<Longrightarrow> keeps_data r' \<Longrightarrow> keeps_data (\<lambda>d. if c d then r d else r' d)"
  by (auto simp: keeps_data_def)

lemma keeps_data_option:
  "keeps_data r \<Longrightarrow> (\<And>y. keeps_data (f y)) \<Longrightarrow>
    keeps_data (\<lambda>d. case z of None \<Rightarrow> r d | Some y \<Rightarrow> f y d)"
  by (cases z) auto

lemmas keeps_data_intros = keeps_data_bind keeps_data_if keeps_data_option keeps_data_end
  keeps_data_leaf

lemma keeps_data_composite:
  "keeps_data read_list_size" "keeps_data read_string" "keeps_data read_binary"
  unfolding read_list_size_def [abs_def] read_string_def [abs_def] read_binary_def [abs_def]
  by (intro keeps_data_intros)+

lemma keeps_data_repeatE: "keeps_data r \<Longrightarrow> keeps_data (repeatE n r)"
proof (induction n)
  case 0
  then show ?case by (simp add: keeps_data_def)
next
  case (Suc n)
  then show ?case unfolding repeatE_Suc by (intro keeps_data_intros)
qed

lemma keeps_data_read_attrs: "keeps_data (read_attrs n as)"
proof (induction n arbitrary: as)
  case 0
  then show ?case by (simp add: keeps_data_def)
next
  case (Suc n)
  have "read_attrs (Suc n) as = (\<lambda>d. bindE (read_string d) (\<lambda>(key, d). bindE (read_string d)
      (\<lambda>(val, d). read_attrs n (obj_set key val as) d)))"
    by (rule ext) simp
  then show ?case using Suc by (simp only:) (intro keeps_data_intros keeps_data_composite)
qed

lemma keeps_data_read_content: "keeps_data r \<Longrightarrow> keeps_data (read_content r)"
  unfolding read_content_def [abs_def]
  by (intro keeps_data_intros keeps_data_composite keeps_data_repeatE)

text \<open>One unfolding of \<open>read_node\<close>, as a function of the decoder.\<close>

lemma read_node_Suc:
  "read_node (Suc s) = (\<lambda>d. bindE (read_list_size d) (\<lambda>(n, d).
       if n = Some 0 then Inl EmptyNodeList
       else bindE (read_string d) (\<lambda>(t, d).
         bindE (read_attrs (case n of None \<Rightarrow> 0 | Some n \<Rightarrow> (n - 1) div 2) [] d) (\<lambda>(as, d).
           if case n of None \<Rightarrow> False | Some n \<Rightarrow> (n - 1) mod 2 = 1 then
             bindE (read_content (read_node s) d) (\<lambda>(c, d). Inr (Node t as c, d))
           else Inr (Node t as CUndefined, d)))))"
  by (rule ext) (simp only: read_node.simps Let_def)

lemma keeps_data_read_node: "keeps_data (read_node s)"
proof (induction s)
  case 0
  then show ?case by (simp add: keeps_data_def)
next
  case (Suc s)
  show ?case
    unfolding read_node_Suc
    by (intro keeps_data_intros keeps_data_composite keeps_data_read_attrs
        keeps_data_read_content Suc)
qed

section \<open>A deeper stack never changes an answer\<close>

text \<open>\<open>refines r r'\<close>: \<open>r'\<close> gives the same answer as \<open>r\<close> unless \<open>r\<close> ran out of stack.\<close>

definition refines :: "'a reader \<Rightarrow> 'a reader \<Rightarrow> bool" where
  "refines r r' = (\<forall>d. r d \<noteq> Inl StackOverflow \<longrightarrow> r' d = r d)"

lemma refinesD: "refines r r' \<Longrightarrow> r d \<noteq> Inl StackOverflow \<Longrightarrow> r' d = r d"
  unfolding refines_def by blast

lemma refines_refl: "refines r r"
  by (simp add: refines_def)

lemma refines_bind:
  assumes "refines r r'" and "\<And>x. refines (f x) (f' x)"
  shows "refines (\<lambda>d. bindE (r d) (\<lambda>(x, d). f x d)) (\<lambda>d. bindE (r' d) (\<lambda>(x, d). f' x d))"
  unfolding refines_def
proof (intro allI impI)
  fix d
  assume ok: "bindE (r d) (\<lambda>(x, d). f x d) \<noteq> Inl StackOverflow"
  then have r: "r' d = r d" using refinesD [OF assms(1), of d] by (cases "r d") auto
  show "bindE (r' d) (\<lambda>(x, d). f' x d) = bindE (r d) (\<lambda>(x, d). f x d)"
  proof (cases "r d")
    case (Inl e)
    then show ?thesis by (simp add: r)
  next
    case (Inr y)
    obtain x d1 where "y = (x, d1)" by (cases y)
    with ok Inr r refinesD [OF assms(2), of x d1] show ?thesis by simp
  qed
qed

lemma refines_if:
  "refines r1 r1' \<Longrightarrow> refines r2 r2' \<Longrightarrow>
    refines (\<lambda>d. if c d then r1 d else r2 d) (\<lambda>d. if c d then r1' d else r2' d)"
  by (auto simp: refines_def)

lemmas refines_intros = refines_bind refines_if refines_refl

lemma refines_repeatE: "refines r r' \<Longrightarrow> refines (repeatE n r) (repeatE n r')"
proof (induction n)
  case 0
  have "repeatE 0 r = repeatE 0 r'" by (rule ext) simp
  then show ?case by (simp only: refines_refl)
next
  case (Suc n)
  then show ?case unfolding repeatE_Suc by (intro refines_intros)
qed

lemma refines_read_content: "refines r r' \<Longrightarrow> refines (read_content r) (read_content r')"
  unfolding read_content_def [abs_def] by (intro refines_intros refines_repeatE)

lemma refines_read_node: "refines (read_node s) (read_node (Suc s))"
proof (induction s)
  case 0
  then show ?case by (simp add: refines_def)
next
  case (Suc s)
  show ?case
    by (subst (1 2) read_node_Suc) (intro refines_intros refines_read_content Suc)
qed

lemma read_node_deeper:
  assumes "read_node s d \<noteq> Inl StackOverflow" and "s \<le> s'"
  shows "read_node s' d = read_node s d"
  using assms(2)
proof (induction s' rule: dec_induct)
  case base
  show ?case by simp
next
  case (step k)
  then show ?case using refinesD [OF refines_read_node, of k d] assms(1) by simp
qed

end
