(* ===== verification/Codec.thy ===== *)
theory Codec
  imports Decoder
begin

text \<open>
  Encoder and decoder together. The interface between the two is the locale
  \<open>wire_format\<close>: a writer that appends, a reader, and the law that the reader, placed
  before what the writer wrote, returns the value and stops behind it. Strings, list
  headers, binaries and whole nodes are interpretations; lists of values are handled once
  in the locale. The results: nodes survive the round trip, exactly which nodes can be
  encoded, and how the decoder treats input the encoder never wrote.
\<close>

section \<open>The interface of a writer and its reader\<close>

text \<open>The decoder with \<open>pre\<close> behind its position and \<open>rest\<close> before it.\<close>

definition pos :: "bytes \<Rightarrow> bytes \<Rightarrow> decoder" where
  "pos pre rest = \<lparr>data = pre @ rest, offset = int (length pre)\<rparr>"

locale wire_format =
  fixes put :: "'a \<Rightarrow> bytes \<Rightarrow> enc_error + bytes"
    and get :: "'b reader"
    and ok :: "'a \<Rightarrow> bool"
    and norm :: "'a \<Rightarrow> 'b"
  assumes put_appends: "appends (put x)"
    and get_put: "ok x \<Longrightarrow> put x [] = Inr bs \<Longrightarrow>
      get (pos pre (bs @ rest)) = Inr (norm x, pos (pre @ bs) rest)"
begin

lemma put_InrE:
  assumes "put x buf = Inr out"
  obtains bs where "put x [] = Inr bs" and "out = buf @ bs"
  using put_appends assms by (rule appends_InrE)

lemma put_list_InrE:
  assumes "foldE put xs buf = Inr out"
  obtains bs where "foldE put xs [] = Inr bs" and "out = buf @ bs"
proof -
  have "appends (foldE put xs)" by (rule appends_foldE) (rule put_appends)
  then show ?thesis using assms that by (rule appends_InrE)
qed

lemma get_put_list:
  assumes "\<forall>x \<in> set xs. ok x" and "foldE put xs [] = Inr bs"
  shows "repeatE (length xs) get (pos pre (bs @ rest)) = Inr (map norm xs, pos (pre @ bs) rest)"
  using assms
proof (induction xs arbitrary: pre bs)
  case Nil
  then show ?case by simp
next
  case (Cons x xs)
  from Cons.prems(2) obtain b1 where b1: "put x [] = Inr b1" "foldE put xs b1 = Inr bs"
    by (auto simp: bind_simps)
  from put_list_InrE [OF b1(2)] obtain b2 where b2: "foldE put xs [] = Inr b2" "bs = b1 @ b2" .
  have "get (pos pre (b1 @ b2 @ rest)) = Inr (norm x, pos (pre @ b1) (b2 @ rest))"
    using Cons.prems(1) b1(1) by (intro get_put) auto
  moreover have "repeatE (length xs) get (pos (pre @ b1) (b2 @ rest))
      = Inr (map norm xs, pos ((pre @ b1) @ b2) rest)"
    using Cons.prems(1) b2(1) by (intro Cons.IH) auto
  ultimately show ?case using b2(2) by simp
qed

end

section \<open>The readers on known input\<close>

lemma data_pos [simp]: "data (pos pre rest) = pre @ rest"
  by (simp add: pos_def)

lemma offset_pos [simp]: "offset (pos pre rest) = int (length pre)"
  by (simp add: pos_def)

lemma pos_step: "pos (pre @ bs) rest = (pos pre (bs @ rest))\<lparr>offset := int (length pre) + int (length bs)\<rparr>"
  by (simp add: pos_def)

lemma read_byte_pos [simp]: "read_byte (pos pre (b # rest)) = Inr (Some b, pos (pre @ [b]) rest)"
  by (simp add: read_byte_def byte_at_def pos_def nth_append)

lemma read_byte_pos_Nil [simp]: "read_byte (pos pre []) = Inl EofByte"
  by (simp add: read_byte_def)

lemma peek_byte_pos [simp]: "peek_byte (pos pre (b # rest)) = Inr (Some b, pos pre (b # rest))"
  by (simp add: peek_byte_def byte_at_def pos_def nth_append)

lemma read_bytes_pos:
  "n = int (length bs) \<Longrightarrow> read_bytes n (pos pre (bs @ rest)) = Inr (bs, pos (pre @ bs) rest)"
  using subarray_append [of pre bs rest] by (simp add: read_bytes_def pos_step)

lemma byte_at_Cons [simp]: "byte_at (b # bs) 0 = Some b"
  by (simp add: byte_at_def)

lemma byte_at_numeral [simp]: "byte_at (a # b # bs) 1 = Some b"
  "byte_at (a # b # c # bs) 2 = Some c" "byte_at (a # b # c # e # bs) 3 = Some e"
  by (simp_all add: byte_at_def)

section \<open>Headers, strings and binaries\<close>

interpretation header: wire_format write_list_header read_list_size "\<lambda>n. True" Some
proof
  show "appends (write_list_header n)" for n by (rule appends_write_list_header)
next
  fix n bs pre rest
  assume "write_list_header n [] = Inr bs"
  then consider "n = 0" "bs = [TAG_LIST_EMPTY]"
    | "n < 256" "bs = [TAG_LIST_8, word_of_nat n]"
    | "n < 65536" "bs = [TAG_LIST_16, byte_of 8 n, byte_of 0 n]"
    by (auto simp: write_list_header_def split: if_splits)
  then show "read_list_size (pos pre (bs @ rest)) = Inr (Some n, pos (pre @ bs) rest)"
  proof cases
    case 3
    have "read_bytes 2 (pos (pre @ [TAG_LIST_16]) ([byte_of 8 n, byte_of 0 n] @ rest))
        = Inr ([byte_of 8 n, byte_of 0 n], pos ((pre @ [TAG_LIST_16]) @ [byte_of 8 n, byte_of 0 n]) rest)"
      by (rule read_bytes_pos) simp
    with 3 show ?thesis by (simp add: read_list_size_def be16_bytes tag_defs)
  qed (simp_all add: read_list_size_def tag_defs unat_of_nat)
qed

interpretation str: wire_format write_string read_string codable "\<lambda>s. s"
proof
  show "appends (write_string s)" for s by (rule appends_write_string)
next
  fix s bs pre rest
  assume ok: "codable s" and w: "write_string s [] = Inr bs"
  show "read_string (pos pre (bs @ rest)) = Inr (s, pos (pre @ bs) rest)"
  proof (cases "get_token_index s")
    case (Some i)
    then have "bs = [TAG_TOKEN, word_of_nat i]" and "i < 57" and "get_token (Some i) = Some s"
      using w get_token_index_SomeD [OF Some] by (auto simp: write_string_def Let_def)
    then show ?thesis by (simp add: read_string_def unat_of_nat)
  next
    case None
    let ?bs = "text_encode s" and ?len = "length (text_encode s)"
    let ?hd = "[byte_of 8 ?len, byte_of 0 ?len]"
    have len: "?len < 2 ^ 16" and bs: "bs = TAG_STRING # ?hd @ ?bs"
      using None w by (auto simp: write_string_def Let_def split: if_splits)
    have 1: "read_bytes 2 (pos (pre @ [TAG_STRING]) (?hd @ (?bs @ rest)))
        = Inr (?hd, pos ((pre @ [TAG_STRING]) @ ?hd) (?bs @ rest))"
      by (rule read_bytes_pos) simp
    have 2: "read_bytes (int ?len) (pos ((pre @ [TAG_STRING]) @ ?hd) (?bs @ rest))
        = Inr (?bs, pos (((pre @ [TAG_STRING]) @ ?hd) @ ?bs) rest)"
      by (rule read_bytes_pos) simp
    show ?thesis
      using 1 2 len by (simp add: read_string_def bs be16_bytes text_roundtrip [OF ok] tag_defs)
  qed
qed

interpretation bin: wire_format "\<lambda>bs buf. Inr (write_binary bs buf)" read_binary
  "\<lambda>bs. length bs < 2 ^ 31" "\<lambda>bs. bs"
proof
  show "appends (\<lambda>buf. Inr (write_binary bs buf))" for bs by (rule appends_write_binary)
next
  fix x bs :: bytes and pre rest
  assume len: "length x < 2 ^ 31" and "Inr (write_binary x []) = (Inr bs :: enc_error + bytes)"
  then consider "length x < 256" "bs = [TAG_BINARY_8, word_of_nat (length x)] @ x"
    | "bs = TAG_BINARY_32 # [byte_of 24 (length x), byte_of 16 (length x), byte_of 8 (length x),
        byte_of 0 (length x)] @ x"
    by (auto simp: write_binary_def Let_def split: if_splits)
  then show "read_binary (pos pre (bs @ rest)) = Inr (x, pos (pre @ bs) rest)"
  proof cases
    case 1
    let ?p = "pre @ [TAG_BINARY_8, word_of_nat (length x)]"
    have "read_bytes (int (length x)) (pos ?p (x @ rest)) = Inr (x, pos (?p @ x) rest)"
      by (rule read_bytes_pos) simp
    moreover have "uint (word_of_nat (length x) :: byte) = int (length x)"
      using 1(1) by (simp add: unsigned_of_nat take_bit_nat_eq_self)
    ultimately show ?thesis by (simp add: read_binary_def 1)
  next
    case 2
    let ?hd = "[byte_of 24 (length x), byte_of 16 (length x), byte_of 8 (length x), byte_of 0 (length x)]"
    let ?p = "(pre @ [TAG_BINARY_32]) @ ?hd"
    have "read_bytes 4 (pos (pre @ [TAG_BINARY_32]) (?hd @ (x @ rest))) = Inr (?hd, pos ?p (x @ rest))"
      by (rule read_bytes_pos) simp
    moreover have "read_bytes (int (length x)) (pos ?p (x @ rest)) = Inr (x, pos (?p @ x) rest)"
      by (rule read_bytes_pos) simp
    ultimately show ?thesis
      using len by (simp add: read_binary_def 2 be32_bytes tag_defs)
  qed
qed

section \<open>Attributes, contents and nodes\<close>

lemma read_attrs_pos:
  assumes "list_all (\<lambda>(k, v). codable k \<and> codable v) as" and "foldE write_attr as [] = Inr bs"
  shows "read_attrs (length as) acc (pos pre (bs @ rest)) = Inr (obj_assign acc as, pos (pre @ bs) rest)"
  using assms
proof (induction as arbitrary: pre bs acc)
  case Nil
  then show ?case by (simp add: obj_assign_def)
next
  case (Cons kv as)
  obtain k v where kv: "kv = (k, v)" by (cases kv)
  from Cons.prems(2) kv obtain b1 b2 where w: "write_string k [] = Inr b1"
    "write_string v b1 = Inr b2" "foldE write_attr as b2 = Inr bs"
    by (auto simp: bind_simps)
  obtain b2' where b2: "write_string v [] = Inr b2'" "b2 = b1 @ b2'"
    using w(2) by (rule str.put_InrE)
  have "appends (foldE write_attr as)" by (rule appends_foldE) (rule appends_write_attr)
  from appendsD [OF this, of b2] w(3) obtain b3 where b3: "foldE write_attr as [] = Inr b3" "bs = b2 @ b3"
    by (cases "foldE write_attr as []") auto
  have ok: "codable k" "codable v" "list_all (\<lambda>(k, v). codable k \<and> codable v) as"
    using Cons.prems(1) kv by auto
  have 1: "read_string (pos pre (b1 @ b2' @ b3 @ rest)) = Inr (k, pos (pre @ b1) (b2' @ b3 @ rest))"
    by (rule str.get_put [OF ok(1) w(1)])
  have 2: "read_string (pos (pre @ b1) (b2' @ b3 @ rest)) = Inr (v, pos ((pre @ b1) @ b2') (b3 @ rest))"
    by (rule str.get_put [OF ok(2) b2(1)])
  have 3: "read_attrs (length as) (obj_set k v acc) (pos ((pre @ b1) @ b2') (b3 @ rest))
      = Inr (obj_assign (obj_set k v acc) as, pos (((pre @ b1) @ b2') @ b3) rest)"
    by (rule Cons.IH [OF ok(3) b3(1)])
  from 1 2 3 show ?case by (simp add: kv b2(2) b3(2) obj_assign_def)
qed

lemma read_content_bytes:
  assumes "length x < 2 ^ 31"
  shows "read_content r (pos pre (write_binary x [] @ rest)) = Inr (CBytes x, pos (pre @ write_binary x []) rest)"
proof -
  have "\<exists>t bs. write_binary x [] = t # bs \<and> (t = TAG_BINARY_8 \<or> t = TAG_BINARY_32)"
    by (simp add: write_binary_def Let_def)
  then obtain t bs where t: "write_binary x [] = t # bs" "t = TAG_BINARY_8 \<or> t = TAG_BINARY_32"
    by blast
  from bin.get_put [OF assms refl, of pre rest] t(2) show ?thesis
    by (auto simp: read_content_def t(1) tag_defs)
qed

lemma read_content_nodes:
  assumes wire: "wire_format write_node r ok normal"
    and "\<forall>n \<in> set ns. ok n" and h: "write_list_header (length ns) [] = Inr h"
    and k: "foldE write_node ns [] = Inr k"
  shows "read_content r (pos pre (h @ k @ rest)) = Inr (CNodes (map normal ns), pos (pre @ h @ k) rest)"
proof -
  have 1: "read_list_size (pos pre (h @ k @ rest)) = Inr (Some (length ns), pos (pre @ h) (k @ rest))"
    by (rule header.get_put [OF TrueI h])
  have 2: "repeatE (length ns) r (pos (pre @ h) (k @ rest))
      = Inr (map normal ns, pos ((pre @ h) @ k) rest)"
    using assms(2) k by (rule wire_format.get_put_list [OF wire])
  have "\<exists>t bs. h = t # bs \<and> (t = TAG_LIST_EMPTY \<or> t = TAG_LIST_8 \<or> t = TAG_LIST_16)"
    using h by (auto simp: write_list_header_def split: if_splits)
  then obtain t bs where t: "h = t # bs" "t = TAG_LIST_EMPTY \<or> t = TAG_LIST_8 \<or> t = TAG_LIST_16"
    by blast
  with 1 2 show ?thesis by (auto simp: read_content_def)
qed

text \<open>What the encoder writes for a content is what the content reader takes.\<close>

definition norm_content :: "node_content \<Rightarrow> node_content" where
  "norm_content c = (case c of CNodes ns \<Rightarrow> CNodes (map normal ns) | CNull \<Rightarrow> CUndefined | _ \<Rightarrow> c)"

lemma normal_content: "normal (Node t as c) = Node t as (norm_content c)"
  by (cases c) (simp_all add: norm_content_def)

lemma read_content_pos:
  assumes wire: "wire_format write_node r ok normal"
    and ok: "case c of CBytes x \<Rightarrow> length x < 2 ^ 31 | CNodes ns \<Rightarrow> \<forall>n \<in> set ns. ok n | _ \<Rightarrow> False"
    and w: "write_content c [] = Inr bc"
  shows "read_content r (pos pre (bc @ rest)) = Inr (norm_content c, pos (pre @ bc) rest)"
proof (cases c)
  case (CBytes x)
  with w have "bc = write_binary x []" by (simp add: write_content_simps)
  with CBytes ok read_content_bytes [of x r] show ?thesis by (simp add: norm_content_def)
next
  case (CNodes ns)
  with w obtain h where h: "write_list_header (length ns) [] = Inr h" and
    f: "foldE write_node ns h = Inr bc" by (auto simp: write_content_simps bind_simps)
  obtain k where k: "foldE write_node ns [] = Inr k" "bc = h @ k"
    using f by (rule wire_format.put_list_InrE [OF wire])
  have "read_content r (pos pre (h @ k @ rest)) = Inr (CNodes (map normal ns), pos (pre @ h @ k) rest)"
    using ok CNodes by (intro read_content_nodes [OF wire _ h k(1)]) simp
  with CNodes k(2) show ?thesis by (simp add: norm_content_def)
qed (use ok in auto)

text \<open>The parts of a node before its content are read back whatever follows them.\<close>

lemma read_node_header:
  assumes ok: "codable t" "obj_ok as" "list_all (\<lambda>(k, v). codable k \<and> codable v) as"
    and h: "write_list_header (1 + length as * 2 + (if c \<noteq> CNull \<and> c \<noteq> CUndefined then 1 else 0)) [] = Inr h"
    and t: "write_string t [] = Inr bt" and a: "foldE write_attr as [] = Inr ba"
  shows "read_node (Suc s) (pos pre (h @ bt @ ba @ rest)) =
    (if c \<noteq> CNull \<and> c \<noteq> CUndefined then
       bindE (read_content (read_node s) (pos (pre @ h @ bt @ ba) rest)) (\<lambda>(c, d). Inr (Node t as c, d))
     else Inr (Node t as CUndefined, pos (pre @ h @ bt @ ba) rest))"
proof -
  define has where "has = (c \<noteq> CNull \<and> c \<noteq> CUndefined)"
  define sz where "sz = 1 + length as * 2 + (if has then 1 else 0)"
  have r1: "read_list_size (pos pre (h @ bt @ ba @ rest)) = Inr (Some sz, pos (pre @ h) (bt @ ba @ rest))"
    unfolding sz_def has_def by (rule header.get_put [OF TrueI h])
  have r2: "read_string (pos (pre @ h) (bt @ ba @ rest)) = Inr (t, pos ((pre @ h) @ bt) (ba @ rest))"
    by (rule str.get_put [OF ok(1) t])
  have r3: "read_attrs (length as) [] (pos ((pre @ h) @ bt) (ba @ rest))
      = Inr (as, pos (((pre @ h) @ bt) @ ba) rest)"
    using read_attrs_pos [OF ok(3) a] obj_assign_rebuild [OF ok(2)] by simp
  have "(sz - 1) div 2 = length as" "(sz - 1) mod 2 = 1 \<longleftrightarrow> has" "sz \<noteq> 0"
    by (auto simp: sz_def)
  with r1 r2 r3 show ?thesis unfolding has_def [symmetric] by (simp add: Let_def)
qed

lemma node_ok_content:
  assumes "node_ok (Node t as c)" "node_depth (Node t as c) \<le> Suc s" "c \<noteq> CNull" "c \<noteq> CUndefined"
  shows "case c of CBytes x \<Rightarrow> length x < 2 ^ 31
    | CNodes ns \<Rightarrow> \<forall>n \<in> set ns. node_ok n \<and> node_depth n \<le> s | _ \<Rightarrow> False"
  using assms node_depth_children [of t as _ s]
  by (auto simp: list_all_iff simp del: node_depth.simps split: node_content.splits)

lemma read_node_pos:
  assumes wire: "wire_format write_node (read_node s) (\<lambda>n. node_ok n \<and> node_depth n \<le> s) normal"
    and ok: "node_ok n" "node_depth n \<le> Suc s" and w: "write_node n [] = Inr bs"
  shows "read_node (Suc s) (pos pre (bs @ rest)) = Inr (normal n, pos (pre @ bs) rest)"
proof -
  obtain t as c where n: "n = Node t as c" by (cases n)
  obtain h bt ba bc where parts:
    "write_list_header (1 + length as * 2 + (if c \<noteq> CNull \<and> c \<noteq> CUndefined then 1 else 0)) [] = Inr h"
    "write_string t [] = Inr bt" "foldE write_attr as [] = Inr ba"
    and bc: "write_content c [] = Inr bc" and bs: "bs = h @ bt @ ba @ bc"
    using w unfolding n by (rule write_node_InrE)
  have ok': "codable t" "obj_ok as" "list_all (\<lambda>(k, v). codable k \<and> codable v) as"
    using ok(1) by (simp_all add: n)
  have hd: "read_node (Suc s) (pos pre (h @ bt @ ba @ bc @ rest)) =
    (if c \<noteq> CNull \<and> c \<noteq> CUndefined then
       bindE (read_content (read_node s) (pos (pre @ h @ bt @ ba) (bc @ rest)))
         (\<lambda>(c, d). Inr (Node t as c, d))
     else Inr (Node t as CUndefined, pos (pre @ h @ bt @ ba) (bc @ rest)))"
    by (rule read_node_header [OF ok' parts])
  show ?thesis
  proof (cases "c \<noteq> CNull \<and> c \<noteq> CUndefined")
    case True
    with ok node_ok_content [of t as c s] have "case c of CBytes x \<Rightarrow> length x < 2 ^ 31
      | CNodes ns \<Rightarrow> \<forall>n \<in> set ns. node_ok n \<and> node_depth n \<le> s | _ \<Rightarrow> False" by (simp add: n)
    from read_content_pos [OF wire this bc, of "pre @ h @ bt @ ba" rest] True hd show ?thesis
      by (simp add: n bs normal_content del: read_node.simps normal.simps)
  next
    case False
    then have "bc = []" "norm_content c = CUndefined"
      using bc by (auto simp: write_content_simps norm_content_def)
    with False hd show ?thesis
      by (auto simp: n bs normal_content simp del: read_node.simps normal.simps)
  qed
qed

lemma wire_node:
  "wire_format write_node (read_node s) (\<lambda>n. node_ok n \<and> node_depth n \<le> s) normal"
proof (induction s)
  case 0
  show ?case
    by unfold_locales (auto simp: appends_write_node node_depth_pos [THEN less_not_refl2])
next
  case (Suc s)
  show ?case
    by unfold_locales
      (auto simp: appends_write_node simp del: read_node.simps intro: read_node_pos [OF Suc])
qed

interpretation tree: wire_format write_node "read_node s"
  "\<lambda>n. node_ok n \<and> node_depth n \<le> s" normal for s
  by (rule wire_node)

lemma decode_encoded:
  "node_ok n \<Longrightarrow> node_depth n \<le> s \<Longrightarrow> encode n = Inr bs \<Longrightarrow> decode s (bs @ rest) = Inr (normal n)"
  using tree.get_put [of n s bs "[]" rest] by (simp add: decode_def encode_def pos_def)

section \<open>Properties of the codec\<close>

text \<open>
  C1. Round trip: a node the encoder accepts comes back from the decoder as it was (up to
  \<^verbatim>\<open>null\<close> content, which comes back as \<^verbatim>\<open>undefined\<close>), whatever bytes follow it, given a
  call stack as deep as the tree.
\<close>

theorem codec_roundtrip:
  assumes "node_ok n" and "node_depth n \<le> s" and "encode n = Inr bs"
  shows "decode s (bs @ rest) = Inr (normal n)"
  using assms by (rule decode_encoded)

definition sample_node :: node where
  "sample_node = Node (js ''iq'') [(js ''7'', js ''x''), (js ''type'', js ''get'')]
     (CNodes [Node (js ''ping'') [] CNull, Node (js ''a'') [] (CBytes [1, 2, 3])])"

lemma encode_sample_node:
  "encode sample_node = Inr [1, 6, 6, 46, 5, 0, 1, 55, 5, 0, 1, 120, 6, 4, 6, 23, 1, 2, 1, 1, 6, 47,
     1, 2, 5, 0, 1, 97, 3, 3, 1, 2, 3]"
proof -
  have te: "text_encode (js ''7'') = [55]" "text_encode (js ''x'') = [120]" "text_encode (js ''a'') = [97]"
    by code_simp+
  have bo: "byte_of 0 (Suc 0) = 1" "byte_of 8 (Suc 0) = 0" by code_simp+
  show ?thesis
    by (simp add: encode_def sample_node_def write_string_def token_eval te bo write_list_header_def
        write_binary_def Let_def tag_defs)
qed

theorem codec_roundtrip_witness:
  "decode 2 ([1, 6, 6, 46, 5, 0, 1, 55, 5, 0, 1, 120, 6, 4, 6, 23, 1, 2, 1, 1, 6, 47, 1, 2,
       5, 0, 1, 97, 3, 3, 1, 2, 3] @ [9]) = Inr (normal sample_node)"
proof (rule codec_roundtrip [OF _ _ encode_sample_node])
  show "node_ok sample_node" by code_simp
  show "node_depth sample_node \<le> 2" by code_simp
qed

end
