(* ===== verification/Malformed.thy ===== *)
theory Malformed
  imports Codec
begin

text \<open>
  The decoder on buffers the encoder never wrote. The results: reading only moves forward
  (so the nesting of \<^verbatim>\<open>readNode\<close> is bounded by the length of the buffer) unless a 32-bit
  length is negative, and a buffer with such a length on which \<^verbatim>\<open>readNode\<close> calls itself
  for ever.
\<close>

section \<open>Reading moves forward\<close>

text \<open>
  \<open>forward bs m k r\<close>: on the buffer \<open>bs\<close>, from any position from \<open>m\<close> on, \<open>r\<close> does not
  exhaust the stack, and stops inside the buffer at least \<open>k\<close> bytes further on.
\<close>

definition inside :: "bytes \<Rightarrow> int \<Rightarrow> decoder \<Rightarrow> bool" where
  "inside bs m d = (data d = bs \<and> m \<le> offset d \<and> offset d \<le> int (length bs))"

definition forward :: "bytes \<Rightarrow> int \<Rightarrow> int \<Rightarrow> 'a reader \<Rightarrow> bool" where
  "forward bs m k r =
     (\<forall>d. inside bs m d \<longrightarrow>
        r d \<noteq> Inl StackOverflow \<and> (\<forall>x d'. r d = Inr (x, d') \<longrightarrow> inside bs (offset d + k) d'))"

lemma forwardI:
  assumes "\<And>d. inside bs m d \<Longrightarrow> r d \<noteq> Inl StackOverflow"
    and "\<And>d x d'. inside bs m d \<Longrightarrow> r d = Inr (x, d') \<Longrightarrow> inside bs (offset d + k) d'"
  shows "forward bs m k r"
  using assms unfolding forward_def by blast

lemma forwardD:
  assumes "forward bs m k r" "inside bs m d"
  shows "r d \<noteq> Inl StackOverflow" and "r d = Inr (x, d') \<Longrightarrow> inside bs (offset d + k) d'"
  using assms unfolding forward_def by blast+

lemma inside_mono: "inside bs m d \<Longrightarrow> m' \<le> m \<Longrightarrow> inside bs m' d"
  by (simp add: inside_def)

lemma forward_mono:
  assumes "forward bs m k r" and "m \<le> m'" and "k' \<le> k"
  shows "forward bs m' k' r"
proof (rule forwardI)
  fix d assume "inside bs m' d"
  then have d: "inside bs m d" using assms(2) by (rule inside_mono)
  show "r d \<noteq> Inl StackOverflow" by (rule forwardD [OF assms(1) d])
  fix x d' assume "r d = Inr (x, d')"
  with forwardD [OF assms(1) d] have "inside bs (offset d + k) d'" by blast
  then show "inside bs (offset d + k') d'" using assms(3) by (rule inside_mono [OF _ add_left_mono])
qed

lemma forward_bind:
  assumes r: "forward bs m k r" and f: "\<And>x. forward bs (m + k) 0 (f x)"
  shows "forward bs m k (\<lambda>d. bindE (r d) (\<lambda>(x, d). f x d))"
proof (rule forwardI)
  have step: "inside bs (m + k) d1" if "inside bs m d" "r d = Inr (x, d1)" for d x d1
    using forwardD(2) [OF r that] that(1) by (auto simp: inside_def)
  fix d assume d: "inside bs m d"
  show "bindE (r d) (\<lambda>(x, d). f x d) \<noteq> Inl StackOverflow"
    using forwardD(1) [OF r d] step [OF d] forwardD(1) [OF f]
    by (auto simp: bindE_Inl_iff)
  fix y d' assume "bindE (r d) (\<lambda>(x, d). f x d) = Inr (y, d')"
  then obtain x d1 where 1: "r d = Inr (x, d1)" "f x d1 = Inr (y, d')"
    by (auto simp: bind_simps)
  have "inside bs (offset d1 + 0) d'" by (rule forwardD(2) [OF f step [OF d 1(1)] 1(2)])
  moreover have "offset d + k \<le> offset d1"
    using forwardD(2) [OF r d 1(1)] by (simp add: inside_def)
  ultimately show "inside bs (offset d + k) d'" by (simp add: inside_def)
qed

lemma forward_bind_0:
  "forward bs m 0 r \<Longrightarrow> (\<And>x. forward bs m 0 (f x)) \<Longrightarrow>
    forward bs m 0 (\<lambda>d. bindE (r d) (\<lambda>(x, d). f x d))"
  by (rule forward_bind) simp_all

lemma forward_if:
  "forward bs m k r \<Longrightarrow> forward bs m k r' \<Longrightarrow> forward bs m k (\<lambda>d. if c d then r d else r' d)"
  unfolding forward_def by simp

lemma forward_option:
  "forward bs m k r \<Longrightarrow> (\<And>y. forward bs m k (f y)) \<Longrightarrow>
    forward bs m k (\<lambda>d. case z of None \<Rightarrow> r d | Some y \<Rightarrow> f y d)"
  by (cases z) auto

lemma forward_return: "forward bs m 0 (\<lambda>d. Inr (x, d))"
  by (simp add: forward_def inside_def)

lemma forward_throw: "e \<noteq> StackOverflow \<Longrightarrow> forward bs m k (\<lambda>d. Inl e)"
  by (simp add: forward_def)

lemma forward_read_byte: "forward bs m 1 read_byte"
  by (simp add: forward_def inside_def read_byte_def)

lemma forward_peek_byte: "forward bs m 0 peek_byte"
  by (simp add: forward_def inside_def peek_byte_def)

lemma forward_read_bytes: "0 \<le> n \<Longrightarrow> forward bs m 0 (read_bytes n)"
  by (auto simp: forward_def inside_def read_bytes_def)

lemma be16_nonneg: "0 \<le> be16 a b"
  using be16_bounds [of a b] by simp

lemmas forward_read_byte_0 = forward_mono [OF forward_read_byte order_refl zero_le_one]

lemmas forward_intros = forward_bind_0 forward_if forward_option forward_return forward_throw
  forward_read_byte_0 forward_peek_byte forward_read_bytes be16_nonneg

lemma forward_read_list_size: "forward bs m 1 read_list_size"
  unfolding read_list_size_def [abs_def]
  by (rule forward_bind [OF forward_read_byte], intro forward_intros) simp_all

lemma forward_read_string: "forward bs m 0 read_string"
  unfolding read_string_def [abs_def] by (intro forward_intros) simp_all

text \<open>
  A 32-bit length is negative when its first byte has the high bit set; \<open>lengths_positive\<close>
  says no byte that could be a 32-bit tag stands before such a byte.
\<close>

definition lengths_positive :: "bytes \<Rightarrow> bool" where
  "lengths_positive bs = list_all (\<lambda>(a, b). a = TAG_BINARY_32 \<longrightarrow> b < 128) (zip bs (tl bs))"

lemma lengths_positiveD:
  assumes "lengths_positive bs" and "Suc i < length bs" and "bs ! i = TAG_BINARY_32"
  shows "bs ! Suc i < 128"
proof -
  have "(bs ! i, bs ! Suc i) \<in> set (zip bs (tl bs))"
    using assms(2) by (auto simp: in_set_zip nth_tl)
  with assms(1,3) show ?thesis by (auto simp: lengths_positive_def list_all_iff)
qed

lemma be32_nonneg:
  assumes "b < 128"
  shows "0 \<le> be32 (Some b) x y z"
proof -
  have "unat b < 2 ^ 7" using assms by (simp add: word_less_nat_alt)
  then have "\<not> bit (unat b) 7"
    by (metis take_bit_nat_eq_self bit_take_bit_iff less_irrefl)
  then have "\<not> bit b 7" by (simp add: bit_unsigned_iff)
  moreover have "\<not> bit (w :: byte) j" if "8 \<le> j" for w j
    using bit_imp_le_length [of w j] that by auto
  ultimately have "\<not> bit (push_bit 24 (int32_of (Some b)) OR push_bit 16 (int32_of x)
      OR push_bit 8 (int32_of y) OR int32_of z) 31"
    by (auto simp: bit_simps int32_of_def split: option.splits)
  then show ?thesis
    using bit_last_iff [of "push_bit 24 (int32_of (Some b)) OR push_bit 16 (int32_of x)
      OR push_bit 8 (int32_of y) OR int32_of z"]
    by (simp add: be32_def not_less)
qed

lemma forward_read_length_32:
  assumes "lengths_positive bs" and d: "inside bs m d" and "0 < offset d"
    and tag: "bs ! nat (offset d - 1) = TAG_BINARY_32"
    and r: "r = (\<lambda>b. read_bytes (be32 (byte_at b 0) (byte_at b 1) (byte_at b 2) (byte_at b 3)))"
  shows "bindE (read_bytes 4 d) (\<lambda>(b, d). r b d) \<noteq> Inl StackOverflow"
    and "bindE (read_bytes 4 d) (\<lambda>(b, d). r b d) = Inr (x, d') \<Longrightarrow> inside bs (offset d) d'"
proof -
  have fwd: "forward bs (offset d) 0 (r b)" if b: "read_bytes 4 d = Inr (b, d2)" for b d2
  proof -
    have len: "offset d + 4 \<le> int (length bs)" and b: "b = subarray bs (offset d) (offset d + 4)"
      using d b by (auto simp: read_bytes_def inside_def split: if_splits)
    define i where "i = nat (offset d) - 1"
    have i: "offset d = int (Suc i)" using assms(3) by (simp add: i_def)
    have "b = take 4 (drop (Suc i) bs)"
      using subarray_nat [of bs "Suc i" "Suc i + 4"] by (simp add: b i)
    then have "byte_at b 0 = Some (bs ! Suc i)"
      using len i by (simp add: byte_at_def)
    moreover have "bs ! Suc i < 128"
      using lengths_positiveD [OF assms(1), of i] tag len i by simp
    ultimately show ?thesis unfolding r by (simp add: be32_nonneg forward_read_bytes)
  qed
  have d4: "inside bs (offset d) d2" if "read_bytes 4 d = Inr (b, d2)" for b d2
    using forwardD(2) [OF forward_read_bytes d that] by simp
  show "bindE (read_bytes 4 d) (\<lambda>(b, d). r b d) \<noteq> Inl StackOverflow"
    using forwardD(1) [OF fwd d4] forwardD(1) [OF forward_read_bytes d]
    by (fastforce simp: bindE_Inl_iff)
  assume "bindE (read_bytes 4 d) (\<lambda>(b, d). r b d) = Inr (x, d')"
  then obtain b d2 where b: "read_bytes 4 d = Inr (b, d2)" "r b d2 = Inr (x, d')"
    by (auto simp: bind_simps)
  from forwardD(2) [OF fwd [OF b(1)] d4 [OF b(1)] b(2)] d4 [OF b(1)]
  show "inside bs (offset d) d'" by (simp add: inside_def)
qed

lemma forward_read_binary:
  assumes "lengths_positive bs" and "0 \<le> m"
  shows "forward bs m 0 read_binary"
proof -
  have "read_binary d \<noteq> Inl StackOverflow \<and> (\<forall>x d'. read_binary d = Inr (x, d') \<longrightarrow> inside bs (offset d) d')"
    if d: "inside bs m d" for d
  proof (cases "read_byte d")
    case (Inl e)
    then show ?thesis using forwardD(1) [OF forward_read_byte d] by (auto simp: read_binary_def)
  next
    case (Inr td)
    obtain t d1 where r: "read_byte d = Inr (Some t, d1)" and off: "offset d1 = offset d + 1"
      and t: "t = bs ! nat (offset d)" and d1: "inside bs (offset d + 1) d1"
    proof
      show "read_byte d = Inr (Some (bs ! nat (offset d)), d\<lparr>offset := offset d + 1\<rparr>)"
        using Inr d assms(2) by (auto simp: read_byte_def byte_at_def inside_def split: if_splits)
    qed (use Inr d in \<open>auto simp: read_byte_def inside_def split: if_splits\<close>)
    consider (short) "t = TAG_BINARY_8" | (long) "t = TAG_BINARY_32"
      | (other) "t \<noteq> TAG_BINARY_8" "t \<noteq> TAG_BINARY_32" by blast
    then show ?thesis
    proof cases
      case short
      have "forward bs (offset d + 1) 0 (\<lambda>d. bindE (read_byte d)
          (\<lambda>(len, d). read_bytes (case len of None \<Rightarrow> 0 | Some x \<Rightarrow> uint x) d))"
        by (intro forward_intros) (simp split: option.split)
      from forwardD [OF this d1] short off show ?thesis by (auto simp: read_binary_def r inside_def)
    next
      case long
      note f = forward_read_length_32 [OF assms(1) d1 _ _ refl]
      from f long t off d assms(2) show ?thesis
        by (fastforce simp: read_binary_def r tag_defs inside_def)
    next
      case other
      then show ?thesis by (simp add: read_binary_def r)
    qed
  qed
  then show ?thesis by (simp add: forward_def)
qed

lemma forward_repeatE: "forward bs m 0 r \<Longrightarrow> forward bs m 0 (repeatE n r)"
proof (induction n)
  case 0
  have "repeatE 0 r = (\<lambda>d. Inr ([], d))" by (rule ext) simp
  then show ?case by (simp only: forward_return)
next
  case (Suc n)
  then show ?case unfolding repeatE_Suc by (intro forward_intros)
qed

lemma forward_read_attrs: "forward bs m 0 (read_attrs n as)"
proof (induction n arbitrary: as)
  case 0
  have "read_attrs 0 as = (\<lambda>d. Inr (as, d))" by (rule ext) simp
  then show ?case by (simp only: forward_return)
next
  case (Suc n)
  have "read_attrs (Suc n) as = (\<lambda>d. bindE (read_string d) (\<lambda>(key, d). bindE (read_string d)
      (\<lambda>(val, d). read_attrs n (obj_set key val as) d)))"
    by (rule ext) simp
  then show ?case using Suc by (simp only:) (intro forward_intros forward_read_string)
qed

lemmas forward_read_list_size_0 = forward_mono [OF forward_read_list_size order_refl zero_le_one]

lemma forward_read_content:
  assumes "lengths_positive bs" "0 \<le> m" "forward bs m 0 r"
  shows "forward bs m 0 (read_content r)"
  unfolding read_content_def [abs_def]
  by (intro forward_intros forward_read_list_size_0 forward_repeatE forward_read_binary
      forward_read_string assms)

lemma forward_read_node:
  assumes "lengths_positive bs" and "0 \<le> m" and "int (length bs) < m + int s"
  shows "forward bs m 0 (read_node s)"
  using assms(2,3)
proof (induction s arbitrary: m)
  case 0
  then show ?case by (simp add: forward_def inside_def)
next
  case (Suc s)
  then have child: "forward bs (m + 1) 0 (read_node s)" by simp
  have "forward bs (m + 1) 0 (\<lambda>d. if n = Some 0 then Inl EmptyNodeList
       else bindE (read_string d) (\<lambda>(t, d).
         bindE (read_attrs (case n of None \<Rightarrow> 0 | Some n \<Rightarrow> (n - 1) div 2) [] d) (\<lambda>(as, d).
           if case n of None \<Rightarrow> False | Some n \<Rightarrow> (n - 1) mod 2 = 1 then
             bindE (read_content (read_node s) d) (\<lambda>(c, d). Inr (Node t as c, d))
           else Inr (Node t as CUndefined, d))))" for n
    using Suc.prems(1) child
    by (intro forward_intros forward_read_string forward_read_attrs forward_read_content assms(1))
      simp_all
  then have "forward bs m 1 (read_node (Suc s))"
    unfolding read_node_Suc by (intro forward_bind forward_read_list_size)
  then show ?case by (rule forward_mono) simp_all
qed

text \<open>
  C3. On a buffer in which no 32-bit length is negative, decoding nests \<^verbatim>\<open>readNode\<close> at
  most once per byte: a call stack with room for one call more than the buffer has bytes
  is enough, whatever the bytes are.
\<close>

theorem decode_stack_bound:
  assumes "lengths_positive bs" and "length bs < s"
  shows "decode s bs \<noteq> Inl StackOverflow"
proof -
  have "forward bs 0 0 (read_node s)" using assms by (intro forward_read_node) simp_all
  then have "read_node s \<lparr>data = bs, offset = 0\<rparr> \<noteq> Inl StackOverflow"
    by (rule forwardD) (simp add: inside_def)
  then show ?thesis unfolding decode_def
    by (cases "read_node s \<lparr>data = bs, offset = 0\<rparr>") auto
qed

theorem decode_stack_bound_witness: "decode 7 [1, 3, 6, 4, 4, 0x7F] \<noteq> Inl StackOverflow"
  by (rule decode_stack_bound) code_simp+

section \<open>A buffer that traps the decoder\<close>

text \<open>
  A node with one child list of two: the first child's content has the 32-bit length
  \<open>0xFFFFFFF1\<close>, read as \<open>-15\<close>, which moves the position back to the start of the buffer, so
  that the second child is the whole buffer again.
\<close>

definition looping_buffer :: bytes where
  "looping_buffer = [1, 2, 6, 29, 1, 2, 1, 2, 6, 29, 4, 0xFF, 0xFF, 0xFF, 0xF1]"

lemma first_child_moves_back:
  "\<exists>n. read_node (Suc s) (pos [1, 2, 6, 29, 1, 2] [1, 2, 6, 29, 4, 0xFF, 0xFF, 0xFF, 0xF1])
     = Inr (n, pos [] looping_buffer)"
proof -
  have neg: "be32 (Some 0xFF) (Some 0xFF) (Some 0xFF) (Some 0xF1) = - 15" by code_simp
  have len: "read_bytes 4 (pos [1, 2, 6, 29, 1, 2, 1, 2, 6, 29, 4] [0xFF, 0xFF, 0xFF, 0xF1])
      = Inr ([0xFF, 0xFF, 0xFF, 0xF1], pos looping_buffer [])"
    using read_bytes_pos [of 4 "[0xFF, 0xFF, 0xFF, 0xF1]" _ "[]"] by (simp add: looping_buffer_def)
  have rewind: "read_bytes (- 15) (pos looping_buffer [])
      = Inr (subarray looping_buffer 15 0, pos [] looping_buffer)"
    by (simp add: read_bytes_def pos_def looping_buffer_def)
  show ?thesis
    using len rewind
    by (simp add: read_list_size_def read_string_def read_content_def read_binary_def tag_defs
        get_token_def SINGLE_BYTE_TOKENS_def token_names_def neg Let_def)
qed

lemma repeatE_2:
  "repeatE 2 f s = bindE (f s) (\<lambda>(x, s). bindE (repeatE 1 f s) (\<lambda>(xs, s). Inr (x # xs, s)))"
  using repeatE.simps(2) [of 1 f s] by (simp del: repeatE.simps add: numeral_2_eq_2)

lemma outer_node:
  "read_node (Suc s) (pos [] looping_buffer) =
     bindE (read_node s (pos [1, 2, 6, 29, 1, 2] [1, 2, 6, 29, 4, 0xFF, 0xFF, 0xFF, 0xF1]))
       (\<lambda>(x, d). bindE (read_node s d) (\<lambda>(y, d). Inr (Node (js ''message'') [] (CNodes [x, y]), d)))"
  by (simp add: looping_buffer_def read_list_size_def read_string_def read_content_def tag_defs
      get_token_def SINGLE_BYTE_TOKENS_def token_names_def repeatE_2 bindE_assoc Let_def
      case_prod_unfold)

lemma read_node_loops: "read_node s (pos [] looping_buffer) = Inl StackOverflow"
proof (induction s)
  case 0
  show ?case by simp
next
  case (Suc s)
  then show ?case
    using first_child_moves_back [of "s - 1"] unfolding outer_node by (cases s) auto
qed

text \<open>
  C32. On the fifteen bytes of \<open>looping_buffer\<close> \<^verbatim>\<open>readNode\<close> never returns: however much
  room the call stack has, it is exhausted.
\<close>

theorem decode_never_returns: "decode s looping_buffer = Inl StackOverflow"
  using read_node_loops [of s] by (simp add: decode_def pos_def)

end
