(* ===== verification/Truncated.thy ===== *)
theory Truncated
  imports Codec "HOL-Library.Sublist"
begin

text \<open>
  The decoder on an encoded node cut short. The interface \<open>wire_format\<close> is extended by what
  its reader does on a proper prefix of what the writer wrote: an end-of-file error, or one
  of a known list of values read up to the end of the buffer. For strings, headers and
  binaries that list is empty; for a node it holds the nodes whose content is missing.
\<close>

definition eof :: "dec_error + 'a \<Rightarrow> bool" where
  "eof r = (r = Inl EofByte \<or> r = Inl EofSlice)"

lemma eof_simps [simp]: "eof (Inl EofByte)" "eof (Inl EofSlice)" "\<not> eof (Inr x)"
  by (simp_all add: eof_def)

lemma eof_bindE: "eof m \<Longrightarrow> eof (bindE m f)"
  by (auto simp: eof_def)

lemma strict_prefix_appendE:
  assumes "strict_prefix p (xs @ ys)"
  obtains (left) "strict_prefix p xs" | (right) q where "p = xs @ q" "strict_prefix q ys"
proof -
  from assms have "prefix p (xs @ ys)" "p \<noteq> xs @ ys" by (auto simp: strict_prefix_def)
  then show ?thesis
    using that(1) that(2) [of "[]"] that(2)
    by (cases "p = xs") (auto simp: prefix_append strict_prefix_def)
qed

locale cut_wire = wire_format put get ok norm
  for put :: "'a \<Rightarrow> bytes \<Rightarrow> enc_error + bytes" and get :: "'b reader"
    and ok :: "'a \<Rightarrow> bool" and norm :: "'a \<Rightarrow> 'b" +
  fixes cuts :: "'a \<Rightarrow> 'b list"
  assumes get_end: "ok x \<Longrightarrow> eof (get (pos pre []))"
    and get_cut: "ok x \<Longrightarrow> put x [] = Inr bs \<Longrightarrow> strict_prefix p bs \<Longrightarrow>
      eof (get (pos pre p)) \<or> (\<exists>y \<in> set (cuts x). get (pos pre p) = Inr (y, pos (pre @ p) []))"
begin

text \<open>Only the last value of a list can come back cut: a value after it finds no byte.\<close>

lemma get_cut_list:
  assumes "\<forall>x \<in> set xs. ok x" and "foldE put xs [] = Inr bs" and "strict_prefix p bs"
  shows "eof (repeatE (length xs) get (pos pre p)) \<or>
    (\<exists>y \<in> set (cuts (last xs)).
       repeatE (length xs) get (pos pre p) = Inr (map norm (butlast xs) @ [y], pos (pre @ p) []))"
  using assms
proof (induction xs arbitrary: pre bs p)
  case Nil
  then show ?case by simp
next
  case (Cons x xs)
  from Cons.prems(2) obtain b1 where b1: "put x [] = Inr b1" "foldE put xs b1 = Inr bs"
    by (auto simp: bind_simps)
  from put_list_InrE [OF b1(2)] obtain b2 where b2: "foldE put xs [] = Inr b2" "bs = b1 @ b2" .
  from Cons.prems(3) b2(2) have "strict_prefix p (b1 @ b2)" by simp
  then show ?case
  proof (cases rule: strict_prefix_appendE)
    case left
    then consider "eof (get (pos pre p))"
      | y where "y \<in> set (cuts x)" "get (pos pre p) = Inr (y, pos (pre @ p) [])"
      using get_cut [of x b1 p pre] Cons.prems(1) b1(1) by auto
    then show ?thesis
    proof cases
      case 1
      then show ?thesis by (simp add: eof_bindE)
    next
      case 2
      then show ?thesis
        using Cons.prems(1) get_end [of "hd xs" "pre @ p"] by (cases xs) (auto simp: eof_bindE)
    qed
  next
    case (right q)
    have "xs \<noteq> []" using right(2) b2(1) by auto
    have "get (pos pre (b1 @ q)) = Inr (norm x, pos (pre @ b1) q)"
      using Cons.prems(1) b1(1) by (intro get_put) auto
    moreover have "eof (repeatE (length xs) get (pos (pre @ b1) q)) \<or>
      (\<exists>y \<in> set (cuts (last xs)). repeatE (length xs) get (pos (pre @ b1) q)
         = Inr (map norm (butlast xs) @ [y], pos ((pre @ b1) @ q) []))"
      using Cons.prems(1) b2(1) right(2) by (intro Cons.IH) auto
    ultimately show ?thesis
      using \<open>xs \<noteq> []\<close> right(1) by (auto simp: eof_bindE)
  qed
qed

end

section \<open>Headers, strings and binaries are never accepted cut short\<close>

lemma read_bytes_short:
  "int (length p) < n \<Longrightarrow> read_bytes n (pos pre p) = Inl EofSlice"
  by (simp add: read_bytes_def)

interpretation header_cut: cut_wire write_list_header read_list_size "\<lambda>n. True" Some "\<lambda>n. []"
proof
  fix pre and n :: nat
  show "eof (read_list_size (pos pre []))" by (simp add: read_list_size_def)
  fix bs p assume "write_list_header n [] = Inr bs" and p: "strict_prefix p bs"
  then have "p = [] \<or> p = [TAG_LIST_8] \<or> p = [TAG_LIST_16] \<or> p = [TAG_LIST_16, byte_of 8 n]"
    by (auto simp: write_list_header_def strict_prefix_def prefix_Cons split: if_splits)
  then have "eof (read_list_size (pos pre p))"
    by (auto simp: read_list_size_def tag_defs read_bytes_short)
  then show "eof (read_list_size (pos pre p)) \<or>
      (\<exists>y \<in> set []. read_list_size (pos pre p) = Inr (y, pos (pre @ p) []))" ..
qed

interpretation str_cut: cut_wire write_string read_string codable "\<lambda>s. s" "\<lambda>s. []"
proof
  fix pre s
  show "eof (read_string (pos pre []))" by (simp add: read_string_def)
  fix bs p assume w: "write_string s [] = Inr bs" and p: "strict_prefix p bs"
  let ?bs = "text_encode s" and ?len = "length (text_encode s)"
  let ?hd = "[byte_of 8 ?len, byte_of 0 ?len]"
  from w consider i where "bs = [TAG_TOKEN, word_of_nat i]"
    | "?len < 2 ^ 16" "bs = (TAG_STRING # ?hd) @ ?bs"
    by (auto simp: write_string_def Let_def split: if_splits option.splits)
  then have "eof (read_string (pos pre p))"
  proof cases
    case (1 i)
    with p have "p = [] \<or> p = [TAG_TOKEN]" by (auto simp: strict_prefix_def prefix_Cons)
    then show ?thesis by (auto simp: read_string_def)
  next
    case 2
    from p 2(2) have "strict_prefix p ((TAG_STRING # ?hd) @ ?bs)" by simp
    then show ?thesis
    proof (cases rule: strict_prefix_appendE)
      case left
      then have "p = [] \<or> p = [TAG_STRING] \<or> p = [TAG_STRING, byte_of 8 ?len]"
        by (auto simp: strict_prefix_def prefix_Cons)
      then show ?thesis by (auto simp: read_string_def tag_defs read_bytes_short)
    next
      case (right q)
      have "read_bytes 2 (pos (pre @ [TAG_STRING]) (?hd @ q))
          = Inr (?hd, pos ((pre @ [TAG_STRING]) @ ?hd) q)"
        by (rule read_bytes_pos) simp
      moreover have "length q < ?len"
        using right(2) by (auto simp: prefix_length_less)
      ultimately show ?thesis
        using 2(1) right(1) by (simp add: read_string_def be16_bytes tag_defs read_bytes_short)
    qed
  qed
  then show "eof (read_string (pos pre p)) \<or>
      (\<exists>y \<in> set []. read_string (pos pre p) = Inr (y, pos (pre @ p) []))" ..
qed

interpretation bin_cut: cut_wire "\<lambda>bs buf. Inr (write_binary bs buf)" read_binary
  "\<lambda>bs. length bs < 2 ^ 31" "\<lambda>bs. bs" "\<lambda>bs. []"
proof
  fix pre and x :: bytes
  show "eof (read_binary (pos pre []))" by (simp add: read_binary_def)
  fix bs p assume len: "length x < 2 ^ 31"
    and w: "Inr (write_binary x []) = (Inr bs :: enc_error + bytes)" and p: "strict_prefix p bs"
  let ?hd = "[byte_of 24 (length x), byte_of 16 (length x), byte_of 8 (length x), byte_of 0 (length x)]"
  from w consider "length x < 256" "bs = [TAG_BINARY_8, word_of_nat (length x)] @ x"
    | "bs = (TAG_BINARY_32 # ?hd) @ x"
    by (auto simp: write_binary_def Let_def split: if_splits)
  then have "eof (read_binary (pos pre p))"
  proof cases
    case 1
    from p 1(2) have "strict_prefix p ([TAG_BINARY_8, word_of_nat (length x)] @ x)" by simp
    then show ?thesis
    proof (cases rule: strict_prefix_appendE)
      case left
      then have "p = [] \<or> p = [TAG_BINARY_8]" by (auto simp: strict_prefix_def prefix_Cons)
      then show ?thesis by (auto simp: read_binary_def)
    next
      case (right q)
      moreover have "uint (word_of_nat (length x) :: byte) = int (length x)"
        using 1(1) by (simp add: unsigned_of_nat take_bit_nat_eq_self)
      moreover have "length q < length x" using right(2) by (auto simp: prefix_length_less)
      ultimately show ?thesis by (simp add: read_binary_def read_bytes_short)
    qed
  next
    case 2
    with p have "strict_prefix p ((TAG_BINARY_32 # ?hd) @ x)" by simp
    then show ?thesis
    proof (cases rule: strict_prefix_appendE)
      case left
      then have "p = [] \<or> (\<exists>q. p = TAG_BINARY_32 # q \<and> length q < 4)"
        by (auto simp: strict_prefix_def prefix_Cons)
      then show ?thesis by (auto simp: read_binary_def tag_defs read_bytes_short)
    next
      case (right q)
      have "read_bytes 4 (pos (pre @ [TAG_BINARY_32]) (?hd @ q))
          = Inr (?hd, pos ((pre @ [TAG_BINARY_32]) @ ?hd) q)"
        by (rule read_bytes_pos) simp
      moreover have "length q < length x" using right(2) by (auto simp: prefix_length_less)
      ultimately show ?thesis
        using right(1) len by (simp add: read_binary_def be32_bytes tag_defs read_bytes_short)
    qed
  qed
  then show "eof (read_binary (pos pre p)) \<or>
      (\<exists>y \<in> set []. read_binary (pos pre p) = Inr (y, pos (pre @ p) []))" ..
qed

section \<open>Nodes\<close>

text \<open>
  What a node cut short can come back as: its content, or that of a node on the way to its
  last descendant, is missing.
\<close>

fun cut_ends :: "node \<Rightarrow> node list" where
  "cut_ends (Node t as c) =
     (case c of
        CBytes bs \<Rightarrow> [Node t as CUndefined]
      | CNodes ns \<Rightarrow> Node t as CUndefined #
          (if ns = [] then []
           else map (\<lambda>m. Node t as (CNodes (map normal (butlast ns) @ [m]))) (last (map cut_ends ns)))
      | _ \<Rightarrow> [])"

lemma read_attrs_cut:
  assumes "list_all (\<lambda>(k, v). codable k \<and> codable v) as" and "foldE write_attr as [] = Inr bs"
    and "strict_prefix p bs"
  shows "eof (read_attrs (length as) acc (pos pre p))"
  using assms
proof (induction as arbitrary: pre bs acc p)
  case Nil
  then show ?case by simp
next
  case (Cons kv as)
  obtain k v where kv: "kv = (k, v)" by (cases kv)
  from Cons.prems(2) kv obtain b1 b2 where w: "write_string k [] = Inr b1"
    "write_string v b1 = Inr b2" "foldE write_attr as b2 = Inr bs"
    by (auto simp: bind_simps)
  obtain b2' where b2: "write_string v [] = Inr b2'" "b2 = b1 @ b2'"
    using w(2) by (rule str.put_InrE)
  from appendsD [OF appends_write_attrs, of as b2] w(3)
  obtain b3 where b3: "foldE write_attr as [] = Inr b3" "bs = b2 @ b3"
    by (cases "foldE write_attr as []") auto
  have ok: "codable k" "codable v" "list_all (\<lambda>(k, v). codable k \<and> codable v) as"
    using Cons.prems(1) kv by auto
  have p: "strict_prefix p (b1 @ b2' @ b3)" using Cons.prems(3) b2(2) b3(2) by simp
  then show ?case
  proof (cases rule: strict_prefix_appendE)
    case left
    from str_cut.get_cut [OF ok(1) w(1) this, of pre] show ?thesis by (simp add: kv eof_bindE)
  next
    case (right q)
    have 1: "read_string (pos pre (b1 @ q)) = Inr (k, pos (pre @ b1) q)"
      by (rule str.get_put [OF ok(1) w(1)])
    from right(2) show ?thesis
    proof (cases rule: strict_prefix_appendE)
      case left
      from str_cut.get_cut [OF ok(2) b2(1) this, of "pre @ b1"] 1 right(1) show ?thesis
        by (simp add: kv eof_bindE)
    next
      case right': (right q')
      have 2: "read_string (pos (pre @ b1) (b2' @ q')) = Inr (v, pos ((pre @ b1) @ b2') q')"
        by (rule str.get_put [OF ok(2) b2(1)])
      have 3: "eof (read_attrs (length as) (obj_set k v acc) (pos ((pre @ b1) @ b2') q'))"
        by (rule Cons.IH [OF ok(3) b3(1) right'(2)])
      from 1 2 3 right(1) right'(1) show ?thesis by (simp add: kv)
    qed
  qed
qed

text \<open>The values a cut content is read as.\<close>

definition content_cuts :: "node_content \<Rightarrow> node_content list" where
  "content_cuts c =
     CUndefined # (case c of
         CNodes ns \<Rightarrow> if ns = [] then []
           else map (\<lambda>m. CNodes (map normal (butlast ns) @ [m])) (cut_ends (last ns))
       | _ \<Rightarrow> [])"

lemma cut_ends_content:
  "c \<noteq> CNull \<Longrightarrow> c \<noteq> CUndefined \<Longrightarrow> cut_ends (Node t as c) = map (Node t as) (content_cuts c)"
  by (cases c) (auto simp: content_cuts_def last_map)

lemma read_content_end: "read_content r (pos pre []) = Inr (CUndefined, pos pre [])"
  by (simp add: read_content_def)

lemma read_content_bytes_cut:
  assumes "length x < 2 ^ 31" and p: "strict_prefix p (write_binary x [])" and "p \<noteq> []"
  shows "eof (read_content r (pos pre p))"
proof -
  have "\<exists>t bs. write_binary x [] = t # bs \<and> (t = TAG_BINARY_8 \<or> t = TAG_BINARY_32)"
    by (simp add: write_binary_def Let_def)
  then obtain t q where t: "p = t # q" "t = TAG_BINARY_8 \<or> t = TAG_BINARY_32"
    using p \<open>p \<noteq> []\<close> by (cases p) (auto simp: strict_prefix_def)
  from bin_cut.get_cut [OF assms(1) refl p, of pre] t show ?thesis
    by (auto simp: read_content_def tag_defs eof_bindE)
qed

lemma read_content_nodes_cut:
  assumes wire: "cut_wire write_node r ok normal cut_ends"
    and ok: "\<forall>n \<in> set ns. ok n" and h: "write_list_header (length ns) [] = Inr h"
    and k: "foldE write_node ns [] = Inr k" and p: "strict_prefix p (h @ k)" and "p \<noteq> []"
  shows "eof (read_content r (pos pre p)) \<or>
    (\<exists>c' \<in> set (content_cuts (CNodes ns)). read_content r (pos pre p) = Inr (c', pos (pre @ p) []))"
proof -
  have "\<exists>t bs. h = t # bs \<and> (t = TAG_LIST_EMPTY \<or> t = TAG_LIST_8 \<or> t = TAG_LIST_16)"
    using h by (auto simp: write_list_header_def split: if_splits)
  then obtain t bs where t: "h = t # bs" "t = TAG_LIST_EMPTY \<or> t = TAG_LIST_8 \<or> t = TAG_LIST_16"
    by blast
  obtain q where q: "p = t # q" using p t(1) \<open>p \<noteq> []\<close> by (cases p) (auto simp: strict_prefix_def)
  have rc: "read_content r (pos pre p) = bindE (read_list_size (pos pre p)) (\<lambda>(count, d).
      bindE (repeatE (case count of None \<Rightarrow> 0 | Some k \<Rightarrow> k) r d) (\<lambda>(ns, d). Inr (CNodes ns, d)))"
    using t(2) by (auto simp: read_content_def q)
  from p show ?thesis
  proof (cases rule: strict_prefix_appendE)
    case left
    from header_cut.get_cut [OF TrueI h this, of pre] show ?thesis unfolding rc by (simp add: eof_bindE)
  next
    case (right q')
    have "ns \<noteq> []" using right(2) k by auto
    have "read_list_size (pos pre (h @ q')) = Inr (Some (length ns), pos (pre @ h) q')"
      by (rule header.get_put [OF TrueI h])
    moreover have "eof (repeatE (length ns) r (pos (pre @ h) q')) \<or>
        (\<exists>y \<in> set (cut_ends (last ns)). repeatE (length ns) r (pos (pre @ h) q')
           = Inr (map normal (butlast ns) @ [y], pos ((pre @ h) @ q') []))"
      using ok k right(2) by (rule cut_wire.get_cut_list [OF wire])
    ultimately show ?thesis
      unfolding rc using right(1) \<open>ns \<noteq> []\<close> by (auto simp: eof_bindE content_cuts_def)
  qed
qed

lemma read_content_cut:
  assumes wire: "cut_wire write_node r ok normal cut_ends"
    and ok: "case c of CBytes x \<Rightarrow> length x < 2 ^ 31 | CNodes ns \<Rightarrow> \<forall>n \<in> set ns. ok n | _ \<Rightarrow> False"
    and w: "write_content c [] = Inr bc" and p: "strict_prefix p bc"
  shows "eof (read_content r (pos pre p)) \<or>
    (\<exists>c' \<in> set (content_cuts c). read_content r (pos pre p) = Inr (c', pos (pre @ p) []))"
proof (cases "p = []")
  case True
  then show ?thesis by (simp add: read_content_end content_cuts_def)
next
  case False
  show ?thesis
  proof (cases c)
    case (CBytes x)
    with w have "bc = write_binary x []" by (simp add: write_content_simps)
    with p ok CBytes False show ?thesis by (simp add: read_content_bytes_cut)
  next
    case (CNodes ns)
    have wf: "wire_format write_node r ok normal" using wire by (rule cut_wire.axioms)
    from w CNodes obtain h where h: "write_list_header (length ns) [] = Inr h" and
      f: "foldE write_node ns h = Inr bc" by (auto simp: write_content_simps bind_simps)
    obtain k where k: "foldE write_node ns [] = Inr k" "bc = h @ k"
      using f by (rule wire_format.put_list_InrE [OF wf])
    from p k(2) have "strict_prefix p (h @ k)" by simp
    from read_content_nodes_cut [OF wire _ h k(1) this False, of pre] ok CNodes show ?thesis by simp
  qed (use ok in auto)
qed

lemma read_node_cut:
  assumes wire: "cut_wire write_node (read_node s) (\<lambda>n. node_ok n \<and> node_depth n \<le> s) normal cut_ends"
    and ok: "node_ok n" "node_depth n \<le> Suc s" and w: "write_node n [] = Inr bs"
    and p: "strict_prefix p bs"
  shows "eof (read_node (Suc s) (pos pre p)) \<or>
    (\<exists>n' \<in> set (cut_ends n). read_node (Suc s) (pos pre p) = Inr (n', pos (pre @ p) []))"
proof -
  obtain t as c where n: "n = Node t as c" by (cases n)
  obtain h bt ba bc where parts:
    "write_list_header (1 + length as * 2 + (if c \<noteq> CNull \<and> c \<noteq> CUndefined then 1 else 0)) [] = Inr h"
    "write_string t [] = Inr bt" "foldE write_attr as [] = Inr ba"
    and bc: "write_content c [] = Inr bc" and bs: "bs = h @ bt @ ba @ bc"
    using w unfolding n by (rule write_node_InrE)
  have ok': "codable t" "obj_ok as" "list_all (\<lambda>(k, v). codable k \<and> codable v) as"
    using ok(1) by (simp_all add: n)
  let ?n = "1 + length as * 2 + (if c \<noteq> CNull \<and> c \<noteq> CUndefined then 1 else 0)"
  from p bs consider "strict_prefix p h" | q where "p = h @ q" "strict_prefix q bt"
    | q where "p = h @ bt @ q" "strict_prefix q ba" | q where "p = h @ bt @ ba @ q" "strict_prefix q bc"
    by (auto elim!: strict_prefix_appendE)
  then show ?thesis
  proof cases
    case 1
    from header_cut.get_cut [OF TrueI parts(1) this, of pre] show ?thesis
      by (simp add: read_node_Suc eof_bindE)
  next
    case (2 q)
    have "read_list_size (pos pre (h @ q)) = Inr (Some ?n, pos (pre @ h) q)"
      by (rule header.get_put [OF TrueI parts(1)])
    with str_cut.get_cut [OF ok'(1) parts(2) 2(2), of "pre @ h"] 2(1) show ?thesis
      by (simp add: read_node_Suc eof_bindE)
  next
    case (3 q)
    have 1: "read_list_size (pos pre (h @ bt @ q)) = Inr (Some ?n, pos (pre @ h) (bt @ q))"
      by (rule header.get_put [OF TrueI parts(1)])
    have 2: "read_string (pos (pre @ h) (bt @ q)) = Inr (t, pos ((pre @ h) @ bt) q)"
      by (rule str.get_put [OF ok'(1) parts(2)])
    have "(?n - 1) div 2 = length as" by simp
    with 1 2 read_attrs_cut [OF ok'(3) parts(3) 3(2), of "[]" "(pre @ h) @ bt"] 3(1) show ?thesis
      by (simp add: read_node_Suc eof_bindE)
  next
    case (4 q)
    then have c: "c \<noteq> CNull \<and> c \<noteq> CUndefined" using bc by (auto simp: write_content_simps)
    with ok node_ok_content [of t as c s] have "case c of CBytes x \<Rightarrow> length x < 2 ^ 31
      | CNodes ns \<Rightarrow> \<forall>n \<in> set ns. node_ok n \<and> node_depth n \<le> s | _ \<Rightarrow> False" by (simp add: n)
    from read_content_cut [OF wire this bc 4(2), of "pre @ h @ bt @ ba"] c
      read_node_header [OF ok' parts, of s pre q]
    show ?thesis
      by (auto simp: 4(1) n cut_ends_content eof_bindE simp del: read_node.simps cut_ends.simps)
  qed
qed

lemma cut_wire_node:
  "cut_wire write_node (read_node s) (\<lambda>n. node_ok n \<and> node_depth n \<le> s) normal cut_ends"
proof (induction s)
  case 0
  show ?case
    by (intro cut_wire.intro wire_node cut_wire_axioms.intro)
      (auto simp: node_depth_pos [THEN less_not_refl2])
next
  case (Suc s)
  show ?case
  proof (intro cut_wire.intro wire_node cut_wire_axioms.intro)
    show "eof (read_node (Suc s) (pos pre []))" for pre
      by (simp add: read_node_Suc read_list_size_def)
  qed (use read_node_cut [OF Suc] in \<open>auto simp del: read_node.simps cut_ends.simps\<close>)
qed

interpretation tree_cut: cut_wire write_node "read_node s"
  "\<lambda>n. node_ok n \<and> node_depth n \<le> s" normal cut_ends for s
  by (rule cut_wire_node)

lemma decode_pos: "decode s bs = map_sum id fst (read_node s (pos [] bs))"
  by (simp add: decode_def pos_def)

text \<open>
  C9. An encoded node cut short anywhere is rejected with an end-of-file error, or decodes
  to a node without the content of itself or of a node on the way to its last descendant
  (the list \<open>cut_ends\<close>); nothing else can come back.
\<close>

theorem decode_truncated:
  assumes "node_ok n" and "node_depth n \<le> s" and "encode n = Inr bs" and "k < length bs"
  shows "decode s (take k bs) \<in> {Inl EofByte, Inl EofSlice} \<union> Inr ` set (cut_ends n)"
proof -
  have "strict_prefix (take k bs) bs"
    using assms(4) by (auto simp: strict_prefix_def take_is_prefix)
  with assms have "eof (read_node s (pos [] (take k bs))) \<or>
      (\<exists>n' \<in> set (cut_ends n). read_node s (pos [] (take k bs)) = Inr (n', pos (take k bs) []))"
    using tree_cut.get_cut [of n s bs "take k bs" "[]"] by (simp add: encode_def)
  then show ?thesis by (auto simp: decode_pos eof_def simp del: cut_ends.simps)
qed

theorem decode_truncated_witness:
  "decode 2 (take 27 [1, 6, 6, 46, 5, 0, 1, 55, 5, 0, 1, 120, 6, 4, 6, 23, 1, 2, 1, 1, 6, 47, 1, 2,
       5, 0, 1, 97, 3, 3, 1, 2, 3]) \<in> {Inl EofByte, Inl EofSlice} \<union> Inr ` set (cut_ends sample_node)"
proof (rule decode_truncated [OF _ _ encode_sample_node])
  show "node_ok sample_node" by code_simp
  show "node_depth sample_node \<le> 2" by code_simp
qed simp

text \<open>
  The content of a node is optional when the buffer ends: an encoded node with a byte
  content, cut right before that content, is accepted and comes back without it.
\<close>

theorem decode_accepts_cut_content:
  assumes "node_ok (Node t as (CBytes x))" and "encode (Node t as (CBytes x)) = Inr bs"
  shows "decode (Suc s) (take (length bs - length (write_binary x [])) bs) = Inr (Node t as CUndefined)"
proof -
  obtain h bt ba bc where parts: "write_list_header (1 + length as * 2 +
        (if CBytes x \<noteq> CNull \<and> CBytes x \<noteq> CUndefined then 1 else 0)) [] = Inr h"
    "write_string t [] = Inr bt" "foldE write_attr as [] = Inr ba"
    and bc: "write_content (CBytes x) [] = Inr bc" and bs: "bs = h @ bt @ ba @ bc"
    using assms(2) unfolding encode_def by (rule write_node_InrE)
  have "take (length bs - length (write_binary x [])) bs = h @ bt @ ba"
    using bc by (simp add: bs write_content_simps)
  with read_node_header [OF _ _ _ parts, of s "[]" "[]"] assms(1) show ?thesis
    by (simp add: decode_pos read_content_end del: read_node.simps)
qed

theorem decode_accepts_cut_content_witness:
  "decode (Suc 0) (take (11 - 5) [1, 2, 5, 0, 1, 97, 3, 3, 1, 2, 3]) = Inr (Node (js ''a'') [] CUndefined)"
proof -
  have te: "text_encode (js ''a'') = [97]" by code_simp
  have bo: "byte_of 0 (Suc 0) = 1" "byte_of 8 (Suc 0) = 0" by code_simp+
  have "encode (Node (js ''a'') [] (CBytes [1, 2, 3])) = Inr [1, 2, 5, 0, 1, 97, 3, 3, 1, 2, 3]"
    by (simp add: encode_def write_string_def token_eval te bo write_list_header_def
        write_binary_def Let_def tag_defs)
  moreover have "node_ok (Node (js ''a'') [] (CBytes [1, 2, 3]))" by code_simp
  moreover have "length (write_binary [1, 2, 3] []) = 5" by (simp add: write_binary_def)
  ultimately show ?thesis
    using decode_accepts_cut_content [of "js ''a''" "[]" "[1, 2, 3]" "[1, 2, 5, 0, 1, 97, 3, 3, 1, 2, 3]" 0]
    by simp
qed

end
