(* ===== verification/Jid.thy ===== *)
theory Jid
  imports Js_Number
begin

text \<open>
  Addresses (\<^verbatim>\<open>packages/wazeko-types/src/jid.ts\<close>): the record \<open>jid\<close> is the interface
  \<^verbatim>\<open>Jid\<close>, \<open>None\<close> the \<^verbatim>\<open>undefined\<close> of an optional number, and \<open>jid_error\<close> the two errors of
  \<^verbatim>\<open>parseJid\<close>. The results are when parsing fails and that printing and parsing are
  inverse to each other, both ways, for agent and device numbers below $2^{53}$.
\<close>

record jid =
  user :: jstr
  server :: jstr
  agent :: "jsnum option"
  device :: "jsnum option"

datatype jid_error = EmptyJid | InvalidJid jstr

definition jid_user :: "jstr \<Rightarrow> jid" where
  "jid_user phoneNumber =
     \<lparr>user = filter is_digit phoneNumber, server = js ''s.whatsapp.net'', agent = None, device = None\<rparr>"

definition jid_group :: "jstr \<Rightarrow> jid" where
  "jid_group groupId = \<lparr>user = groupId, server = js ''g.us'', agent = None, device = None\<rparr>"

definition jid_to_string :: "jid \<Rightarrow> jstr" where
  "jid_to_string j =
     (let u = user j;
          u = (case agent j of None \<Rightarrow> u | Some a \<Rightarrow> u @ js ''_'' @ num_to_js a);
          u = (case device j of None \<Rightarrow> u | Some d \<Rightarrow> u @ js '':'' @ num_to_js d)
      in u @ js ''@'' @ server j)"

text \<open>The two blocks that split a number off the user part, at \<^verbatim>\<open>:\<close> and at \<^verbatim>\<open>_\<close>.\<close>

definition split_number :: "cunit \<Rightarrow> jstr \<Rightarrow> jstr \<times> jsnum option" where
  "split_number sep userPart =
     (if sep \<in> set userPart then
        let ps = split_on sep userPart in (ps ! 0, parse_int (ps ! 1))
      else (userPart, None))"

definition parse_jid :: "jstr \<Rightarrow> jid_error + jid" where
  "parse_jid jidString =
     (let trimmed = trim jidString
      in if trimmed = [] then Inl EmptyJid
         else let parts = split_on (cu CHR ''@'') trimmed
           in if length parts \<noteq> 2 then Inl (InvalidJid jidString)
              else let (u, dev) = split_number (cu CHR '':'') (parts ! 0);
                       (u, ag) = split_number (cu CHR ''_'') u
                in Inr \<lparr>user = u, server = parts ! 1, agent = ag, device = dev\<rparr>)"

text \<open>The predicates take a JID or a string, and parse a string.\<close>

definition is_jid_group :: "jid + jstr \<Rightarrow> jid_error + bool" where
  "is_jid_group j =
     bindE (case j of Inl j \<Rightarrow> Inr j | Inr s \<Rightarrow> parse_jid s) (\<lambda>p. Inr (server p = js ''g.us''))"

definition is_jid_user :: "jid + jstr \<Rightarrow> jid_error + bool" where
  "is_jid_user j =
     bindE (case j of Inl j \<Rightarrow> Inr j | Inr s \<Rightarrow> parse_jid s)
       (\<lambda>p. Inr (server p = js ''s.whatsapp.net''))"

section \<open>Printing, then parsing\<close>

text \<open>
  What the text form can carry: no separator in the parts, no white space at either end,
  numbers that print as plain digits.
\<close>

definition num_ok :: "jsnum option \<Rightarrow> bool" where
  "num_ok x = (case x of None \<Rightarrow> True | Some (Fin n) \<Rightarrow> safe_int n | Some _ \<Rightarrow> False)"

definition jid_ok :: "jid \<Rightarrow> bool" where
  "jid_ok j =
     (cu CHR ''@'' \<notin> set (user j) \<and> cu CHR '':'' \<notin> set (user j) \<and> cu CHR ''_'' \<notin> set (user j) \<and>
      cu CHR ''@'' \<notin> set (server j) \<and> (user j \<noteq> [] \<longrightarrow> \<not> is_space (hd (user j))) \<and>
      (server j \<noteq> [] \<longrightarrow> \<not> is_space (last (server j))) \<and> num_ok (agent j) \<and> num_ok (device j))"

text \<open>One optional number after its separator.\<close>

definition tagged :: "cunit \<Rightarrow> jsnum option \<Rightarrow> jstr" where
  "tagged sep x = (case x of None \<Rightarrow> [] | Some n \<Rightarrow> sep # num_to_js n)"

lemma jid_to_string_tagged:
  "jid_to_string j =
     (user j @ tagged (cu CHR ''_'') (agent j) @ tagged (cu CHR '':'') (device j))
       @ cu CHR ''@'' # server j"
  by (simp add: jid_to_string_def tagged_def Let_def js_def split: option.split)

lemma num_ok_chars:
  assumes "num_ok (Some n)" and "c \<in> set (num_to_js n)"
  shows "is_digit c \<or> c = cu CHR ''-''"
  using assms num_to_js_chars by (cases n) (auto simp: num_ok_def simp del: num_to_js.simps)

lemma sep_not_number:
  assumes "num_ok (Some n)" and "sep \<in> {cu CHR ''@'', cu CHR '':'', cu CHR ''_''}"
  shows "sep \<notin> set (num_to_js n)"
proof
  assume "sep \<in> set (num_to_js n)"
  with num_ok_chars [OF assms(1)] have "is_digit sep \<or> sep = cu CHR ''-''" by blast
  then show False using assms(2) by (auto simp: is_digit_def cu_def)
qed

lemma sep_not_tagged:
  assumes "num_ok x" and "sep \<in> {cu CHR ''@'', cu CHR '':'', cu CHR ''_''}" and "sep \<noteq> sep'"
  shows "sep \<notin> set (tagged sep' x)"
  using assms sep_not_number by (cases x) (auto simp: tagged_def)

lemma split_number_tagged:
  assumes "sep \<notin> set u" and "num_ok x" and "sep \<in> {cu CHR ''@'', cu CHR '':'', cu CHR ''_''}"
  shows "split_number sep (u @ tagged sep x) = (u, x)"
proof (cases x)
  case None
  with assms show ?thesis by (simp add: split_number_def tagged_def)
next
  case (Some n)
  then obtain k where k: "n = Fin k" "safe_int k"
    using assms(2) by (auto simp: num_ok_def split: jsnum.splits)
  have "sep \<notin> set (num_to_js n)" using assms(2,3) Some by (intro sep_not_number) simp_all
  then have "split_on sep (u @ tagged sep x) = [u, num_to_js n]"
    using assms(1) by (simp add: tagged_def Some split_on_append split_on_no_sep)
  then show ?thesis
    using k parse_int_print [OF k(2)]
    by (simp add: split_number_def tagged_def Some Let_def del: num_to_js.simps)
qed

lemma tagged_hd: "tagged sep x \<noteq> [] \<Longrightarrow> hd (tagged sep x) = sep"
  by (auto simp: tagged_def split: option.splits)

lemma trim_jid_to_string:
  assumes "jid_ok j"
  shows "trim (jid_to_string j) = jid_to_string j"
proof (rule trim_id)
  have sp: "\<not> is_space (cu CHR ''@'')" "\<not> is_space (cu CHR ''_'')" "\<not> is_space (cu CHR '':'')"
    by (simp_all add: is_space_def cu_def)
  show "\<not> is_space (hd (jid_to_string j))"
    using assms sp tagged_hd [of "cu CHR ''_''" "agent j"] tagged_hd [of "cu CHR '':''" "device j"]
    by (auto simp: jid_to_string_tagged jid_ok_def hd_append)
  show "\<not> is_space (last (jid_to_string j))"
    using assms sp by (auto simp: jid_to_string_tagged jid_ok_def)
qed

lemma parse_jid_to_string:
  assumes "jid_ok j"
  shows "parse_jid (jid_to_string j) = Inr j"
proof -
  let ?ag = "tagged (cu CHR ''_'') (agent j)" and ?dev = "tagged (cu CHR '':'') (device j)"
  have ok: "num_ok (agent j)" "num_ok (device j)" using assms by (auto simp: jid_ok_def)
  have "cu CHR ''@'' \<notin> set (user j @ ?ag @ ?dev)"
    using assms ok sep_not_tagged by (auto simp: jid_ok_def)
  then have parts: "split_on (cu CHR ''@'') (jid_to_string j) = [user j @ ?ag @ ?dev, server j]"
    using assms unfolding jid_to_string_tagged
    by (subst split_on_append) (auto simp: split_on_no_sep jid_ok_def)
  have "split_number (cu CHR '':'') ((user j @ ?ag) @ ?dev) = (user j @ ?ag, device j)"
    using assms ok sep_not_tagged by (intro split_number_tagged) (auto simp: jid_ok_def)
  moreover have "split_number (cu CHR ''_'') (user j @ ?ag) = (user j, agent j)"
    using assms ok by (intro split_number_tagged) (auto simp: jid_ok_def)
  moreover have "jid_to_string j \<noteq> []" by (simp add: jid_to_string_tagged)
  ultimately show ?thesis
    by (simp add: parse_jid_def trim_jid_to_string [OF assms] parts)
qed

text \<open>
  Parsing what \<^verbatim>\<open>jidToString\<close> prints gives the JID back, for every JID the text
  form can carry; the predicates answer the same on the string as on the JID.
\<close>

theorem jid_print_parse:
  assumes "jid_ok j"
  shows "parse_jid (jid_to_string j) = Inr j \<and>
    is_jid_group (Inr (jid_to_string j)) = is_jid_group (Inl j) \<and>
    is_jid_user (Inr (jid_to_string j)) = is_jid_user (Inl j)"
  by (simp_all add: is_jid_group_def is_jid_user_def parse_jid_to_string [OF assms])

theorem jid_print_parse_witness:
  "parse_jid (js ''628123456789_2:4@s.whatsapp.net'') =
     Inr \<lparr>user = js ''628123456789'', server = js ''s.whatsapp.net'', agent = Some (Fin 2),
          device = Some (Fin 4)\<rparr>"
proof -
  let ?j = "\<lparr>user = js ''628123456789'', server = js ''s.whatsapp.net'', agent = Some (Fin 2),
          device = Some (Fin 4)\<rparr>"
  have "jid_to_string ?j = js ''628123456789_2:4@s.whatsapp.net''" by code_simp
  moreover have "jid_ok ?j" by code_simp
  ultimately show ?thesis using jid_print_parse [of ?j] by simp
qed

section \<open>Parsing, then printing\<close>

lemma split_on_two:
  "split_on sep s = [a, b] \<Longrightarrow> s = a @ sep # b"
proof (induction s arbitrary: a)
  case Nil
  then show ?case by simp
next
  case (Cons c s)
  show ?case
  proof (cases "c = sep")
    case True
    have "s = b" if "split_on sep s = [b]"
      using that
    proof (induction s arbitrary: b)
      case (Cons c s)
      then show ?case by (auto split: if_splits list.splits)
    qed simp
    with True Cons.prems show ?thesis by simp
  next
    case False
    with Cons show ?thesis by (auto split: list.splits)
  qed
qed

lemma parse_jid_InrE:
  assumes "parse_jid s = Inr j"
  obtains a where "trim s = a @ cu CHR ''@'' # server j" and "cu CHR ''@'' \<notin> set a"
    and "cu CHR ''@'' \<notin> set (server j)"
    and "split_number (cu CHR ''_'') (fst (split_number (cu CHR '':'') a)) = (user j, agent j)"
    and "snd (split_number (cu CHR '':'') a) = device j"
proof -
  let ?parts = "split_on (cu CHR ''@'') (trim s)"
  have "length ?parts = 2" using assms by (auto simp: parse_jid_def Let_def split: if_splits)
  then obtain a b where ab: "?parts = [a, b]" by (auto simp: length_Suc_conv numeral_2_eq_2)
  have "b = server j" using assms ab by (auto simp: parse_jid_def Let_def split: if_splits prod.splits)
  moreover have "cu CHR ''@'' \<notin> set a" "cu CHR ''@'' \<notin> set b"
    using split_on_pieces [of _ "cu CHR ''@''" "trim s"] ab by auto
  moreover have "split_number (cu CHR ''_'') (fst (split_number (cu CHR '':'') a)) = (user j, agent j)
      \<and> snd (split_number (cu CHR '':'') a) = device j"
    using assms ab by (auto simp: parse_jid_def Let_def split: if_splits prod.splits)
  ultimately show ?thesis using that split_on_two [OF ab] by blast
qed

lemma fst_split_number: "fst (split_number sep u) = takeWhile (\<lambda>c. c \<noteq> sep) u"
proof (cases "sep \<in> set u")
  case True
  then show ?thesis
    using split_on_hd [of sep u] by (simp add: split_number_def Let_def hd_conv_nth)
next
  case False
  then have "takeWhile (\<lambda>c. c \<noteq> sep) u = u" by (auto simp: takeWhile_eq_all_conv)
  with False show ?thesis by (metis split_number_def fst_conv)
qed

lemma parsed_jid_ok:
  assumes "parse_jid s = Inr j" and "num_ok (agent j)" and "num_ok (device j)"
  shows "jid_ok j"
proof -
  from assms(1) obtain a where t: "trim s = a @ cu CHR ''@'' # server j" and at: "cu CHR ''@'' \<notin> set a"
    "cu CHR ''@'' \<notin> set (server j)"
    and u: "split_number (cu CHR ''_'') (fst (split_number (cu CHR '':'') a)) = (user j, agent j)"
    by (rule parse_jid_InrE)
  have user: "user j = takeWhile (\<lambda>c. c \<noteq> cu CHR ''_'') (takeWhile (\<lambda>c. c \<noteq> cu CHR '':'') a)"
    using arg_cong [OF u, of fst] by (simp add: fst_split_number)
  have sub: "set (user j) \<subseteq> set a" "cu CHR '':'' \<notin> set (user j)" "cu CHR ''_'' \<notin> set (user j)"
    unfolding user by (auto dest!: set_takeWhileD)
  have "\<not> is_space (hd (user j))" if "user j \<noteq> []"
  proof -
    have "hd (user j) = hd a" using that unfolding user by (cases a) (auto split: if_splits)
    moreover have "a \<noteq> []" using that sub(1) by auto
    ultimately show ?thesis using trim_hd [of s] t by (simp add: hd_append)
  qed
  moreover have "\<not> is_space (last (server j))" if "server j \<noteq> []"
    using trim_last [of s] t that by simp
  ultimately show ?thesis
    using at sub assms(2,3) unfolding jid_ok_def by auto
qed

text \<open>
  A parsed JID is stable: printing it and parsing again gives the same JID, as long
  as its agent and device number print as plain digits.
\<close>

theorem jid_parse_print:
  assumes "parse_jid s = Inr j" and "num_ok (agent j)" and "num_ok (device j)"
  shows "parse_jid (jid_to_string j) = Inr j"
  using parsed_jid_ok [OF assms] by (rule parse_jid_to_string)

theorem jid_parse_print_witness:
  "parse_jid (js '' 12:x_3@lid '') = Inr \<lparr>user = js ''12'', server = js ''lid'', agent = None, device = None\<rparr>
   \<and> parse_jid (js ''12@lid'') = Inr \<lparr>user = js ''12'', server = js ''lid'', agent = None, device = None\<rparr>"
proof -
  let ?j = "\<lparr>user = js ''12'', server = js ''lid'', agent = None, device = None\<rparr>"
  have 1: "parse_jid (js '' 12:x_3@lid '') = Inr ?j" by code_simp
  have "jid_to_string ?j = js ''12@lid''" by code_simp
  with 1 jid_parse_print [OF 1] show ?thesis by (simp add: num_ok_def)
qed

text \<open>
  \<^verbatim>\<open>parseJid\<close> rejects exactly the strings that are blank and those without exactly one
  \<^verbatim>\<open>@\<close>, and both predicates throw on exactly these strings.
\<close>

theorem parse_jid_errors:
  "(parse_jid s = Inl EmptyJid \<longleftrightarrow> trim s = []) \<and>
   (parse_jid s = Inl (InvalidJid s') \<longleftrightarrow>
      s' = s \<and> trim s \<noteq> [] \<and> count_list (trim s) (cu CHR ''@'') \<noteq> 1) \<and>
   (is_jid_group (Inr s) = Inl e \<longleftrightarrow> parse_jid s = Inl e) \<and>
   (is_jid_user (Inr s) = Inl e \<longleftrightarrow> parse_jid s = Inl e)"
  by (auto simp: parse_jid_def is_jid_group_def is_jid_user_def bindE_Inl_iff Let_def
      length_split_on split: prod.splits)

text \<open>
  \<^verbatim>\<open>jidUser\<close> keeps the digits of a phone number and nothing else, so its result always
  survives printing and parsing and is a user JID.
\<close>

theorem jid_user_printable:
  "list_all is_digit (user (jid_user p)) \<and> parse_jid (jid_to_string (jid_user p)) = Inr (jid_user p)
   \<and> is_jid_user (Inr (jid_to_string (jid_user p))) = Inr True"
proof -
  have d: "\<not> is_digit (cu CHR ''@'')" "\<not> is_digit (cu CHR '':'')" "\<not> is_digit (cu CHR ''_'')"
    by (simp_all add: is_digit_def cu_def)
  have "is_digit (hd (filter is_digit p))" if "filter is_digit p \<noteq> []"
    using hd_in_set [OF that] by simp
  moreover have "cu CHR ''@'' \<notin> set (js ''s.whatsapp.net'')" "\<not> is_space (last (js ''s.whatsapp.net''))"
    by code_simp+
  ultimately have "jid_ok (jid_user p)"
    using d is_digit_facts(1) by (auto simp: jid_ok_def jid_user_def num_ok_def)
  then show ?thesis
    by (simp add: parse_jid_to_string is_jid_user_def) (simp add: jid_user_def list_all_iff)
qed

end
