(* ===== verification/Reconnect.thy ===== *)
theory Reconnect
  imports Complex_Main Prelude
begin

text \<open>
  The reconnection backoff (\<^verbatim>\<open>packages/wazeko-transport/src/reconnect.ts\<close>). Intervals and
  the multiplier are exact rationals; the code's doubles agree with them as long as the
  products are representable, as with the default configuration. The result is the whole
  schedule of delays between two resets.
\<close>

record backoff_config =
  initial_interval_ms :: rat
  max_interval_ms :: rat
  multiplier :: rat
  max_retries :: "rat option"

definition DEFAULT_BACKOFF_CONFIG :: backoff_config where
  "DEFAULT_BACKOFF_CONFIG =
     \<lparr>initial_interval_ms = 1000, max_interval_ms = 30000, multiplier = 3 / 2, max_retries = None\<rparr>"

record reconnect =
  config :: backoff_config
  current_attempt :: nat
  current_interval_ms :: rat

definition new_reconnect :: "backoff_config \<Rightarrow> reconnect" where
  "new_reconnect c = \<lparr>config = c, current_attempt = 0, current_interval_ms = initial_interval_ms c\<rparr>"

definition reset_reconnect :: "reconnect \<Rightarrow> reconnect" where
  "reset_reconnect r =
     r\<lparr>current_attempt := 0, current_interval_ms := initial_interval_ms (config r)\<rparr>"

definition should_retry :: "reconnect \<Rightarrow> bool" where
  "should_retry r =
     (case max_retries (config r) of None \<Rightarrow> True | Some m \<Rightarrow> of_nat (current_attempt r) < m)"

definition next_delay_ms :: "reconnect \<Rightarrow> rat option \<times> reconnect" where
  "next_delay_ms r =
     (if \<not> should_retry r then (None, r)
      else (Some (current_interval_ms r),
            r\<lparr>current_attempt := current_attempt r + 1,
              current_interval_ms := min (current_interval_ms r * multiplier (config r))
                (max_interval_ms (config r))\<rparr>))"

definition attempt :: "reconnect \<Rightarrow> nat" where
  "attempt r = current_attempt r"

section \<open>The schedule\<close>

text \<open>What \<open>n\<close> calls in a row return.\<close>

fun delays :: "nat \<Rightarrow> reconnect \<Rightarrow> rat option list" where
  "delays 0 r = []"
| "delays (Suc n) r = (let (d, r) = next_delay_ms r in d # delays n r)"

definition allowed :: "backoff_config \<Rightarrow> nat \<Rightarrow> bool" where
  "allowed c k = (case max_retries c of None \<Rightarrow> True | Some m \<Rightarrow> of_nat k < m)"

definition scheduled :: "backoff_config \<Rightarrow> nat \<Rightarrow> rat" where
  "scheduled c k =
     (if k = 0 then initial_interval_ms c
      else min (initial_interval_ms c * multiplier c ^ k) (max_interval_ms c))"

lemma allowed_mono: "allowed c (Suc k) \<Longrightarrow> allowed c k"
  by (auto simp: allowed_def split: option.splits)

lemma scheduled_step:
  assumes "0 \<le> max_interval_ms c" and "1 \<le> multiplier c"
  shows "min (scheduled c k * multiplier c) (max_interval_ms c) = scheduled c (Suc k)"
proof (cases "k = 0")
  case True
  then show ?thesis by (simp add: scheduled_def)
next
  case False
  let ?m = "max_interval_ms c" and ?y = "initial_interval_ms c * multiplier c ^ Suc k"
  have "?m \<le> ?m * multiplier c" using assms mult_left_mono [of 1 "multiplier c" ?m] by simp
  then have "min (min ?y (?m * multiplier c)) ?m = min ?y ?m" by (auto simp: min_def)
  moreover have "scheduled c k * multiplier c = min ?y (?m * multiplier c)"
    using assms(2) False
    by (simp add: scheduled_def min_mult_distrib_left mult.left_commute mult.commute [of _ "multiplier c"])
  ultimately show ?thesis by (simp add: scheduled_def)
qed

lemma not_allowed_later: "\<not> allowed c k \<Longrightarrow> k \<le> j \<Longrightarrow> \<not> allowed c j"
  by (auto simp: allowed_def split: option.splits)

lemma delays_exhausted:
  "\<not> allowed (config r) (current_attempt r) \<Longrightarrow> delays n r = replicate n None"
  by (induction n) (simp_all add: next_delay_ms_def should_retry_def allowed_def split: option.splits)

lemma delays_from:
  assumes "0 \<le> max_interval_ms (config r)" and "1 \<le> multiplier (config r)"
    and "current_interval_ms r = scheduled (config r) (current_attempt r)"
  shows "delays n r = map (\<lambda>k. if allowed (config r) k then Some (scheduled (config r) k) else None)
    [current_attempt r ..< current_attempt r + n]"
  using assms
proof (induction n arbitrary: r)
  case 0
  then show ?case by simp
next
  case (Suc n)
  let ?k = "current_attempt r"
  show ?case
  proof (cases "allowed (config r) ?k")
    case True
    define r' where "r' = r\<lparr>current_attempt := Suc ?k,
      current_interval_ms := scheduled (config r) (Suc ?k)\<rparr>"
    have "next_delay_ms r = (Some (scheduled (config r) ?k), r')"
      using True Suc.prems scheduled_step [of "config r" ?k]
      by (simp add: next_delay_ms_def should_retry_def allowed_def r'_def)
    moreover have "delays n r' = map (\<lambda>k. if allowed (config r) k then Some (scheduled (config r) k)
        else None) [Suc ?k ..< Suc ?k + n]"
      using Suc.IH [of r'] Suc.prems by (simp add: r'_def)
    moreover have "[?k ..< ?k + Suc n] = ?k # [Suc ?k ..< Suc ?k + n]"
      by (simp add: upt_conv_Cons)
    ultimately show ?thesis using True by simp
  next
    case False
    have "map (\<lambda>k. if allowed (config r) k then Some (scheduled (config r) k) else None)
        [?k ..< ?k + Suc n] = map (\<lambda>k. None) [?k ..< ?k + Suc n]"
      using not_allowed_later [OF False] by (intro map_cong) auto
    then show ?thesis using delays_exhausted [OF False, of "Suc n"] by (simp only: map_replicate_const) simp
  qed
qed

text \<open>
  After a reset, the calls give the initial interval, then the interval grown by the
  multiplier and capped at the maximum, for exactly the configured number of retries, and
  \<^verbatim>\<open>null\<close> from then on, whatever was called before the reset.
\<close>

theorem reconnect_schedule:
  assumes "0 \<le> max_interval_ms (config r)" and "1 \<le> multiplier (config r)"
  shows "delays n (reset_reconnect r) =
    map (\<lambda>k. if allowed (config r) k then Some (scheduled (config r) k) else None) [0..<n]"
  using delays_from [of "reset_reconnect r" n] assms
  by (simp add: reset_reconnect_def scheduled_def)

text \<open>The configuration of the repository's own test.\<close>

theorem reconnect_schedule_witness:
  "delays 5 (reset_reconnect (new_reconnect
     \<lparr>initial_interval_ms = 1000, max_interval_ms = 5000, multiplier = 2, max_retries = Some 4\<rparr>)) =
   [Some 1000, Some 2000, Some 4000, Some 5000, None]"
  by (subst reconnect_schedule)
    (simp_all add: new_reconnect_def allowed_def scheduled_def upt_rec numeral_eq_Suc)

end
