(* ===== verification/Message_Types.thy ===== *)
theory Message_Types
  imports Jid
begin

text \<open>
  The data the client exchanges with its user (\<^verbatim>\<open>message.ts\<close>, \<^verbatim>\<open>group.ts\<close>, \<^verbatim>\<open>events.ts\<close> of
  \<^verbatim>\<open>packages/wazeko-types/src\<close>): interfaces are records, tagged unions are datatypes, and
  an event name with its data is one constructor of \<open>event\<close>.
\<close>

type_synonym message_id = jstr

datatype message_status = Pending | ServerAck | DeliveryAck | Read | Played

record message_source =
  chat :: jid
  sender :: jid
  is_from_me :: bool
  is_group :: bool

text \<open>\<^verbatim>\<open>Uint8Array | Buffer | { url: string }\<close>.\<close>

datatype media_source = MediaBytes bytes | MediaUrl jstr

datatype message_content =
    Text jstr
  | Image media_source "jstr option" "jstr option"
  | Video media_source "jstr option" "jstr option"
  | Audio media_source "jstr option" "bool option"
  | Document media_source "jstr option" "jstr option"
  | React message_id jstr
  | Reply message_id jstr jstr

record message =
  msg_id :: message_id
  source :: message_source
  msg_content :: message_content
  timestamp :: int
  msg_status :: message_status

datatype participant_role = Member | Admin | SuperAdmin

record group_participant =
  gp_id :: jid
  role :: participant_role

record group_metadata =
  gm_id :: jid
  subject :: jstr
  description :: "jstr option"
  gm_owner :: "jid option"
  creation_time :: int
  participants :: "group_participant list"
  restrict_info :: bool
  announce :: bool

datatype connection_state =
  Disconnected | Connecting | Authenticating | Connected | Reconnecting | LoggedOut

record qr_code_event =
  raw :: jstr
  attempts :: nat
  timeout_seconds :: nat

record pairing_code_event =
  code :: jstr
  expires_in_seconds :: nat

record message_receipt_event =
  mr_message_id :: message_id
  mr_chat :: jid
  mr_sender :: "jid option"
  mr_status :: message_status
  mr_timestamp :: int

datatype event =
    ConnectionUpdate connection_state
  | Qr qr_code_event
  | PairingCode pairing_code_event
  | Authenticated jid
  | MessageReceived message
  | MessageReceipt message_receipt_event
  | MessageDelete message_id jid
  | GroupUpdate group_metadata
  | PresenceUpdate jid jstr
  | ErrorEvent jstr
  | DisconnectEvent jstr

end
