(* ===== verification/Rate_Limiter.thy ===== *)
theory Rate_Limiter
  imports Complex_Main Prelude
begin

text \<open>
  The sliding-window limiter (\<^verbatim>\<open>packages/wazeko/src/queue/rate-limiter.ts\<close>). Clock readings
  are integers (\<^verbatim>\<open>Date.now()\<close>), the options are integers, and \<^verbatim>\<open>Math.random()\<close> is an argument
  \<open>rnd\<close> of the functions that use it. \<^verbatim>\<open>acquire\<close> is not atomic: it reads the window, waits, and
  records its time when it resumes, so it is modelled as \<open>acquire_start\<close> and \<open>acquire_end\<close>.
  The results: the jitter stays in its range, calls that do not overlap respect the window,
  and calls that overlap do not.
\<close>

record rate_limiter_options =
  o_min_jitter_ms :: "int option"
  o_max_jitter_ms :: "int option"
  o_max_messages_per_window :: "int option"
  o_window_ms :: "int option"

record rate_limiter =
  min_jitter_ms :: int
  max_jitter_ms :: int
  max_messages_per_window :: int
  window_ms :: int
  timestamps :: "int list"

definition or_default :: "'a option \<Rightarrow> 'a \<Rightarrow> 'a" where
  "or_default x d = (case x of None \<Rightarrow> d | Some y \<Rightarrow> y)"

definition new_rate_limiter :: "rate_limiter_options \<Rightarrow> rate_limiter" where
  "new_rate_limiter opts =
     \<lparr>min_jitter_ms = or_default (o_min_jitter_ms opts) 1500,
      max_jitter_ms = or_default (o_max_jitter_ms opts) 4000,
      max_messages_per_window = or_default (o_max_messages_per_window opts) 30,
      window_ms = or_default (o_window_ms opts) 60000,
      timestamps = []\<rparr>"

definition get_random_jitter :: "real \<Rightarrow> rate_limiter \<Rightarrow> int" where
  "get_random_jitter rnd rl =
     \<lfloor>rnd * real_of_int (max_jitter_ms rl - min_jitter_ms rl + 1)\<rfloor> + min_jitter_ms rl"

text \<open>
  The wait, and the limiter with the expired times pruned. \<^const>\<open>None\<close> is the NaN the code
  computes from the missing oldest time when the window is empty and the limit not positive.
\<close>

definition get_quota_wait_time :: "int \<Rightarrow> rate_limiter \<Rightarrow> int option \<times> rate_limiter" where
  "get_quota_wait_time now rl =
     (let ts = filter (\<lambda>t. now - t < window_ms rl) (timestamps rl); rl = rl\<lparr>timestamps := ts\<rparr>
      in if max_messages_per_window rl \<le> int (length ts) then
           (case ts of
              [] \<Rightarrow> (None, rl)
            | oldest # _ \<Rightarrow> (Some (max 0 (window_ms rl - (now - oldest))), rl))
         else (Some 0, rl))"

lemma quota_pruned:
  "snd (get_quota_wait_time now rl) = rl\<lparr>timestamps := filter (\<lambda>t. now - t < window_ms rl) (timestamps rl)\<rparr>"
  by (simp add: get_quota_wait_time_def Let_def split: list.split)

lemma prune_twice: "get_quota_wait_time now (snd (get_quota_wait_time now rl)) = get_quota_wait_time now rl"
  unfolding quota_pruned by (simp add: get_quota_wait_time_def Let_def)

text \<open>
  Node's \<^verbatim>\<open>setTimeout\<close> keeps a delay between 1 and $2^{31} - 1$ milliseconds and takes any other
  for 1. \<open>pause\<close> is the wait of \<^verbatim>\<open>if (d > 0) await new Promise(r => setTimeout(r, d))\<close>.
\<close>

definition timer_delay :: "int \<Rightarrow> int" where
  "timer_delay d = (if 1 \<le> d \<and> d \<le> 2147483647 then d else 1)"

definition pause :: "int \<Rightarrow> int" where
  "pause d = (if 0 < d then timer_delay d else 0)"

definition quota_pause :: "int option \<Rightarrow> int" where
  "quota_pause wt = (case wt of None \<Rightarrow> 0 | Some w \<Rightarrow> pause w)"

lemma timer_delay_pos: "1 \<le> timer_delay d"
  by (simp add: timer_delay_def)

lemma pause_bounds: "0 \<le> pause d" "pause d \<le> max 0 d"
  by (simp_all add: pause_def timer_delay_def)

lemma pause_id: "0 \<le> d \<Longrightarrow> d \<le> 2147483647 \<Longrightarrow> pause d = d"
  by (simp add: pause_def timer_delay_def)

lemma quota_pause_nonneg: "0 \<le> quota_pause wt"
  by (simp add: quota_pause_def pause_bounds split: option.split)

text \<open>
  Up to the waits: the quota wait (none for a NaN, which is not greater than 0), the jitter
  the call will return, and the limiter.
\<close>

definition acquire_start :: "bool \<Rightarrow> real \<Rightarrow> int \<Rightarrow> rate_limiter \<Rightarrow> (int \<times> int) \<times> rate_limiter" where
  "acquire_start isHighPriority rnd now rl =
     (let (quotaWait, rl) = get_quota_wait_time now rl;
          jitter = (if isHighPriority then \<lfloor>rnd * 150\<rfloor> + 50 else get_random_jitter rnd rl)
      in ((case quotaWait of None \<Rightarrow> 0 | Some w \<Rightarrow> w, jitter), rl))"

definition acquire_end :: "int \<Rightarrow> rate_limiter \<Rightarrow> rate_limiter" where
  "acquire_end now rl = rl\<lparr>timestamps := timestamps rl @ [now]\<rparr>"

definition reset_limiter :: "rate_limiter \<Rightarrow> rate_limiter" where
  "reset_limiter rl = rl\<lparr>timestamps := []\<rparr>"

section \<open>Jitter\<close>

lemma floor_scaled:
  assumes "0 \<le> rnd" and "rnd < 1" and "0 < n"
  shows "0 \<le> \<lfloor>rnd * real_of_int n\<rfloor> \<and> \<lfloor>rnd * real_of_int n\<rfloor> < n"
proof -
  have "rnd * real_of_int n < 1 * real_of_int n"
    using assms(2,3) by (intro mult_strict_right_mono) simp_all
  then have "\<lfloor>rnd * real_of_int n\<rfloor> < n" by (simp add: floor_less_iff)
  with assms show ?thesis by simp
qed

text \<open>
  For any random number in \<open>[0, 1)\<close> the jitter lies between the configured bounds,
  both included, and for a high priority call between 50 and 199 milliseconds.
\<close>

theorem jitter_bounds:
  assumes "0 \<le> rnd" and "rnd < 1" and "min_jitter_ms rl \<le> max_jitter_ms rl"
  shows "snd (fst (acquire_start False rnd now rl)) \<in> {min_jitter_ms rl .. max_jitter_ms rl} \<and>
    snd (fst (acquire_start True rnd now rl)) \<in> {50 .. 199}"
proof -
  have eq: "get_random_jitter rnd (snd (get_quota_wait_time now rl)) = get_random_jitter rnd rl"
    by (simp add: get_random_jitter_def get_quota_wait_time_def Let_def split: list.split)
  have "0 < max_jitter_ms rl - min_jitter_ms rl + 1" using assms(3) by simp
  from floor_scaled [OF assms(1,2) this] have "get_random_jitter rnd rl \<in> {min_jitter_ms rl .. max_jitter_ms rl}"
    unfolding get_random_jitter_def by simp
  moreover have "\<lfloor>rnd * 150\<rfloor> + 50 \<in> {50 .. 199}"
    using floor_scaled [OF assms(1,2), of 150] by simp
  ultimately show ?thesis
    using eq by (simp add: acquire_start_def split_beta Let_def)
qed

theorem jitter_bounds_witness:
  "snd (fst (acquire_start False (1 / 2) 0 (new_rate_limiter \<lparr>o_min_jitter_ms = None,
     o_max_jitter_ms = None, o_max_messages_per_window = None, o_window_ms = None\<rparr>))) \<in> {1500 .. 4000}"
  using jitter_bounds [of "1 / 2" "new_rate_limiter \<lparr>o_min_jitter_ms = None,
     o_max_jitter_ms = None, o_max_messages_per_window = None, o_window_ms = None\<rparr>" 0]
  by (simp add: new_rate_limiter_def or_default_def)

section \<open>Calls that do not overlap\<close>

text \<open>
  One call after the other: \<open>now\<close> is the clock at the start of a call, \<open>done\<close> when it records
  its time. \<open>punctual\<close>: no call starts before the previous one ended, and no timer fires
  early (a delay no timer can wait for counts as its single millisecond).
\<close>

fun run_serial :: "(int \<times> int) list \<Rightarrow> rate_limiter \<Rightarrow> rate_limiter" where
  "run_serial [] rl = rl"
| "run_serial ((now, done) # cs) rl =
     run_serial cs (acquire_end done (snd (get_quota_wait_time now rl)))"

fun punctual :: "int \<Rightarrow> (int \<times> int) list \<Rightarrow> rate_limiter \<Rightarrow> bool" where
  "punctual t [] rl = True"
| "punctual t ((now, done) # cs) rl =
     (let (w, rl) = get_quota_wait_time now rl
      in t \<le> now \<and> now + quota_pause w \<le> done \<and>
         punctual done cs (acquire_end done rl))"

text \<open>At most \<open>m\<close> of the recorded times lie in any window of length \<open>w\<close>.\<close>

definition spaced :: "nat \<Rightarrow> int \<Rightarrow> int list \<Rightarrow> bool" where
  "spaced m w h = (\<forall>i. i + m < length h \<longrightarrow> h ! i + w \<le> h ! (i + m))"

text \<open>
  The limiter keeps what was not yet expired in the history \<open>h\<close> when it last pruned, at \<open>p\<close>.
\<close>

definition tracks :: "int \<Rightarrow> int list \<Rightarrow> rate_limiter \<Rightarrow> bool" where
  "tracks t h rl =
     (sorted h \<and> (\<forall>x \<in> set h. x \<le> t) \<and>
      (\<exists>p \<le> t. timestamps rl = filter (\<lambda>x. p - x < window_ms rl) h) \<and>
      spaced (nat (max_messages_per_window rl)) (window_ms rl) h)"

lemma filter_sorted_drop:
  assumes "sorted h" and "\<And>a b. a \<le> b \<Longrightarrow> P a \<Longrightarrow> P b"
  obtains j where "filter P h = drop j h" and "j \<le> length h" and "\<forall>i < j. \<not> P (h ! i)"
proof
  let ?j = "length (takeWhile (\<lambda>x. \<not> P x) h)"
  show "filter P h = drop ?j h"
    using filter_sorted_prefix [OF assms] by (simp add: dropWhile_eq_drop)
  show "?j \<le> length h" by (rule length_takeWhile_le)
  show "\<forall>i < ?j. \<not> P (h ! i)"
    using takeWhile_nth [of _ "\<lambda>x. \<not> P x" h] by (metis nth_mem set_takeWhileD)
qed

text \<open>The window after pruning at \<open>now\<close> holds at most \<open>m\<close> times.\<close>

lemma window_size:
  assumes "sorted h" and "\<forall>x \<in> set h. x \<le> now" and "spaced m w h"
    and j: "filter (\<lambda>x. now - x < w) h = drop j h"
  shows "length h - j \<le> m"
proof (rule ccontr)
  assume "\<not> length h - j \<le> m"
  then have "j + m < length h" by simp
  then have "h ! j + w \<le> h ! (j + m)" "h ! (j + m) \<le> now" "j < length h"
    using assms(2,3) by (auto simp: spaced_def)
  moreover have "h ! j \<in> set (drop j h)" using \<open>j < length h\<close> by (metis Cons_nth_drop_Suc list.set_intros(1))
  ultimately show False using j [symmetric] by auto
qed

lemma spaced_snoc:
  assumes "spaced m w h" and "m \<le> length h \<Longrightarrow> h ! (length h - m) + w \<le> d" and "0 < m"
  shows "spaced m w (h @ [d])"
  using assms by (auto simp: spaced_def nth_append less_Suc_eq) (metis add_diff_cancel_right' le_add2)

lemma tracks_step:
  assumes t: "tracks t h rl" and pos: "0 < max_messages_per_window rl" "0 < window_ms rl"
    and timer: "window_ms rl \<le> 2147483647"
    and q: "get_quota_wait_time now rl = (wt, rl')" and "t \<le> now"
    and d: "now + quota_pause wt \<le> d"
  shows "tracks d (h @ [d]) (acquire_end d rl')"
proof -
  let ?w = "window_ms rl" and ?m = "nat (max_messages_per_window rl)"
  from t obtain p where p: "p \<le> t" "timestamps rl = filter (\<lambda>x. p - x < ?w) h"
    and h: "sorted h" "\<forall>x \<in> set h. x \<le> t" "spaced ?m ?w h" by (auto simp: tracks_def)
  have le: "\<forall>x \<in> set h. x \<le> now" using h(2) \<open>t \<le> now\<close> by auto
  obtain j where j: "filter (\<lambda>x. now - x < ?w) h = drop j h" "j \<le> length h"
    "\<forall>i < j. \<not> now - h ! i < ?w"
    using filter_sorted_drop [OF h(1), of "\<lambda>x. now - x < ?w"] by (auto intro: order_le_less_trans)
  have "filter (\<lambda>x. now - x < ?w) (timestamps rl) = filter (\<lambda>x. now - x < ?w) h"
    using p \<open>t \<le> now\<close> by (auto simp: filter_filter intro: filter_cong)
  then have ts: "rl' = rl\<lparr>timestamps := drop j h\<rparr>"
    and wt: "wt = (if int ?m \<le> int (length (drop j h)) then
        (case drop j h of [] \<Rightarrow> None | x # _ \<Rightarrow> Some (max 0 (?w - (now - x)))) else Some 0)"
    using q j(1) pos by (auto simp: get_quota_wait_time_def Let_def split: if_splits list.splits)
  have m: "length h - j \<le> ?m" using h(1) le h(3) j(1) by (rule window_size)
  have nd: "now \<le> d" using d quota_pause_nonneg [of wt] by linarith
  have "h ! (length h - ?m) + ?w \<le> d" if "?m \<le> length h"
  proof (cases "length h - j = ?m")
    case True
    then have "length h - ?m = j" "j < length h" using pos(1) j(2) by auto
    then have "drop j h = h ! (length h - ?m) # drop (Suc j) h"
      by (simp add: Cons_nth_drop_Suc)
    moreover have "int ?m \<le> int (length (drop j h))" using True by simp
    ultimately have "wt = Some (max 0 (?w - (now - h ! (length h - ?m))))"
      unfolding wt by (simp only: if_True list.case)
    moreover have "h ! (length h - ?m) \<le> now" using le \<open>j < length h\<close> \<open>length h - ?m = j\<close> by simp
    then have "max 0 (?w - (now - h ! (length h - ?m))) \<le> 2147483647" using timer by simp
    then have "pause (max 0 (?w - (now - h ! (length h - ?m)))) = max 0 (?w - (now - h ! (length h - ?m)))"
      by (intro pause_id) simp_all
    ultimately have "now + max 0 (?w - (now - h ! (length h - ?m))) \<le> d" using d by (simp add: quota_pause_def)
    then show ?thesis by linarith
  next
    case False
    then have "length h - ?m < j" using m that by simp
    with j(3) nd show ?thesis by force
  qed
  then have "spaced ?m ?w (h @ [d])" using h(3) pos(1) by (intro spaced_snoc) simp_all
  moreover have "sorted (h @ [d])" "\<forall>x \<in> set (h @ [d]). x \<le> d"
    using h(1) le nd by (auto simp: sorted_append intro: order_trans)
  moreover have "timestamps (acquire_end d rl') = filter (\<lambda>x. now - x < ?w) (h @ [d])"
    using ts j(1) nd pos(2) by (simp add: acquire_end_def)
  ultimately show ?thesis
    using nd unfolding tracks_def by (auto simp: acquire_end_def ts)
qed

lemma tracks_serial:
  assumes "tracks t h rl" and "0 < max_messages_per_window rl" and "0 < window_ms rl"
    and "window_ms rl \<le> 2147483647" and "punctual t cs rl"
  shows "sorted (h @ map snd cs) \<and>
    spaced (nat (max_messages_per_window rl)) (window_ms rl) (h @ map snd cs)"
  using assms
proof (induction cs arbitrary: t h rl)
  case Nil
  then show ?case by (simp add: tracks_def)
next
  case (Cons c cs)
  obtain now d where c: "c = (now, d)" by (cases c)
  obtain w rl' where q: "get_quota_wait_time now rl = (w, rl')" by fastforce
  have same: "max_messages_per_window (acquire_end d rl') = max_messages_per_window rl"
    "window_ms (acquire_end d rl') = window_ms rl"
    using q by (auto simp: get_quota_wait_time_def acquire_end_def Let_def split: if_splits list.splits)
  have "tracks d (h @ [d]) (acquire_end d rl')"
    using Cons.prems c q by (intro tracks_step [OF Cons.prems(1-4) q]) auto
  from Cons.IH [OF this] Cons.prems c q same show ?case by simp
qed

lemma spaced_window:
  assumes "sorted h" and "spaced m w h" and "0 < m"
  shows "length (filter (\<lambda>x. a \<le> x \<and> x < a + w) h) \<le> m"
proof (rule ccontr)
  let ?I = "{i. i < length h \<and> a \<le> h ! i \<and> h ! i < a + w}"
  assume "\<not> length (filter (\<lambda>x. a \<le> x \<and> x < a + w) h) \<le> m"
  then have card: "m < card ?I" by (simp add: length_filter_conv_card)
  have fin: "finite ?I" by simp
  have ne: "?I \<noteq> {}" using card by (metis card.empty not_less0)
  have "Min ?I \<in> ?I" "Max ?I \<in> ?I" using Min_in [OF fin ne] Max_in [OF fin ne] .
  moreover have "card ?I \<le> card {Min ?I .. Max ?I}" using fin by (intro card_mono) auto
  then have "Min ?I + m \<le> Max ?I" using card by simp
  ultimately have "h ! (Min ?I) + w \<le> h ! (Min ?I + m)" "h ! (Min ?I + m) \<le> h ! (Max ?I)"
    "a \<le> h ! (Min ?I)" "h ! (Max ?I) < a + w"
    using assms(1,2) by (auto simp: spaced_def sorted_iff_nth_mono)
  then show False by linarith
qed

text \<open>
  The sliding window holds for calls that do not overlap: in any span of \<^verbatim>\<open>windowMs\<close>
  milliseconds at most \<^verbatim>\<open>maxMessagesPerWindow\<close> calls of \<^verbatim>\<open>acquire\<close> record a send.
\<close>

theorem serial_calls_respect_window:
  assumes "timestamps rl = []" and "0 < max_messages_per_window rl" and "0 < window_ms rl"
    and "window_ms rl \<le> 2147483647" and "punctual t cs rl"
  shows "int (length (filter (\<lambda>x. a \<le> x \<and> x < a + window_ms rl) (map snd cs)))
    \<le> max_messages_per_window rl"
proof -
  have "tracks t [] rl" using assms(1) by (auto simp: tracks_def spaced_def)
  from tracks_serial [OF this assms(2-5)] assms(2)
  have "length (filter (\<lambda>x. a \<le> x \<and> x < a + window_ms rl) (map snd cs))
      \<le> nat (max_messages_per_window rl)"
    by (intro spaced_window) simp_all
  then show ?thesis using assms(2) by simp
qed

definition small_limiter :: rate_limiter where
  "small_limiter = \<lparr>min_jitter_ms = 0, max_jitter_ms = 0, max_messages_per_window = 2,
     window_ms = 100, timestamps = []\<rparr>"

theorem serial_calls_respect_window_witness:
  "int (length (filter (\<lambda>x. 0 \<le> x \<and> x < 0 + window_ms small_limiter)
     (map snd [(0 :: int, 0 :: int), (10, 10), (20, 100)]))) \<le> max_messages_per_window small_limiter"
  by (rule serial_calls_respect_window [where t = 0])
    (simp_all add: small_limiter_def get_quota_wait_time_def acquire_end_def quota_pause_def pause_def
      timer_delay_def)

text \<open>
  A window longer than a timer can wait (some 25 days) is not respected: a call that finds the
  window full waits a single millisecond as long as more than $2^{31} - 1$ milliseconds are left of it.
\<close>

theorem long_windows_are_not_awaited:
  assumes "timestamps rl = ts @ [t]" and "0 < max_messages_per_window rl"
    and "max_messages_per_window rl \<le> int (length ts) + 1"
    and "\<forall>x \<in> set (ts @ [t]). x \<le> now \<and> now + 2147483647 < x + window_ms rl"
  shows "quota_pause (fst (get_quota_wait_time now rl)) = 1"
proof -
  have f: "filter (\<lambda>x. now - x < window_ms rl) (ts @ [t]) = ts @ [t]"
    using assms(4) by (intro filter_True) auto
  have "2147483647 < window_ms rl - (now - hd (ts @ [t]))"
    using assms(4) hd_in_set [of "ts @ [t]"] by force
  moreover have "fst (get_quota_wait_time now rl) = Some (max 0 (window_ms rl - (now - hd (ts @ [t]))))"
    using assms(1,3) f by (cases ts) (simp_all add: get_quota_wait_time_def)
  ultimately show ?thesis by (simp add: quota_pause_def pause_def timer_delay_def)
qed

theorem long_windows_are_not_awaited_witness:
  "quota_pause (fst (get_quota_wait_time 10 \<lparr>min_jitter_ms = 0, max_jitter_ms = 0,
     max_messages_per_window = 1, window_ms = 2592000000, timestamps = [5]\<rparr>)) = 1"
  by (rule long_windows_are_not_awaited [where ts = "[]" and t = 5]) simp_all

definition default_example :: rate_limiter where
  "default_example = new_rate_limiter \<lparr>o_min_jitter_ms = None, o_max_jitter_ms = None,
     o_max_messages_per_window = None, o_window_ms = None\<rparr>"

text \<open>
  Calls that overlap, as the workers of a queue with a concurrency above one make them: the
  start loop of the queue calls \<^verbatim>\<open>acquire\<close> for each of its jobs in one turn, so each call reads
  the window (and draws its jitter) at the same time \<open>now\<close> on the limiter the calls before it
  left, and each resumes, after its own waits, to record its time.
\<close>

fun start_calls :: "int \<Rightarrow> (bool \<times> real) list \<Rightarrow> rate_limiter \<Rightarrow> (int \<times> int) list \<times> rate_limiter" where
  "start_calls now [] rl = ([], rl)"
| "start_calls now ((isHighPriority, rnd) # cs) rl =
     (let (wait, rl) = acquire_start isHighPriority rnd now rl; (ws, rl) = start_calls now cs rl
      in (wait # ws, rl))"

definition call_end :: "int \<Rightarrow> int \<times> int \<Rightarrow> int" where
  "call_end now wait = now + pause (fst wait) + pause (snd wait)"

definition overlapping_calls :: "int \<Rightarrow> (bool \<times> real) list \<Rightarrow> rate_limiter \<Rightarrow> rate_limiter" where
  "overlapping_calls now cs rl =
     (let (ws, rl) = start_calls now cs rl in fold acquire_end (sort (map (call_end now) ws)) rl)"

lemma acquire_start_empty:
  assumes "timestamps rl = []" and "0 < max_messages_per_window rl"
  shows "acquire_start h rnd now rl =
    ((0, if h then \<lfloor>rnd * 150\<rfloor> + 50 else get_random_jitter rnd rl), rl)"
proof -
  have "rl\<lparr>timestamps := []\<rparr> = rl" using assms(1) by (cases rl) simp
  with assms show ?thesis by (simp add: acquire_start_def get_quota_wait_time_def get_random_jitter_def)
qed

lemma start_calls_empty:
  assumes "timestamps rl = []" and "0 < max_messages_per_window rl"
  shows "start_calls now cs rl = (map (\<lambda>(h, rnd). fst (acquire_start h rnd now rl)) cs, rl)"
  by (induction cs) (auto simp: acquire_start_empty [OF assms])

lemma fold_acquire_end: "timestamps (fold acquire_end ts rl) = timestamps rl @ ts"
  by (induction ts arbitrary: rl) (simp_all add: acquire_end_def)

text \<open>
  C39. The window does not hold for calls that overlap: however many calls start together
  on an empty window, none of them waits for the quota, and all of them record their time
  within one window, as long as the jitter is shorter than the window. With more calls than
  \<^verbatim>\<open>maxMessagesPerWindow\<close> the limit on messages is exceeded.
\<close>

theorem overlapping_calls_exceed_window:
  assumes "timestamps rl = []" and "0 < max_messages_per_window rl"
    and "min_jitter_ms rl \<le> max_jitter_ms rl" and "max_jitter_ms rl < window_ms rl" and "199 < window_ms rl"
    and "\<forall>(high, rnd) \<in> set cs. 0 \<le> rnd \<and> rnd < 1"
  shows "map fst (fst (start_calls now cs rl)) = replicate (length cs) 0 \<and>
    length (filter (\<lambda>t. now \<le> t \<and> t < now + window_ms rl) (timestamps (overlapping_calls now cs rl))) = length cs"
proof -
  note empty = start_calls_empty [OF assms(1,2)] acquire_start_empty [OF assms(1,2)]
  have "now \<le> t \<and> t < now + window_ms rl"
    if t: "t \<in> set (timestamps (overlapping_calls now cs rl))" for t
  proof -
    obtain h rnd where c: "(h, rnd) \<in> set cs" "t = call_end now (fst (acquire_start h rnd now rl))"
      using t assms(1) by (auto simp: overlapping_calls_def start_calls_empty [OF assms(1,2)] fold_acquire_end)
    have "0 \<le> rnd" "rnd < 1" using assms(6) c(1) by auto
    from jitter_bounds [OF this assms(3), of now]
    have "snd (fst (acquire_start h rnd now rl)) < window_ms rl" using assms(4,5) by (cases h) auto
    with pause_bounds [of "snd (fst (acquire_start h rnd now rl))"] assms(5)
    show ?thesis by (simp add: c(2) call_end_def empty(2) pause_def)
  qed
  moreover have "length (timestamps (overlapping_calls now cs rl)) = length cs"
    using assms(1) by (simp add: overlapping_calls_def empty(1) fold_acquire_end)
  moreover have "map fst (fst (start_calls now cs rl)) = replicate (length cs) 0"
    unfolding empty(1) by (induction cs) (auto simp: empty(2))
  ultimately show ?thesis by (simp add: filter_True)
qed

theorem overlapping_calls_exceed_window_witness:
  "length (filter (\<lambda>t. 7 \<le> t \<and> t < 7 + window_ms default_example)
     (timestamps (overlapping_calls 7 (replicate 31 (False, 1 / 2)) default_example))) = 31 \<and>
   max_messages_per_window default_example = 30"
  using overlapping_calls_exceed_window [of default_example "replicate 31 (False, 1 / 2)" 7]
  by (simp add: default_example_def new_rate_limiter_def or_default_def)

end
