(* ===== verification/Message_Queue.thy ===== *)
theory Message_Queue
  imports Message_Types Rate_Limiter "HOL-Library.Multiset"
begin

text \<open>
  The priority queue of outgoing messages (\<^verbatim>\<open>packages/wazeko/src/queue/message-queue.ts\<close> and
  \<^verbatim>\<open>types.ts\<close>). The class is asynchronous: \<^verbatim>\<open>processJob\<close> suspends in the limiter, in the
  sender and in the backoff timer, and the \<^verbatim>\<open>finally\<close> callback runs later still. A job between
  two of these points is a \<open>worker\<close>, and each piece of code that runs without suspension is
  one operation. The record adds to the fields of the class what surrounds it: the workers,
  the clock, and logs of what was sent, dropped, recorded by the limiter and settled.
  \<^verbatim>\<open>resolve\<close> and \<^verbatim>\<open>reject\<close> of a job are the number of its promise. Event listeners are assumed to return.
\<close>

datatype priority = HIGH | NORMAL | LOW

datatype job_status = JobPending | JobProcessing | JobCompleted | JobFailed

record message_job_options =
  opt_priority :: "priority option"
  opt_max_retries :: "int option"
  opt_retry_delay_ms :: "int option"
  opt_timeout_ms :: "int option"
  opt_custom_id :: "jstr option"

record message_job =
  job_id :: jstr
  job_to :: "jid + jstr"
  job_content :: message_content
  job_priority :: priority
  job_max_retries :: int
  job_retry_count :: int
  job_retry_delay_ms :: int
  job_timeout_ms :: int
  job_created_at :: int
  job_status :: job_status
  job_promise :: nat

text \<open>
  A job in flight: waiting for the limiter (until the time the quota wait ends), in
  \<^verbatim>\<open>sendMessage\<close>, in the backoff timer (with its delay), or done but not yet counted off by
  the \<^verbatim>\<open>finally\<close> callback.
\<close>

datatype worker = Acquiring message_job int | Sending message_job | Backoff message_job int | Finishing

record message_queue =
  high_queue :: "message_job list"
  normal_queue :: "message_job list"
  low_queue :: "message_job list"
  running_workers :: int
  max_concurrency :: int
  is_processing :: bool
  limiter :: rate_limiter
  completed_count :: int
  failed_count :: int
  processing_count :: int
  workers :: "worker list"
  clock :: int
  promises :: nat
  sends :: "nat list"
  cleared :: "nat list"
  recorded :: "int list"
  settled :: "(message_job \<times> (jstr + message)) list"

record message_queue_options =
  q_concurrency :: "int option"
  q_rate_limiter :: "rate_limiter option"
  q_auto_start :: "bool option"

record queue_stats =
  pending_total :: nat
  high_count :: nat
  normal_count :: nat
  low_count :: nat
  stat_processing :: int
  stat_completed :: int
  stat_failed :: int

definition default_limiter :: rate_limiter where
  "default_limiter = new_rate_limiter \<lparr>o_min_jitter_ms = None, o_max_jitter_ms = None,
     o_max_messages_per_window = None, o_window_ms = None\<rparr>"

definition new_message_queue :: "int \<Rightarrow> message_queue_options \<Rightarrow> message_queue" where
  "new_message_queue now opts =
     \<lparr>high_queue = [], normal_queue = [], low_queue = [], running_workers = 0,
      max_concurrency = or_default (q_concurrency opts) 1,
      is_processing = (q_auto_start opts \<noteq> Some False),
      limiter = or_default (q_rate_limiter opts) default_limiter,
      completed_count = 0, failed_count = 0, processing_count = 0,
      workers = [], clock = now, promises = 0, sends = [], cleared = [], recorded = [], settled = []\<rparr>"

section \<open>Operations\<close>

definition get_next_job :: "message_queue \<Rightarrow> message_job option \<times> message_queue" where
  "get_next_job q =
     (case high_queue q of
        j # rest \<Rightarrow> (Some j, q\<lparr>high_queue := rest\<rparr>)
      | [] \<Rightarrow> (case normal_queue q of
          j # rest \<Rightarrow> (Some j, q\<lparr>normal_queue := rest\<rparr>)
        | [] \<Rightarrow> (case low_queue q of
            j # rest \<Rightarrow> (Some j, q\<lparr>low_queue := rest\<rparr>)
          | [] \<Rightarrow> (None, q))))"

text \<open>The first piece of \<^verbatim>\<open>processJob\<close>, up to the wait in the limiter.\<close>

definition process_job :: "message_job \<Rightarrow> message_queue \<Rightarrow> message_queue" where
  "process_job job q =
     (let (wt, rl) = get_quota_wait_time (clock q) (limiter q);
          until = clock q + quota_pause wt
      in q\<lparr>limiter := rl, workers := workers q @ [Acquiring (job\<lparr>job_status := JobProcessing\<rparr>) until]\<rparr>)"

definition pending :: "message_queue \<Rightarrow> message_job list" where
  "pending q = high_queue q @ normal_queue q @ low_queue q"

lemma get_next_job_pending:
  "get_next_job q = (x, q') \<Longrightarrow>
     (case pending q of [] \<Rightarrow> x = None \<and> q' = q | j # rest \<Rightarrow> x = Some j \<and> pending q' = rest)"
  by (auto simp: get_next_job_def pending_def split: list.splits)

lemma pending_process_job [simp]: "pending (process_job j q) = pending q"
  by (simp add: process_job_def pending_def split_beta Let_def)

lemma pending_counts [simp]:
  "pending (q\<lparr>running_workers := a\<rparr>) = pending q" "pending (q\<lparr>processing_count := b\<rparr>) = pending q"
  by (simp_all add: pending_def)

function trigger_processing :: "message_queue \<Rightarrow> message_queue" where
  "trigger_processing q =
     (if \<not> is_processing q then q
      else if running_workers q < max_concurrency q then
        (case get_next_job q of
           (None, q) \<Rightarrow> q
         | (Some job, q) \<Rightarrow> trigger_processing (process_job job
             (q\<lparr>running_workers := running_workers q + 1, processing_count := processing_count q + 1\<rparr>)))
      else q)"
  by pat_completeness auto
termination
proof (relation "measure (length \<circ> pending)")
  fix q x q' job
  assume "(x, q') = get_next_job q" and "x = Some job"
  then have "length (pending q') < length (pending q)"
    using get_next_job_pending [of q x q'] by (simp split: list.splits)
  then show "(process_job job (q'\<lparr>running_workers := running_workers q' + 1,
      processing_count := processing_count q' + 1\<rparr>), q) \<in> measure (length \<circ> pending)"
    by simp
qed simp

declare trigger_processing.simps [simp del]

definition new_job :: "jstr \<Rightarrow> (jid + jstr) \<Rightarrow> message_content \<Rightarrow> message_job_options \<Rightarrow>
    message_queue \<Rightarrow> message_job" where
  "new_job generatedId dest content opts q =
     \<lparr>job_id = or_default (opt_custom_id opts) generatedId, job_to = dest, job_content = content,
      job_priority = or_default (opt_priority opts) NORMAL,
      job_max_retries = or_default (opt_max_retries opts) 3, job_retry_count = 0,
      job_retry_delay_ms = or_default (opt_retry_delay_ms opts) 1000,
      job_timeout_ms = or_default (opt_timeout_ms opts) 30000, job_created_at = clock q,
      job_status = JobPending, job_promise = promises q\<rparr>"

definition push_job :: "message_job \<Rightarrow> message_queue \<Rightarrow> message_queue" where
  "push_job job q =
     (case job_priority job of
        HIGH \<Rightarrow> q\<lparr>high_queue := high_queue q @ [job]\<rparr>
      | LOW \<Rightarrow> q\<lparr>low_queue := low_queue q @ [job]\<rparr>
      | NORMAL \<Rightarrow> q\<lparr>normal_queue := normal_queue q @ [job]\<rparr>)"

definition unshift_job :: "message_job \<Rightarrow> message_queue \<Rightarrow> message_queue" where
  "unshift_job job q =
     (case job_priority job of
        HIGH \<Rightarrow> q\<lparr>high_queue := job # high_queue q\<rparr>
      | LOW \<Rightarrow> q\<lparr>low_queue := job # low_queue q\<rparr>
      | NORMAL \<Rightarrow> q\<lparr>normal_queue := job # normal_queue q\<rparr>)"

definition enqueue :: "jstr \<Rightarrow> (jid + jstr) \<Rightarrow> message_content \<Rightarrow> message_job_options \<Rightarrow>
    message_queue \<Rightarrow> message_queue" where
  "enqueue generatedId dest content opts q =
     trigger_processing (push_job (new_job generatedId dest content opts q) (q\<lparr>promises := promises q + 1\<rparr>))"

text \<open>The later pieces of \<^verbatim>\<open>processJob\<close> for the worker at \<open>i\<close>.\<close>

definition set_worker :: "nat \<Rightarrow> worker \<Rightarrow> message_queue \<Rightarrow> message_queue" where
  "set_worker i w q = q\<lparr>workers := (workers q)[i := w]\<rparr>"

definition acquired :: "nat \<Rightarrow> message_job \<Rightarrow> message_queue \<Rightarrow> message_queue" where
  "acquired i job q =
     set_worker i (Sending job)
       (q\<lparr>limiter := acquire_end (clock q) (limiter q), recorded := recorded q @ [clock q],
          sends := sends q @ [job_promise job]\<rparr>)"

definition job_sent :: "nat \<Rightarrow> message_job \<Rightarrow> message \<Rightarrow> message_queue \<Rightarrow> message_queue" where
  "job_sent i job result q =
     set_worker i Finishing
       (q\<lparr>completed_count := completed_count q + 1, settled := settled q @ [(job\<lparr>job_status := JobCompleted\<rparr>, Inr result)]\<rparr>)"

definition job_send_failed :: "nat \<Rightarrow> message_job \<Rightarrow> jstr \<Rightarrow> message_queue \<Rightarrow> message_queue" where
  "job_send_failed i job err q =
     (let job = job\<lparr>job_retry_count := job_retry_count job + 1\<rparr>
      in if job_retry_count job \<le> job_max_retries job then
           let delay = job_retry_delay_ms job * 2 ^ nat (job_retry_count job - 1)
           in set_worker i (Backoff job (clock q + timer_delay delay)) q
         else set_worker i Finishing
           (q\<lparr>failed_count := failed_count q + 1, settled := settled q @ [(job\<lparr>job_status := JobFailed\<rparr>, Inl err)]\<rparr>))"

definition backoff_over :: "nat \<Rightarrow> message_job \<Rightarrow> message_queue \<Rightarrow> message_queue" where
  "backoff_over i job q = set_worker i Finishing (unshift_job job q)"

text \<open>The \<^verbatim>\<open>finally\<close> callback.\<close>

definition job_finished :: "nat \<Rightarrow> message_queue \<Rightarrow> message_queue" where
  "job_finished i q =
     trigger_processing (q\<lparr>workers := take i (workers q) @ drop (Suc i) (workers q),
       running_workers := running_workers q - 1, processing_count := processing_count q - 1\<rparr>)"

definition get_stats :: "message_queue \<Rightarrow> queue_stats" where
  "get_stats q =
     \<lparr>pending_total = length (high_queue q) + length (normal_queue q) + length (low_queue q),
      high_count = length (high_queue q), normal_count = length (normal_queue q),
      low_count = length (low_queue q), stat_processing = processing_count q,
      stat_completed = completed_count q, stat_failed = failed_count q\<rparr>"

definition start_queue :: "message_queue \<Rightarrow> message_queue" where
  "start_queue q = trigger_processing (q\<lparr>is_processing := True\<rparr>)"

definition pause_queue :: "message_queue \<Rightarrow> message_queue" where
  "pause_queue q = q\<lparr>is_processing := False\<rparr>"

definition clear_queue :: "message_queue \<Rightarrow> message_queue" where
  "clear_queue q =
     q\<lparr>high_queue := [], normal_queue := [], low_queue := [],
       cleared := cleared q @ map job_promise (pending q)\<rparr>"

section \<open>Steps\<close>

text \<open>
  A worker moves on: the limiter's waits are over (timers do not fire early, the jitter is
  drawn from \<open>[0, 1)\<close>), the sender returns or throws, the backoff timer fires, the
  \<^verbatim>\<open>finally\<close> callback runs.
\<close>

definition jitter_of :: "real \<Rightarrow> message_job \<Rightarrow> message_queue \<Rightarrow> int" where
  "jitter_of rnd job q = snd (fst (acquire_start (job_priority job = HIGH) rnd (clock q) (limiter q)))"

inductive work_step :: "message_queue \<Rightarrow> message_queue \<Rightarrow> bool" where
  acquire: "i < length (workers q) \<Longrightarrow> workers q ! i = Acquiring job until \<Longrightarrow> 0 \<le> rnd \<Longrightarrow> rnd < 1 \<Longrightarrow>
    until + pause (jitter_of rnd job q) \<le> clock q \<Longrightarrow> work_step q (acquired i job q)"
| sent: "i < length (workers q) \<Longrightarrow> workers q ! i = Sending job \<Longrightarrow> work_step q (job_sent i job result q)"
| send_failed: "i < length (workers q) \<Longrightarrow> workers q ! i = Sending job \<Longrightarrow>
    work_step q (job_send_failed i job err q)"
| backoff: "i < length (workers q) \<Longrightarrow> workers q ! i = Backoff job due \<Longrightarrow> due \<le> clock q \<Longrightarrow>
    work_step q (backoff_over i job q)"
| finish: "i < length (workers q) \<Longrightarrow> workers q ! i = Finishing \<Longrightarrow> work_step q (job_finished i q)"

text \<open>The queue's user, the clock, or a worker.\<close>

inductive queue_step :: "message_queue \<Rightarrow> message_queue \<Rightarrow> bool" where
  enqueue: "queue_step q (enqueue generatedId dest content opts q)"
| start: "queue_step q (start_queue q)"
| pause: "queue_step q (pause_queue q)"
| clear: "queue_step q (clear_queue q)"
| tick: "clock q \<le> t \<Longrightarrow> queue_step q (q\<lparr>clock := t\<rparr>)"
| work: "work_step q q' \<Longrightarrow> queue_step q q'"

inductive reachable :: "message_queue \<Rightarrow> bool" where
  new: "reachable (new_message_queue now opts)"
| step: "reachable q \<Longrightarrow> queue_step q q' \<Longrightarrow> reachable q'"

inductive_simps queue_step_iff: "queue_step q q'"
inductive_cases work_stepE: "work_step q q'"

section \<open>The start loop in one step\<close>

definition startable :: "message_queue \<Rightarrow> nat" where
  "startable q =
     (if is_processing q then min (length (pending q)) (nat (max_concurrency q - running_workers q)) else 0)"

text \<open>When the worker of a job started now may leave the quota wait.\<close>

definition start_until :: "message_queue \<Rightarrow> int" where
  "start_until q =
     clock q + quota_pause (fst (get_quota_wait_time (clock q) (limiter q)))"

definition start_worker :: "int \<Rightarrow> message_job \<Rightarrow> worker" where
  "start_worker until job = Acquiring (job\<lparr>job_status := JobProcessing\<rparr>) until"

definition start_jobs :: "nat \<Rightarrow> message_queue \<Rightarrow> message_queue" where
  "start_jobs k q =
     q\<lparr>high_queue := drop k (high_queue q), normal_queue := drop (k - length (high_queue q)) (normal_queue q),
       low_queue := drop (k - length (high_queue q) - length (normal_queue q)) (low_queue q),
       running_workers := running_workers q + int k, processing_count := processing_count q + int k,
       limiter := (if k = 0 then limiter q else snd (get_quota_wait_time (clock q) (limiter q))),
       workers := workers q @ map (start_worker (start_until q)) (take k (pending q))\<rparr>"

lemma start_jobs_0 [simp]: "start_jobs 0 q = q"
  by (simp add: start_jobs_def)

text \<open>One round of the loop.\<close>

definition start_one :: "message_job \<Rightarrow> message_queue \<Rightarrow> message_queue" where
  "start_one job q =
     process_job job (q\<lparr>running_workers := running_workers q + 1, processing_count := processing_count q + 1\<rparr>)"

lemma start_one_simps [simp]:
  "high_queue (start_one j q) = high_queue q" "normal_queue (start_one j q) = normal_queue q"
  "low_queue (start_one j q) = low_queue q" "pending (start_one j q) = pending q"
  "running_workers (start_one j q) = running_workers q + 1"
  "max_concurrency (start_one j q) = max_concurrency q"
  "is_processing (start_one j q) = is_processing q" "clock (start_one j q) = clock q"
  "limiter (start_one j q) = snd (get_quota_wait_time (clock q) (limiter q))"
  "start_until (start_one j q) = start_until q"
  by (simp_all add: start_one_def process_job_def pending_def split_beta Let_def start_until_def prune_twice)

lemma start_jobs_Suc:
  assumes "get_next_job q = (Some job, q')"
  shows "start_jobs k (start_one job q') = start_jobs (Suc k) q"
proof -
  have u: "start_until q' = start_until q"
    using assms by (auto simp: get_next_job_def start_until_def split: list.splits)
  show ?thesis
    using assms u
    by (auto simp: get_next_job_def start_jobs_def pending_def prune_twice start_one_def process_job_def
        start_worker_def start_until_def split_beta Let_def split: list.splits)
qed

lemma trigger_processing_eq: "trigger_processing q = start_jobs (startable q) q"
proof (induction q rule: trigger_processing.induct)
  case (1 q)
  show ?case
  proof (cases "is_processing q \<and> running_workers q < max_concurrency q \<and> pending q \<noteq> []")
    case False
    then have "startable q = 0" by (auto simp: startable_def)
    moreover have "trigger_processing q = q"
      using False get_next_job_pending [of q]
      by (subst trigger_processing.simps) (auto split: prod.split option.split)
    ultimately show ?thesis by simp
  next
    case True
    then obtain job q' where j: "get_next_job q = (Some job, q')" "length (pending q) = Suc (length (pending q'))"
      using get_next_job_pending [of q] by (cases "get_next_job q") (force split: list.splits)
    have same: "is_processing q' = is_processing q" "running_workers q' = running_workers q"
      "max_concurrency q' = max_concurrency q"
      using j(1) by (auto simp: get_next_job_def split: list.splits)
    have "trigger_processing q = trigger_processing (start_one job q')"
      using True j(1) same by (subst trigger_processing.simps) (simp add: start_one_def)
    also have "\<dots> = start_jobs (startable (start_one job q')) (start_one job q')"
      using "1.IH" [OF _ _ j(1) [symmetric] refl] True by (simp add: start_one_def)
    also have "\<dots> = start_jobs (startable q) q"
    proof -
      have "nat (max_concurrency q - running_workers q) = Suc (nat (max_concurrency q - (running_workers q + 1)))"
        using True by (simp add: Suc_nat_eq_nat_zadd1)
      then have "startable q = Suc (startable (start_one job q'))"
        using True j(2) same by (simp add: startable_def)
      then show ?thesis by (simp add: start_jobs_Suc [OF j(1)])
    qed
    finally show ?thesis .
  qed
qed

section \<open>Every promise is in one place\<close>

fun worker_jobs :: "worker \<Rightarrow> message_job list" where
  "worker_jobs (Acquiring job until) = [job]"
| "worker_jobs (Sending job) = [job]"
| "worker_jobs (Backoff job due) = [job]"
| "worker_jobs Finishing = []"

text \<open>The promises of queued jobs, of jobs in flight, of settled jobs and of dropped jobs.\<close>

definition places :: "message_queue \<Rightarrow> nat multiset" where
  "places q =
     mset (map job_promise (pending q)) + mset (map job_promise (concat (map worker_jobs (workers q)))) +
     mset (map (job_promise \<circ> fst) (settled q)) + mset (cleared q)"

lemma mset_concat_update:
  assumes "i < length xs"
  shows "mset (concat (map f (xs[i := y]))) + mset (f (xs ! i)) = mset (concat (map f xs)) + mset (f y)"
proof -
  have "xs = take i xs @ xs ! i # drop (Suc i) xs" using assms by (rule id_take_nth_drop)
  then have "mset (concat (map f xs)) =
      mset (concat (map f (take i xs))) + mset (f (xs ! i)) + mset (concat (map f (drop (Suc i) xs)))"
    by (metis (no_types) concat.simps(2) concat_append list.simps(9) map_append mset_append add.assoc)
  moreover have "mset (concat (map f (xs[i := y]))) =
      mset (concat (map f (take i xs))) + mset (f y) + mset (concat (map f (drop (Suc i) xs)))"
    using assms by (simp add: upd_conv_take_nth_drop)
  ultimately show ?thesis by simp
qed

lemma worker_replaced:
  assumes "i < length ws" and "ws ! i = w"
  shows "mset (map job_promise (concat (map worker_jobs (ws[i := w'])))) + mset (map job_promise (worker_jobs w))
    = mset (map job_promise (concat (map worker_jobs ws))) + mset (map job_promise (worker_jobs w'))"
  using arg_cong [OF mset_concat_update [OF assms(1), of worker_jobs w'], of "image_mset job_promise"] assms(2)
  by (simp only: image_mset_union mset_map)

lemma worker_removed:
  assumes "i < length ws" and "ws ! i = Finishing"
  shows "concat (map worker_jobs (take i ws @ drop (Suc i) ws)) = concat (map worker_jobs ws)"
proof -
  have "ws = take i ws @ Finishing # drop (Suc i) ws" using assms id_take_nth_drop by metis
  then show ?thesis by (metis (no_types) append_Nil concat.simps(2) concat_append list.simps(9) map_append
        worker_jobs.simps(4))
qed

lemma pending_start_jobs: "pending (start_jobs k q) = drop k (pending q)"
  by (simp add: start_jobs_def pending_def)

lemma trigger_fields:
  "pending (trigger_processing q) = drop (startable q) (pending q)"
  "workers (trigger_processing q) = workers q @ map (start_worker (start_until q)) (take (startable q) (pending q))"
  by (simp_all add: trigger_processing_eq pending_start_jobs) (simp add: start_jobs_def)

lemma settled_trigger [simp]: "settled (trigger_processing q) = settled q"
  by (simp add: trigger_processing_eq start_jobs_def)

lemma startable_le: "startable q \<le> length (pending q)"
  by (simp add: startable_def)

lemma places_start_jobs: "places (start_jobs k q) = places q"
proof -
  have "concat (map worker_jobs (map (start_worker u) ks)) = map (job_status_update (\<lambda>_. JobProcessing)) ks"
    for u ks by (induction ks) (simp_all add: start_worker_def)
  then have "mset (map job_promise (concat (map worker_jobs (workers (start_jobs k q)))))
      = mset (map job_promise (concat (map worker_jobs (workers q)))) + mset (map job_promise (take k (pending q)))"
    by (simp add: start_jobs_def comp_def)
  moreover have "mset (map job_promise (pending q))
      = mset (map job_promise (take k (pending q))) + mset (map job_promise (drop k (pending q)))"
    by (metis append_take_drop_id map_append mset_append)
  ultimately show ?thesis
    by (simp add: places_def pending_start_jobs) (simp add: start_jobs_def)
qed

lemma places_trigger [simp]: "places (trigger_processing q) = places q"
  by (simp add: trigger_processing_eq places_start_jobs)

lemma promises_trigger [simp]: "promises (trigger_processing q) = promises q"
  by (simp add: trigger_processing_eq start_jobs_def)

lemma places_other [simp]:
  "places (q\<lparr>is_processing := b\<rparr>) = places q" "places (q\<lparr>running_workers := r\<rparr>) = places q"
  "places (q\<lparr>processing_count := r\<rparr>) = places q" "places (q\<lparr>clock := t\<rparr>) = places q"
  "places (q\<lparr>promises := n\<rparr>) = places q"
  by (simp_all add: places_def pending_def)

lemma mset_exchange:
  assumes "x' + a = x + (b :: 'a multiset)"
  shows "p + x' + s + c + a = p + x + s + c + b"
proof -
  have "p + x' + s + c + a = (p + s + c) + (x' + a)" by (simp add: ac_simps)
  also have "\<dots> = p + x + s + c + b" unfolding assms by (simp add: ac_simps)
  finally show ?thesis .
qed

lemma places_worker:
  assumes "i < length (workers q)" and "workers q ! i = w"
  shows "places (set_worker i w' q) + mset (map job_promise (worker_jobs w)) =
    places q + mset (map job_promise (worker_jobs w'))"
proof -
  have eqs: "pending (set_worker i w' q) = pending q" "settled (set_worker i w' q) = settled q"
    "cleared (set_worker i w' q) = cleared q" "workers (set_worker i w' q) = (workers q)[i := w']"
    by (simp_all add: set_worker_def pending_def)
  show ?thesis
    unfolding places_def eqs by (rule mset_exchange) (rule worker_replaced [OF assms])
qed

lemma places_push: "places (push_job job q) = add_mset (job_promise job) (places q)"
  "places (unshift_job job q) = add_mset (job_promise job) (places q)"
  by (cases "job_priority job"; simp add: places_def push_job_def unshift_job_def pending_def)+

lemma places_settle: "places (q\<lparr>settled := settled q @ [(job, r)]\<rparr>) = add_mset (job_promise job) (places q)"
  "places (q\<lparr>completed_count := n\<rparr>) = places q" "places (q\<lparr>failed_count := n\<rparr>) = places q"
  "places (q\<lparr>limiter := l, recorded := rs, sends := ss\<rparr>) = places q"
  by (simp_all add: places_def pending_def)

lemma set_worker_simps [simp]:
  "workers (set_worker i w q) = (workers q)[i := w]" "pending (set_worker i w q) = pending q"
  "promises (set_worker i w q) = promises q" "settled (set_worker i w q) = settled q"
  "cleared (set_worker i w q) = cleared q" "sends (set_worker i w q) = sends q"
  "running_workers (set_worker i w q) = running_workers q"
  "processing_count (set_worker i w q) = processing_count q"
  "max_concurrency (set_worker i w q) = max_concurrency q"
  "is_processing (set_worker i w q) = is_processing q" "clock (set_worker i w q) = clock q"
  "limiter (set_worker i w q) = limiter q" "recorded (set_worker i w q) = recorded q"
  "completed_count (set_worker i w q) = completed_count q" "failed_count (set_worker i w q) = failed_count q"
  "high_queue (set_worker i w q) = high_queue q" "normal_queue (set_worker i w q) = normal_queue q"
  "low_queue (set_worker i w q) = low_queue q"
  by (simp_all add: set_worker_def pending_def)

lemma places_work:
  assumes "work_step q q'"
  shows "places q' = places q"
  using assms
proof cases
  case (acquire i job until rnd)
  let ?q = "q\<lparr>limiter := acquire_end (clock q) (limiter q), recorded := recorded q @ [clock q],
      sends := sends q @ [job_promise job]\<rparr>"
  from acquire places_worker [of i ?q _ "Sending job"] show ?thesis
    by (simp add: acquired_def places_settle)
next
  case (sent i job result)
  let ?q = "q\<lparr>completed_count := completed_count q + 1,
      settled := settled q @ [(job\<lparr>job_status := JobCompleted\<rparr>, Inr result)]\<rparr>"
  have "places ?q = add_mset (job_promise job) (places q)"
    by (simp add: places_def pending_def)
  with sent places_worker [of i ?q _ Finishing] show ?thesis by (simp add: job_sent_def)
next
  case (send_failed i job err)
  let ?q = "q\<lparr>failed_count := failed_count q + 1, settled := settled q @
      [(job\<lparr>job_retry_count := job_retry_count job + 1, job_status := JobFailed\<rparr>, Inl err)]\<rparr>"
  have "places ?q = add_mset (job_promise job) (places q)"
    by (simp add: places_def pending_def)
  with send_failed places_worker [of i ?q _ Finishing] places_worker [of i q "Sending job" "Backoff
      (job\<lparr>job_retry_count := job_retry_count job + 1\<rparr>)
      (clock q + timer_delay (job_retry_delay_ms job * 2 ^ nat (job_retry_count job)))"]
  show ?thesis by (simp add: job_send_failed_def Let_def)
next
  case (backoff i job due)
  have "workers (unshift_job job q) = workers q" by (simp add: unshift_job_def split: priority.split)
  with backoff places_worker [of i "unshift_job job q" _ Finishing] show ?thesis
    by (simp add: backoff_over_def places_push)
next
  case (finish i)
  then show ?thesis
    using worker_removed [of i "workers q"] by (simp add: job_finished_def) (simp add: places_def pending_def)
qed

text \<open>Every promise made is in exactly one place.\<close>

definition placed :: "message_queue \<Rightarrow> bool" where
  "placed q = (places q = mset [0..<promises q])"

lemma promises_work: "work_step q q' \<Longrightarrow> promises q' = promises q"
  by (cases rule: work_step.cases)
    (auto simp: acquired_def job_sent_def job_send_failed_def backoff_over_def job_finished_def
      unshift_job_def Let_def split: priority.split)

lemma places_enqueue:
  "places (enqueue generatedId dest content opts q) = add_mset (promises q) (places q) \<and>
   promises (enqueue generatedId dest content opts q) = Suc (promises q)"
  by (simp add: enqueue_def places_push new_job_def) (simp add: push_job_def split: priority.split)

lemma placed_step:
  assumes "placed q" and "queue_step q q'"
  shows "placed q'"
  using assms(2)
proof cases
  case (enqueue generatedId dest content opts)
  then show ?thesis using assms(1) by (simp add: placed_def places_enqueue)
next
  case clear
  have "places (clear_queue q) = places q"
    by (simp add: clear_queue_def places_def pending_def ac_simps)
  with clear show ?thesis using assms(1) by (simp add: placed_def) (simp add: clear_queue_def)
next
  case work
  then show ?thesis using assms(1) by (simp add: placed_def places_work promises_work)
qed (use assms(1) in \<open>auto simp: placed_def start_queue_def pause_queue_def\<close>)

lemma placed_reachable: "reachable q \<Longrightarrow> placed q"
proof (induction rule: reachable.induct)
  case (new now opts)
  show ?case by (simp add: placed_def places_def new_message_queue_def pending_def)
next
  case (step q q')
  then show ?case by (blast intro: placed_step)
qed

lemma work_keeps:
  assumes "work_step q q'"
  shows "is_processing q' = is_processing q \<and> max_concurrency q' = max_concurrency q \<and>
     promises q' = promises q \<and> cleared q' = cleared q"
  using assms
  by cases (auto simp: acquired_def job_sent_def job_send_failed_def backoff_over_def job_finished_def
      trigger_processing_eq start_jobs_def unshift_job_def Let_def split: priority.split)

lemma concurrency_kept: "queue_step q q' \<Longrightarrow> max_concurrency q' = max_concurrency q"
  by (cases rule: queue_step.cases) (auto simp: enqueue_def push_job_def trigger_processing_eq start_jobs_def
      start_queue_def pause_queue_def clear_queue_def dest: work_keeps split: priority.split)

section \<open>Counters, concurrency and idle workers\<close>

text \<open>
  The counters tell the truth, the concurrency is respected, every queue holds jobs of its
  own priority, and a running queue with a free worker has nothing to start, unless a
  \<^verbatim>\<open>finally\<close> callback is still to come.
\<close>

definition counted :: "message_queue \<Rightarrow> bool" where
  "counted q =
     (running_workers q = int (length (workers q)) \<and> processing_count q = int (length (workers q)) \<and>
      running_workers q \<le> max 0 (max_concurrency q) \<and>
      completed_count q = int (length (filter (\<lambda>(j, r). \<not> isl r) (settled q))) \<and>
      failed_count q = int (length (filter (\<lambda>(j, r). isl r) (settled q))))"

definition routed :: "message_queue \<Rightarrow> bool" where
  "routed q =
     ((\<forall>j \<in> set (high_queue q). job_priority j = HIGH) \<and>
      (\<forall>j \<in> set (normal_queue q). job_priority j = NORMAL) \<and>
      (\<forall>j \<in> set (low_queue q). job_priority j = LOW))"

definition busy :: "message_queue \<Rightarrow> bool" where
  "busy q = (is_processing q \<longrightarrow> running_workers q < max_concurrency q \<longrightarrow>
     pending q = [] \<or> Finishing \<in> set (workers q))"

lemma counted_trigger:
  assumes "counted q"
  shows "counted (trigger_processing q)"
proof -
  have "running_workers q + int (startable q) \<le> max 0 (max_concurrency q)"
    using assms by (auto simp: counted_def startable_def)
  then show ?thesis
    using assms startable_le [of q] by (simp add: trigger_processing_eq counted_def) (simp add: start_jobs_def)
qed

lemma busy_trigger: "busy (trigger_processing q)"
proof -
  have "pending (start_jobs (startable q) q) = []"
    if "is_processing q" "running_workers q + int (startable q) < max_concurrency q"
    using that by (auto simp: pending_start_jobs startable_def)
  moreover have "is_processing (start_jobs (startable q) q) = is_processing q"
    "running_workers (start_jobs (startable q) q) = running_workers q + int (startable q)"
    "max_concurrency (start_jobs (startable q) q) = max_concurrency q"
    by (simp_all add: start_jobs_def)
  ultimately show ?thesis by (simp add: busy_def trigger_processing_eq)
qed

lemma routed_trigger: "routed q \<Longrightarrow> routed (trigger_processing q)"
  by (auto simp: trigger_processing_eq start_jobs_def routed_def dest: in_set_dropD)

lemma counted_work:
  assumes "counted q" and "work_step q q'"
  shows "counted q'"
  using assms(2)
proof cases
  case (finish i)
  then show ?thesis
    using assms(1) unfolding finish(1) job_finished_def by (intro counted_trigger) (auto simp: counted_def)
qed (use assms(1) in \<open>auto simp: counted_def acquired_def job_sent_def job_send_failed_def
    backoff_over_def unshift_job_def Let_def split: priority.split\<close>)

lemma Finishing_update:
  "Finishing \<in> set ws \<Longrightarrow> ws ! i \<noteq> Finishing \<Longrightarrow> Finishing \<in> set (ws[i := w])"
  by (metis in_set_conv_nth length_list_update nth_list_update_neq)

lemma busy_work:
  assumes "busy q" and "work_step q q'"
  shows "busy q'"
  using assms(2)
proof cases
  case (acquire i job until rnd)
  then show ?thesis
    using assms(1) by (auto simp: busy_def acquired_def pending_def intro!: Finishing_update)
next
  case (sent i job result)
  then show ?thesis by (simp add: busy_def job_sent_def set_update_memI)
next
  case (send_failed i job err)
  then show ?thesis
    using assms(1) by (auto simp: busy_def job_send_failed_def pending_def Let_def set_update_memI
        intro!: Finishing_update)
next
  case (backoff i job due)
  then have "i < length (workers (unshift_job job q))" by (simp add: unshift_job_def split: priority.split)
  then show ?thesis using backoff by (simp add: busy_def backoff_over_def set_update_memI)
next
  case (finish i)
  then show ?thesis by (simp add: job_finished_def busy_trigger)
qed

lemma routed_work:
  assumes "routed q" and "work_step q q'"
  shows "routed q'"
  using assms(2)
proof cases
  case (send_failed i job err)
  then show ?thesis
    using assms(1) unfolding send_failed(1) job_send_failed_def Let_def by (simp add: routed_def)
next
  case (finish i)
  show ?thesis
    using assms(1) unfolding finish(1) job_finished_def by (intro routed_trigger) (simp add: routed_def)
qed (use assms(1) in \<open>auto simp: routed_def acquired_def job_sent_def backoff_over_def unshift_job_def
    split: priority.split\<close>)

text \<open>All three, in every reachable state.\<close>

definition queue_inv :: "message_queue \<Rightarrow> bool" where
  "queue_inv q = (counted q \<and> routed q \<and> busy q)"

lemma queue_inv_step:
  assumes "queue_inv q" and "queue_step q q'"
  shows "queue_inv q'"
  using assms(2)
proof cases
  case (enqueue generatedId dest content opts)
  let ?q = "push_job (new_job generatedId dest content opts q) (q\<lparr>promises := promises q + 1\<rparr>)"
  have "counted ?q" "routed ?q"
    using assms(1) by (auto simp: queue_inv_def counted_def routed_def push_job_def split: priority.split)
  then show ?thesis
    by (simp add: enqueue Message_Queue.enqueue_def queue_inv_def counted_trigger routed_trigger busy_trigger)
next
  case start
  have "counted (q\<lparr>is_processing := True\<rparr>)" "routed (q\<lparr>is_processing := True\<rparr>)"
    using assms(1) by (auto simp: queue_inv_def counted_def routed_def)
  then show ?thesis
    by (simp add: start start_queue_def queue_inv_def counted_trigger routed_trigger busy_trigger)
next
  case work
  then show ?thesis using assms(1) counted_work routed_work busy_work unfolding queue_inv_def by blast
qed (use assms(1) in \<open>auto simp: queue_inv_def counted_def routed_def busy_def pause_queue_def
    clear_queue_def pending_def\<close>)

lemma queue_inv_reachable: "reachable q \<Longrightarrow> queue_inv q"
proof (induction rule: reachable.induct)
  case (new now opts)
  show ?case
    by (simp add: queue_inv_def counted_def routed_def busy_def new_message_queue_def pending_def)
next
  case (step q q')
  then show ?case by (blast intro: queue_inv_step)
qed

section \<open>Attempts\<close>

text \<open>How often the job's message was handed to the sender, in each phase of the job.\<close>

definition waiting_ok :: "nat list \<Rightarrow> message_job \<Rightarrow> bool" where
  "waiting_ok ss j =
     (0 \<le> job_retry_count j \<and> job_retry_count j \<le> max 0 (job_max_retries j) \<and>
      int (count_list ss (job_promise j)) = job_retry_count j)"

definition sending_ok :: "nat list \<Rightarrow> message_job \<Rightarrow> bool" where
  "sending_ok ss j =
     (0 \<le> job_retry_count j \<and> job_retry_count j \<le> max 0 (job_max_retries j) \<and>
      int (count_list ss (job_promise j)) = job_retry_count j + 1)"

fun worker_ok :: "nat list \<Rightarrow> worker \<Rightarrow> bool" where
  "worker_ok ss (Acquiring j until) = waiting_ok ss j"
| "worker_ok ss (Sending j) = sending_ok ss j"
| "worker_ok ss (Backoff j due) = waiting_ok ss j"
| "worker_ok ss Finishing = True"

fun settled_ok :: "nat list \<Rightarrow> message_job \<times> (jstr + message) \<Rightarrow> bool" where
  "settled_ok ss (j, Inl err) =
     (int (count_list ss (job_promise j)) = max 0 (job_max_retries j) + 1)"
| "settled_ok ss (j, Inr result) = sending_ok ss j"

definition attempts_ok :: "message_queue \<Rightarrow> bool" where
  "attempts_ok q =
     ((\<forall>j \<in> set (pending q). waiting_ok (sends q) j) \<and> (\<forall>w \<in> set (workers q). worker_ok (sends q) w) \<and>
      (\<forall>s \<in> set (settled q). settled_ok (sends q) s) \<and> (\<forall>p \<in> set (sends q). p < promises q))"

text \<open>A new send of a promise only concerns the jobs with this promise.\<close>

definition promise_of :: "worker \<Rightarrow> nat set" where
  "promise_of w = job_promise ` set (worker_jobs w)"

lemma ok_other_send:
  "p \<noteq> job_promise j \<Longrightarrow> waiting_ok (ss @ [p]) j = waiting_ok ss j"
  "p \<noteq> job_promise j \<Longrightarrow> sending_ok (ss @ [p]) j = sending_ok ss j"
  "p \<notin> promise_of w \<Longrightarrow> worker_ok (ss @ [p]) w = worker_ok ss w"
  "p \<noteq> job_promise (fst s) \<Longrightarrow> settled_ok (ss @ [p]) s = settled_ok ss s"
proof -
  show 1: "p \<noteq> job_promise j \<Longrightarrow> waiting_ok (ss @ [p]) j = waiting_ok ss j" for j
    by (simp add: waiting_ok_def)
  show 2: "p \<noteq> job_promise j \<Longrightarrow> sending_ok (ss @ [p]) j = sending_ok ss j" for j
    by (simp add: sending_ok_def)
  show "p \<notin> promise_of w \<Longrightarrow> worker_ok (ss @ [p]) w = worker_ok ss w"
    by (cases w) (simp_all add: promise_of_def 1 2)
  show "p \<noteq> job_promise (fst s) \<Longrightarrow> settled_ok (ss @ [p]) s = settled_ok ss s"
    by (cases "(ss, s)" rule: settled_ok.cases) (simp_all add: 2)
qed

definition others :: "nat \<Rightarrow> message_queue \<Rightarrow> worker list" where
  "others i q = take i (workers q) @ drop (Suc i) (workers q)"

lemma set_workers_split:
  assumes "i < length (workers q)"
  shows "set (workers q) = insert (workers q ! i) (set (others i q))"
    and "set ((workers q)[i := w]) = insert w (set (others i q))"
proof -
  have "workers q = take i (workers q) @ workers q ! i # drop (Suc i) (workers q)"
    using assms by (rule id_take_nth_drop)
  then show "set (workers q) = insert (workers q ! i) (set (others i q))"
    unfolding others_def by (metis Un_insert_right list.simps(15) set_append)
  show "set ((workers q)[i := w]) = insert w (set (others i q))"
    using assms by (simp add: others_def upd_conv_take_nth_drop)
qed

text \<open>The promise of a job in flight is nowhere else.\<close>

lemma promise_unique:
  assumes "placed q" and "i < length (workers q)" and "worker_jobs (workers q ! i) = [job]"
  shows "\<forall>j \<in> set (pending q). job_promise j \<noteq> job_promise job"
    and "\<forall>w \<in> set (others i q). job_promise job \<notin> promise_of w"
    and "\<forall>s \<in> set (settled q). job_promise (fst s) \<noteq> job_promise job"
    and "job_promise job < promises q"
proof -
  let ?p = "job_promise job" and ?rest = "map job_promise (concat (map worker_jobs (others i q)))"
  have "workers q = take i (workers q) @ workers q ! i # drop (Suc i) (workers q)"
    using assms(2) by (rule id_take_nth_drop)
  then have "concat (map worker_jobs (workers q)) = concat (map worker_jobs (take i (workers q))) @
      worker_jobs (workers q ! i) @ concat (map worker_jobs (drop (Suc i) (workers q)))"
    by (metis concat.simps(2) concat_append list.simps(9) map_append)
  then have "mset (map job_promise (concat (map worker_jobs (workers q)))) = add_mset ?p (mset ?rest)"
    using assms(3) by (simp add: others_def)
  then have eq: "add_mset ?p (mset (map job_promise (pending q)) + mset ?rest +
      mset (map (job_promise \<circ> fst) (settled q)) + mset (cleared q)) = mset [0..<promises q]"
    using assms(1) by (simp add: placed_def places_def)
  let ?all = "?p # map job_promise (pending q) @ ?rest @ map (job_promise \<circ> fst) (settled q) @ cleared q"
  have "mset ?all = mset [0..<promises q]"
    unfolding eq [symmetric] by (simp add: add.assoc del: mset_map)
  then have "distinct ?all = distinct [0..<promises q]" by (rule mset_eq_imp_distinct_iff)
  then have notin: "?p \<notin> job_promise ` set (pending q)" "?p \<notin> set ?rest"
    "?p \<notin> (job_promise \<circ> fst) ` set (settled q)" by simp_all
  show "\<forall>j \<in> set (pending q). job_promise j \<noteq> ?p" using notin(1) by (metis imageI)
  show "\<forall>w \<in> set (others i q). ?p \<notin> promise_of w" using notin(2) by (auto simp: promise_of_def)
  show "\<forall>s \<in> set (settled q). job_promise (fst s) \<noteq> ?p" using notin(3) by force
  have "?p \<in># mset [0..<promises q]" unfolding eq [symmetric] by simp
  then show "?p < promises q" by simp
qed

lemma attempts_trigger:
  assumes "attempts_ok q"
  shows "attempts_ok (trigger_processing q)"
proof -
  have "worker_ok (sends q) (start_worker u j)" if "j \<in> set (take (startable q) (pending q))" for u j
    using assms that by (auto simp: attempts_ok_def start_worker_def waiting_ok_def dest: in_set_takeD)
  moreover have "waiting_ok (sends q) j" if "j \<in> set (drop (startable q) (pending q))" for j
    using assms in_set_dropD [OF that] by (simp add: attempts_ok_def)
  moreover have "sends (start_jobs k q) = sends q" "settled (start_jobs k q) = settled q"
    "promises (start_jobs k q) = promises q"
    "workers (start_jobs k q) = workers q @ map (start_worker (start_until q)) (take k (pending q))" for k
    by (simp_all add: start_jobs_def)
  ultimately show ?thesis
    using assms by (auto simp: attempts_ok_def trigger_processing_eq pending_start_jobs)
qed

lemma attempts_acquired:
  assumes "attempts_ok q" and "placed q" and i: "i < length (workers q)" "workers q ! i = Acquiring job until"
  shows "attempts_ok (acquired i job q)"
proof -
  let ?p = "job_promise job"
  have u: "\<forall>j \<in> set (pending q). job_promise j \<noteq> ?p" "\<forall>w \<in> set (others i q). ?p \<notin> promise_of w"
    "\<forall>s \<in> set (settled q). job_promise (fst s) \<noteq> ?p" "?p < promises q"
    using promise_unique [OF assms(2) i(1), of job] i(2) by simp_all
  have "waiting_ok (sends q) job" using assms(1) i by (force simp: attempts_ok_def set_workers_split)
  then have "sending_ok (sends q @ [?p]) job" by (simp add: waiting_ok_def sending_ok_def)
  moreover have "\<forall>w \<in> set (others i q). worker_ok (sends q @ [?p]) w"
    using assms(1) u(2) i(1) by (simp add: attempts_ok_def set_workers_split ok_other_send)
  moreover have "\<forall>j \<in> set (pending q). waiting_ok (sends q @ [?p]) j"
    using assms(1) u(1) by (metis attempts_ok_def ok_other_send(1))
  moreover have "\<forall>s \<in> set (settled q). settled_ok (sends q @ [?p]) s"
    using assms(1) u(3) by (metis attempts_ok_def ok_other_send(4))
  ultimately show ?thesis
    using assms(1) u(4) i(1)
    by (simp add: attempts_ok_def acquired_def set_workers_split others_def) (simp add: pending_def)
qed

lemma attempts_work:
  assumes "attempts_ok q" and "placed q" and "work_step q q'"
  shows "attempts_ok q'"
  using assms(3)
proof cases
  case (acquire i job until rnd)
  then show ?thesis using assms attempts_acquired by simp
next
  case (sent i job result)
  then have "sending_ok (sends q) job" using assms(1) by (force simp: attempts_ok_def set_workers_split)
  then have "sending_ok (sends q) (job\<lparr>job_status := JobCompleted\<rparr>)" by (simp add: sending_ok_def)
  then show ?thesis
    using sent assms(1)
    by (simp add: attempts_ok_def job_sent_def set_workers_split others_def) (simp add: pending_def)
next
  case (send_failed i job err)
  then have ok: "sending_ok (sends q) job" using assms(1) by (force simp: attempts_ok_def set_workers_split)
  let ?j = "job\<lparr>job_retry_count := job_retry_count job + 1\<rparr>"
  have "job_retry_count job + 1 \<le> job_max_retries job \<Longrightarrow> waiting_ok (sends q) ?j"
    "\<not> job_retry_count job + 1 \<le> job_max_retries job \<Longrightarrow>
      settled_ok (sends q) (?j\<lparr>job_status := JobFailed\<rparr>, Inl err)"
    using ok by (auto simp: sending_ok_def waiting_ok_def)
  then show ?thesis
    using send_failed assms(1)
    by (simp add: attempts_ok_def job_send_failed_def set_workers_split others_def Let_def)
      (simp add: pending_def)
next
  case (backoff i job due)
  have eqs: "workers (unshift_job job q) = workers q" "sends (unshift_job job q) = sends q"
    "settled (unshift_job job q) = settled q" "promises (unshift_job job q) = promises q"
    "set (pending (unshift_job job q)) = insert job (set (pending q))"
    by (auto simp: unshift_job_def pending_def split: priority.split)
  have "waiting_ok (sends q) job" using backoff assms(1) by (force simp: attempts_ok_def set_workers_split)
  then show ?thesis
    using backoff assms(1) by (simp add: attempts_ok_def backoff_over_def eqs set_workers_split others_def)
next
  case (finish i)
  have "attempts_ok (q\<lparr>workers := take i (workers q) @ drop (Suc i) (workers q),
       running_workers := running_workers q - 1, processing_count := processing_count q - 1\<rparr>)"
    using assms(1) by (auto simp: attempts_ok_def pending_def dest: in_set_takeD in_set_dropD)
  then show ?thesis unfolding finish(1) job_finished_def by (rule attempts_trigger)
qed

lemma attempts_step:
  assumes "attempts_ok q" and "placed q" and "queue_step q q'"
  shows "attempts_ok q'"
  using assms(3)
proof cases
  case (enqueue generatedId dest content opts)
  let ?j = "new_job generatedId dest content opts q"
  let ?q = "push_job ?j (q\<lparr>promises := Suc (promises q)\<rparr>)"
  have eqs: "workers ?q = workers q" "sends ?q = sends q" "settled ?q = settled q"
    "promises ?q = Suc (promises q)"
    "set (pending ?q) = insert ?j (set (pending q))"
    by (auto simp: push_job_def pending_def split: priority.split)
  have "promises q \<notin> set (sends q)" using assms(1) by (auto simp: attempts_ok_def)
  then have "waiting_ok (sends q) ?j" by (simp add: waiting_ok_def new_job_def count_list_0_iff)
  then have "attempts_ok ?q" using assms(1) by (auto simp: attempts_ok_def eqs)
  then show ?thesis by (simp add: enqueue Message_Queue.enqueue_def attempts_trigger)
next
  case start
  have "attempts_ok (q\<lparr>is_processing := True\<rparr>)" using assms(1) by (simp add: attempts_ok_def pending_def)
  then show ?thesis by (simp add: start start_queue_def attempts_trigger)
next
  case work
  then show ?thesis using assms attempts_work by blast
qed (use assms(1) in \<open>auto simp: attempts_ok_def pause_queue_def clear_queue_def pending_def\<close>)

lemma attempts_reachable: "reachable q \<Longrightarrow> attempts_ok q"
proof (induction rule: reachable.induct)
  case (new now opts)
  show ?case by (simp add: attempts_ok_def new_message_queue_def pending_def)
next
  case (step q q')
  then show ?case using placed_reachable by (blast intro: attempts_step)
qed

end
