(* ===== verification/Queue_Properties.thy ===== *)
theory Queue_Properties
  imports Message_Queue
begin

text \<open>
  What the message queue promises, in every reachable state of its workers: the place of
  every promise, the counters and the concurrency, the number of attempts, the order of
  dispatch, that work comes to an end with every promise settled, that a serial queue keeps
  the limiter's sliding window, and what \<^verbatim>\<open>clear\<close> does to the jobs it drops.
\<close>

section \<open>A run\<close>

text \<open>A queue with the default options, one message enqueued, acquired, sent and finished.\<close>

definition no_queue_options :: message_queue_options where
  "no_queue_options = \<lparr>q_concurrency = None, q_rate_limiter = None, q_auto_start = None\<rparr>"

definition demo_job :: message_job where
  "demo_job = \<lparr>job_id = js ''j'', job_to = Inr (js ''1''), job_content = Text (js ''hi''),
     job_priority = NORMAL, job_max_retries = 3, job_retry_count = 0, job_retry_delay_ms = 1000,
     job_timeout_ms = 30000, job_created_at = 0, job_status = JobProcessing, job_promise = 0\<rparr>"

definition demo_message :: message where
  "demo_message = \<lparr>msg_id = [], source = \<lparr>chat = jid_user [], sender = jid_user [], is_from_me = True,
     is_group = False\<rparr>, msg_content = Text (js ''hi''), timestamp = 0, msg_status = Pending\<rparr>"

definition demo_queue :: "worker list \<Rightarrow> message_queue" where
  "demo_queue ws = (new_message_queue 0 no_queue_options)
     \<lparr>running_workers := int (length ws), processing_count := int (length ws), promises := 1, workers := ws\<rparr>"

definition demo_sent :: "worker list \<Rightarrow> message_queue" where
  "demo_sent ws = (demo_queue ws)\<lparr>clock := 1500, limiter := default_limiter\<lparr>timestamps := [1500]\<rparr>,
     recorded := [1500], sends := [0]\<rparr>"

lemmas demo_defs = demo_queue_def demo_sent_def demo_job_def new_message_queue_def no_queue_options_def
  default_limiter_def new_rate_limiter_def or_default_def quota_pause_def pause_def timer_delay_def

lemma demo_enqueue: "enqueue (js ''j'') (Inr (js ''1'')) (Text (js ''hi'')) \<lparr>opt_priority = None,
    opt_max_retries = None, opt_retry_delay_ms = None, opt_timeout_ms = None, opt_custom_id = None\<rparr>
    (new_message_queue 0 no_queue_options) = demo_queue [Acquiring demo_job 0]"
  by (simp add: enqueue_def trigger_processing_eq startable_def start_jobs_def push_job_def new_job_def
      pending_def start_worker_def start_until_def get_quota_wait_time_def demo_defs)

lemma demo_reachable: "rtranclp queue_step (new_message_queue 0 no_queue_options) (demo_sent [Sending demo_job])"
proof -
  let ?q = "demo_queue [Acquiring demo_job 0]" and ?q' = "(demo_queue [Acquiring demo_job 0])\<lparr>clock := 1500\<rparr>"
  have "queue_step (new_message_queue 0 no_queue_options) ?q"
    unfolding demo_enqueue [symmetric] by (rule queue_step.enqueue)
  moreover have "queue_step ?q ?q'" by (rule queue_step.tick) (simp add: demo_defs)
  moreover have "work_step ?q' (acquired 0 demo_job ?q')"
  proof (rule work_step.acquire [where rnd = 0])
    show "workers ?q' ! 0 = Acquiring demo_job 0" by (simp add: demo_defs)
    show "0 + pause (jitter_of 0 demo_job ?q') \<le> clock ?q'"
      by (simp add: jitter_of_def acquire_start_def get_quota_wait_time_def get_random_jitter_def demo_defs)
  qed (simp_all add: demo_defs)
  moreover have "acquired 0 demo_job ?q' = demo_sent [Sending demo_job]"
    by (simp add: acquired_def set_worker_def acquire_end_def demo_defs)
  ultimately show ?thesis
    by (metis (no_types, lifting) converse_rtranclp_into_rtranclp rtranclp.rtrancl_refl queue_step.work)
qed

lemma reachable_rtranclp: "rtranclp queue_step q q' \<Longrightarrow> reachable q \<Longrightarrow> reachable q'"
  by (induction rule: rtranclp_induct) (auto intro: reachable.step)

lemma demo_sent_reachable: "reachable (demo_sent [Sending demo_job])"
  using demo_reachable reachable.new by (rule reachable_rtranclp)

lemma demo_done: "queue_step (demo_sent [Sending demo_job]) (job_sent 0 demo_job demo_message (demo_sent [Sending demo_job]))"
  by (intro queue_step.work work_step.sent) (simp_all add: demo_defs)

lemma demo_finished:
  "reachable (job_finished 0 (job_sent 0 demo_job demo_message (demo_sent [Sending demo_job])))"
proof (intro reachable.step [OF reachable.step [OF demo_sent_reachable demo_done]] queue_step.work work_step.finish)
qed (simp_all add: job_sent_def demo_defs)

section \<open>Safety\<close>

text \<open>
  C2. In every reachable state of the queue each promise made by \<^verbatim>\<open>enqueue\<close> is in exactly one
  place: its job is queued, or in flight in one worker, or it has been settled once, or its
  job has been dropped by \<^verbatim>\<open>clear\<close>. No message is lost, duplicated or settled twice.
\<close>

theorem queue_conservation:
  assumes "reachable q"
  shows "mset (map job_promise (pending q)) + mset (map job_promise (concat (map worker_jobs (workers q)))) +
     mset (map (job_promise \<circ> fst) (settled q)) + mset (cleared q) = mset [0..<promises q]"
  using placed_reachable [OF assms] by (simp only: placed_def places_def)

theorem queue_conservation_witness:
  "mset (map job_promise (pending (demo_sent [Sending demo_job]))) +
     mset (map job_promise (concat (map worker_jobs (workers (demo_sent [Sending demo_job]))))) +
     mset (map (job_promise \<circ> fst) (settled (demo_sent [Sending demo_job]))) +
     mset (cleared (demo_sent [Sending demo_job])) = mset [0..<promises (demo_sent [Sending demo_job])]"
  by (rule queue_conservation) (rule demo_sent_reachable)

text \<open>
  C18. The counters of \<^verbatim>\<open>getStats\<close> are exact, never more workers run than
  \<^verbatim>\<open>maxConcurrency\<close>, every queue holds only jobs of its priority, and a queue that is
  processing with a free worker has no job waiting, unless a worker is about to call
  \<^verbatim>\<open>triggerProcessing\<close> from its \<^verbatim>\<open>finally\<close> callback.
\<close>

theorem queue_invariant:
  assumes "reachable q"
  shows "stat_processing (get_stats q) = int (length (workers q)) \<and>
    running_workers q = int (length (workers q)) \<and> running_workers q \<le> max 0 (max_concurrency q) \<and>
    stat_completed (get_stats q) = int (length (filter (\<lambda>(j, r). \<not> isl r) (settled q))) \<and>
    stat_failed (get_stats q) = int (length (filter (\<lambda>(j, r). isl r) (settled q))) \<and>
    routed q \<and>
    (is_processing q \<and> running_workers q < max_concurrency q \<longrightarrow>
       pending_total (get_stats q) = 0 \<or> Finishing \<in> set (workers q))"
  using queue_inv_reachable [OF assms]
  by (auto simp: queue_inv_def counted_def busy_def get_stats_def pending_def)

theorem queue_invariant_witness:
  "running_workers (demo_sent [Sending demo_job]) \<le> max 0 (max_concurrency (demo_sent [Sending demo_job]))"
  using queue_invariant [OF demo_sent_reachable] by blast

text \<open>
  Retries: a promise is rejected only after its message was handed to the sender
  \<^verbatim>\<open>maxRetries\<close> + 1 times (once when \<^verbatim>\<open>maxRetries\<close> is negative), and resolved after at most
  that many, the last of them its only success.
\<close>

theorem queue_attempts:
  assumes "reachable q" and "(job, r) \<in> set (settled q)"
  shows "(isl r \<longrightarrow> int (count_list (sends q) (job_promise job)) = max 0 (job_max_retries job) + 1) \<and>
    (\<not> isl r \<longrightarrow> int (count_list (sends q) (job_promise job)) = job_retry_count job + 1 \<and>
       job_retry_count job \<le> max 0 (job_max_retries job))"
proof -
  have "settled_ok (sends q) (job, r)" using attempts_reachable [OF assms(1)] assms(2) by (simp add: attempts_ok_def)
  then show ?thesis by (cases r) (auto simp: sending_ok_def)
qed

theorem queue_attempts_witness:
  "int (count_list (sends (job_sent 0 demo_job demo_message (demo_sent [Sending demo_job]))) 0) = 1"
proof -
  let ?q = "job_sent 0 demo_job demo_message (demo_sent [Sending demo_job])"
  have "reachable ?q" using demo_sent_reachable demo_done by (rule reachable.step)
  moreover have "(demo_job\<lparr>job_status := JobCompleted\<rparr>, Inr demo_message) \<in> set (settled ?q)"
    by (simp add: job_sent_def)
  ultimately show ?thesis
    using queue_attempts [of ?q "demo_job\<lparr>job_status := JobCompleted\<rparr>" "Inr demo_message"]
    by (simp add: demo_job_def)
qed

text \<open>
  The start loop takes as many waiting jobs as there are free workers, HIGH before
  NORMAL before LOW and within a queue the oldest first, and leaves the others in order.
\<close>

theorem trigger_starts_in_priority_order:
  "workers (trigger_processing q) =
     workers q @ map (start_worker (start_until q)) (take (startable q) (pending q)) \<and>
   pending (trigger_processing q) = drop (startable q) (pending q) \<and>
   running_workers (trigger_processing q) = running_workers q + int (startable q)"
  by (simp add: trigger_processing_eq pending_start_jobs) (simp add: start_jobs_def)

section \<open>Work comes to an end\<close>

text \<open>
  The work left: five steps per attempt still allowed (start, acquire, send, and either the
  backoff and the callback, or the callback).
\<close>

definition job_weight :: "message_job \<Rightarrow> nat" where
  "job_weight j = 5 * Suc (nat (job_max_retries j - job_retry_count j))"

fun worker_weight :: "worker \<Rightarrow> nat" where
  "worker_weight (Acquiring j until) = job_weight j - 1"
| "worker_weight (Sending j) = job_weight j - 2"
| "worker_weight (Backoff j due) = job_weight j + 2"
| "worker_weight Finishing = 1"

definition work_left :: "message_queue \<Rightarrow> nat" where
  "work_left q = sum_list (map job_weight (pending q)) + sum_list (map worker_weight (workers q))"

lemma work_left_start: "work_left (start_jobs k q) \<le> work_left q"
proof -
  have "sum_list (map (worker_weight \<circ> start_worker u) ks) \<le> sum_list (map job_weight ks)" for u ks
    by (rule sum_list_mono) (simp add: start_worker_def job_weight_def)
  moreover have "sum_list (map job_weight (pending q)) = sum_list (map job_weight (take k (pending q))) +
      sum_list (map job_weight (drop k (pending q)))"
    by (metis append_take_drop_id map_append sum_list_append)
  moreover have "workers (start_jobs k q) = workers q @ map (start_worker (start_until q)) (take k (pending q))"
    by (simp add: start_jobs_def)
  ultimately show ?thesis by (simp add: work_left_def pending_start_jobs)
qed

lemma work_left_trigger: "work_left (trigger_processing q) \<le> work_left q"
  by (simp add: trigger_processing_eq work_left_start)

lemma sum_worker_split:
  assumes "i < length (workers q)"
  shows "sum_list (map worker_weight (workers q)) = worker_weight (workers q ! i) + sum_list (map worker_weight (others i q))"
    and "sum_list (map worker_weight ((workers q)[i := w])) = worker_weight w + sum_list (map worker_weight (others i q))"
proof -
  have "workers q = take i (workers q) @ workers q ! i # drop (Suc i) (workers q)"
    using assms by (rule id_take_nth_drop)
  then have "map worker_weight (workers q) = map worker_weight (take i (workers q)) @
      worker_weight (workers q ! i) # map worker_weight (drop (Suc i) (workers q))"
    by (metis list.simps(9) map_append)
  then show "sum_list (map worker_weight (workers q)) = worker_weight (workers q ! i) + sum_list (map worker_weight (others i q))"
    by (simp add: others_def)
  show "sum_list (map worker_weight ((workers q)[i := w])) = worker_weight w + sum_list (map worker_weight (others i q))"
    using assms by (simp add: others_def upd_conv_take_nth_drop)
qed

lemma work_left_worker:
  assumes "i < length (workers q)" and "worker_weight w < worker_weight (workers q ! i)"
  shows "work_left (set_worker i w q) < work_left q"
  using assms by (simp add: work_left_def sum_worker_split)

lemma work_left_fields [simp]:
  "work_left (q\<lparr>limiter := l, recorded := rs, sends := ss\<rparr>) = work_left q"
  "work_left (q\<lparr>completed_count := n, settled := st\<rparr>) = work_left q"
  "work_left (q\<lparr>failed_count := n, settled := st\<rparr>) = work_left q"
  "work_left (q\<lparr>clock := t\<rparr>) = work_left q"
  by (simp_all add: work_left_def pending_def)

lemma work_decreases:
  assumes "work_step q q'"
  shows "work_left q' < work_left q"
  using assms
proof cases
  case (acquire i job until rnd)
  let ?q = "q\<lparr>limiter := acquire_end (clock q) (limiter q), recorded := recorded q @ [clock q],
      sends := sends q @ [job_promise job]\<rparr>"
  have "work_left (set_worker i (Sending job) ?q) < work_left ?q"
    using acquire by (intro work_left_worker) (simp_all add: job_weight_def)
  then show ?thesis unfolding acquire(1) acquired_def by simp
next
  case (sent i job result)
  let ?q = "q\<lparr>completed_count := completed_count q + 1,
      settled := settled q @ [(job\<lparr>job_status := JobCompleted\<rparr>, Inr result)]\<rparr>"
  have "work_left (set_worker i Finishing ?q) < work_left ?q"
    using sent by (intro work_left_worker) (simp_all add: job_weight_def)
  then show ?thesis unfolding sent(1) job_sent_def by simp
next
  case (send_failed i job err)
  let ?j = "job\<lparr>job_retry_count := job_retry_count job + 1\<rparr>"
  let ?q = "q\<lparr>failed_count := failed_count q + 1, settled := settled q @ [(?j\<lparr>job_status := JobFailed\<rparr>, Inl err)]\<rparr>"
  have "work_left (set_worker i Finishing ?q) < work_left ?q"
    using send_failed by (intro work_left_worker) (simp_all add: job_weight_def)
  moreover have "work_left (set_worker i (Backoff ?j due) q) < work_left q"
    if "job_retry_count job + 1 \<le> job_max_retries job" for due
  proof (rule work_left_worker)
    have "nat (job_max_retries job - job_retry_count job) =
        Suc (nat (job_max_retries job - (job_retry_count job + 1)))"
      using that by (simp add: Suc_nat_eq_nat_zadd1)
    then show "worker_weight (Backoff ?j due) < worker_weight (workers q ! i)"
      using send_failed(3) by (simp add: job_weight_def)
  qed (rule send_failed(2))
  ultimately show ?thesis unfolding send_failed(1) job_send_failed_def Let_def by simp
next
  case (backoff i job due)
  have "workers (unshift_job job q) = workers q"
    "sum_list (map job_weight (pending (unshift_job job q))) = job_weight job + sum_list (map job_weight (pending q))"
    by (simp_all add: unshift_job_def pending_def split: priority.split)
  then show ?thesis
    using backoff unfolding backoff(1) backoff_over_def by (simp add: work_left_def sum_worker_split)
next
  case (finish i)
  let ?q = "q\<lparr>workers := take i (workers q) @ drop (Suc i) (workers q),
       running_workers := running_workers q - 1, processing_count := processing_count q - 1\<rparr>"
  have "work_left ?q < work_left q"
    using finish sum_worker_split(1) [of i q] by (simp add: work_left_def pending_def others_def)
  then show ?thesis unfolding finish(1) job_finished_def using work_left_trigger [of ?q] by simp
qed

text \<open>\<open>work_run n q q'\<close>: time passes and the workers make \<open>n\<close> moves, the user makes no call.\<close>

inductive work_run :: "nat \<Rightarrow> message_queue \<Rightarrow> message_queue \<Rightarrow> bool" where
  refl: "work_run 0 q q"
| work: "work_run n q r \<Longrightarrow> work_step r q' \<Longrightarrow> work_run (Suc n) q q'"
| tick: "work_run n q r \<Longrightarrow> clock r \<le> t \<Longrightarrow> work_run n q (r\<lparr>clock := t\<rparr>)"

text \<open>
  C8. The workers always come to rest: as long as the user makes no call they make at most
  \<open>work_left\<close> moves (at most five per attempt each job may still make), however the sender
  behaves, in whatever order the workers move and however the time passes.
\<close>

theorem work_terminates:
  assumes "work_run n q q'"
  shows "n + work_left q' \<le> work_left q"
  using assms
proof (induction rule: work_run.induct)
  case (work n q r q')
  then show ?case using work_decreases [of r q'] by simp
qed simp_all

theorem work_terminates_witness:
  "1 + work_left (job_sent 0 demo_job demo_message (demo_sent [Sending demo_job]))
     \<le> work_left (demo_sent [Sending demo_job])"
proof (rule work_terminates)
  have "work_step (demo_sent [Sending demo_job]) (job_sent 0 demo_job demo_message (demo_sent [Sending demo_job]))"
    by (rule work_step.sent) (simp_all add: demo_defs)
  then show "work_run 1 (demo_sent [Sending demo_job]) (job_sent 0 demo_job demo_message (demo_sent [Sending demo_job]))"
    using work_run.work [OF work_run.refl] by simp
qed

text \<open>A worker can always move once enough time has passed.\<close>

lemma worker_progress:
  assumes "workers q \<noteq> []"
  shows "\<exists>t \<ge> clock q. \<exists>q'. work_step (q\<lparr>clock := t\<rparr>) q'"
proof -
  obtain w where w: "workers q ! 0 = w" and i: "0 < length (workers q)" using assms by auto
  show ?thesis
  proof (cases w)
    case (Acquiring job until)
    have j: "jitter_of 0 job (q\<lparr>clock := t\<rparr>) = jitter_of 0 job q" for t
      by (simp add: jitter_of_def acquire_start_def split_beta Let_def get_random_jitter_def quota_pruned)
    obtain t where t: "clock q \<le> t" "until + pause (jitter_of 0 job q) \<le> t"
      using max.cobounded1 max.cobounded2 by blast
    have "work_step (q\<lparr>clock := t\<rparr>) (acquired 0 job (q\<lparr>clock := t\<rparr>))"
      using w i Acquiring t(2) by (intro work_step.acquire [where rnd = 0]) (simp_all add: j)
    with t(1) show ?thesis by blast
  next
    case (Sending job)
    then have "work_step (q\<lparr>clock := clock q\<rparr>) (job_sent 0 job demo_message (q\<lparr>clock := clock q\<rparr>))"
      using w i by (intro work_step.sent) simp_all
    then show ?thesis by blast
  next
    case (Backoff job due)
    obtain t where t: "clock q \<le> t" "due \<le> t"
      using max.cobounded1 max.cobounded2 by blast
    have "work_step (q\<lparr>clock := t\<rparr>) (backoff_over 0 job (q\<lparr>clock := t\<rparr>))"
      using w i Backoff t(2) by (intro work_step.backoff) simp_all
    with t(1) show ?thesis by blast
  next
    case Finishing
    then have "work_step (q\<lparr>clock := clock q\<rparr>) (job_finished 0 (q\<lparr>clock := clock q\<rparr>))"
      using w i by (intro work_step.finish) simp_all
    then show ?thesis by blast
  qed
qed

text \<open>
  C7. Every message is answered: when no worker of a processing queue can move any more,
  however long one waits, every promise has been resolved or rejected, but for those whose
  jobs were dropped by \<^verbatim>\<open>clear\<close>. Together with the bound on the number of moves: every
  \<^verbatim>\<open>enqueue\<close> is answered after finitely many steps.
\<close>

theorem all_promises_settled:
  assumes "reachable q" and "is_processing q" and "1 \<le> max_concurrency q"
    and "\<forall>t \<ge> clock q. \<forall>q'. \<not> work_step (q\<lparr>clock := t\<rparr>) q'"
  shows "mset (map (job_promise \<circ> fst) (settled q)) + mset (cleared q) = mset [0..<promises q]"
proof -
  have w: "workers q = []" using worker_progress [of q] assms(4) by blast
  then have "pending q = []"
    using queue_inv_reachable [OF assms(1)] assms(2,3) by (simp add: queue_inv_def counted_def busy_def)
  with w placed_reachable [OF assms(1)] show ?thesis by (simp add: placed_def places_def)
qed

theorem all_promises_settled_witness:
  "\<exists>q :: message_queue. promises q = 1 \<and> cleared q = [] \<and> mset (map (job_promise \<circ> fst) (settled q)) = mset [0]"
proof -
  let ?q = "job_finished 0 (job_sent 0 demo_job demo_message (demo_sent [Sending demo_job]))"
  have q: "workers ?q = []" "is_processing ?q" "max_concurrency ?q = 1" "promises ?q = 1" "cleared ?q = []"
    by (simp_all add: job_finished_def job_sent_def trigger_processing_eq startable_def pending_def
        start_jobs_def set_worker_def demo_defs)
  have "\<not> work_step (?q\<lparr>clock := t\<rparr>) q'" for t q'
    using q(1) by (auto elim!: work_stepE)
  with all_promises_settled [OF demo_finished] q
  have "mset (map (job_promise \<circ> fst) (settled ?q)) = mset [0]" by simp
  with q show ?thesis by - (rule exI [of _ ?q], simp)
qed

section \<open>A serial queue keeps the sliding window\<close>

text \<open>The options are positive, and the window is not longer than a timer can wait.\<close>

definition limiter_ok :: "rate_limiter \<Rightarrow> bool" where
  "limiter_ok rl =
     (0 < max_messages_per_window rl \<and> 0 < window_ms rl \<and> window_ms rl \<le> 2147483647)"

text \<open>
  With one worker, the limiter tracks the recorded times; while that worker waits in the
  limiter, the window was read at some time before, and the wait follows from it.
\<close>

definition waits_rightly :: "int \<Rightarrow> message_queue \<Rightarrow> bool" where
  "waits_rightly until q =
     (\<exists>t now rl wt. tracks t (recorded q) rl \<and> limiter_ok rl \<and> t \<le> now \<and>
        get_quota_wait_time now rl = (wt, limiter q) \<and>
        until = now + quota_pause wt)"

definition windowed :: "message_queue \<Rightarrow> bool" where
  "windowed q =
     (max_concurrency q \<le> 1 \<and> limiter_ok (limiter q) \<and>
      (\<forall>job until. workers q = [Acquiring job until] \<longrightarrow> waits_rightly until q) \<and>
      ((\<forall>job until. workers q \<noteq> [Acquiring job until]) \<longrightarrow> tracks (clock q) (recorded q) (limiter q)))"

lemma quota_params:
  "get_quota_wait_time now rl = (wt, rl') \<Longrightarrow>
     max_messages_per_window rl' = max_messages_per_window rl \<and> window_ms rl' = window_ms rl"
  using quota_pruned [of now rl] by auto

lemma tracks_later: "tracks t h rl \<Longrightarrow> t \<le> t' \<Longrightarrow> tracks t' h rl"
  unfolding tracks_def by (meson order_trans)

lemma one_worker: "counted q \<Longrightarrow> max_concurrency q \<le> 1 \<Longrightarrow> workers q = [] \<or> (\<exists>w. workers q = [w])"
  by (cases "workers q"; cases "tl (workers q)") (auto simp: counted_def)

lemma windowed_trigger:
  assumes "counted q" and "windowed q"
  shows "windowed (trigger_processing q)"
proof (cases "startable q = 0")
  case True
  then show ?thesis using assms by (simp add: trigger_processing_eq)
next
  case False
  have c: "max_concurrency q \<le> 1" "running_workers q = int (length (workers q))"
    using assms by (simp_all add: windowed_def counted_def)
  have free: "running_workers q < max_concurrency q" "pending q \<noteq> []" "is_processing q"
    using False by (auto simp: startable_def split: if_splits)
  with c have "int (length (workers q)) < 1" "0 < max_concurrency q" by linarith+
  with c have w: "workers q = []" "max_concurrency q = 1" "running_workers q = 0" by simp_all
  have "1 \<le> length (pending q)" using free(2) by (cases "pending q") simp_all
  with free w have k: "workers q = []" "startable q = 1" "pending q \<noteq> []"
    by (simp_all add: startable_def)
  then obtain j where j: "take 1 (pending q) = [j]" by (cases "pending q") auto
  have t: "tracks (clock q) (recorded q) (limiter q)" "limiter_ok (limiter q)"
    using assms(2) k(1) by (simp_all add: windowed_def)
  obtain wt rl where q: "get_quota_wait_time (clock q) (limiter q) = (wt, rl)" by fastforce
  have q': "workers (trigger_processing q) = [start_worker (start_until q) j]"
    "limiter (trigger_processing q) = rl" "recorded (trigger_processing q) = recorded q"
    "max_concurrency (trigger_processing q) = max_concurrency q"
    using j k by (simp_all add: trigger_processing_eq start_jobs_def q)
  have "waits_rightly (start_until q) (trigger_processing q)"
    unfolding waits_rightly_def q'
    using t q by (auto simp: start_until_def)
  then show ?thesis
    using q' c(1) t(2) quota_params [OF q] by (simp add: windowed_def start_worker_def limiter_ok_def)
qed

lemma windowed_fields:
  assumes "windowed q" and "workers q' = workers q" "limiter q' = limiter q" "recorded q' = recorded q"
    "clock q' = clock q" "max_concurrency q' = max_concurrency q"
  shows "windowed q'"
  using assms by (simp add: windowed_def waits_rightly_def)

text \<open>Any other phase of the only worker.\<close>

lemma windowed_not_acquiring:
  assumes "workers q = [] \<or> (\<exists>w. workers q = [w] \<and> (\<forall>j u. w \<noteq> Acquiring j u))"
  shows "windowed q \<longleftrightarrow> max_concurrency q \<le> 1 \<and> limiter_ok (limiter q) \<and>
    tracks (clock q) (recorded q) (limiter q)"
  using assms by (auto simp: windowed_def)

lemma windowed_acquired:
  assumes "windowed q" and w: "workers q = [Acquiring job until]" and "until \<le> clock q"
  shows "windowed (acquired 0 job q)"
proof -
  have "waits_rightly until q" "max_concurrency q \<le> 1" using assms(1) w by (simp_all add: windowed_def)
  then obtain t now rl wt where t: "tracks t (recorded q) rl" "limiter_ok rl" "t \<le> now"
    "get_quota_wait_time now rl = (wt, limiter q)" "until = now + quota_pause wt"
    by (auto simp: waits_rightly_def)
  have "tracks (clock q) (recorded q @ [clock q]) (acquire_end (clock q) (limiter q))"
    using t assms(3) by (intro tracks_step [OF t(1)]) (simp_all add: limiter_ok_def)
  moreover have "limiter_ok (acquire_end (clock q) (limiter q))"
    using t(2) quota_params [OF t(4)] by (simp add: limiter_ok_def acquire_end_def)
  ultimately show ?thesis
    using w \<open>max_concurrency q \<le> 1\<close> by (simp add: windowed_def acquired_def)
qed

lemma windowed_work:
  assumes "windowed q" and "counted q" and "work_step q q'"
  shows "windowed q'"
proof -
  have one: "\<And>i. i < length (workers q) \<Longrightarrow> i = 0 \<and> workers q = [workers q ! 0]"
    using one_worker [OF assms(2)] assms(1) by (auto simp: windowed_def)
  show ?thesis
    using assms(3)
  proof cases
    case (acquire i job until rnd)
    then have "i = 0" "workers q = [Acquiring job until]" "until \<le> clock q"
      using one [of i] pause_bounds(1) [of "jitter_of rnd job q"] by auto
    then show ?thesis unfolding acquire(1) using windowed_acquired [OF assms(1)] by simp
  next
    case (sent i job result)
    then have w: "i = 0" "workers q = [Sending job]" using one [of i] by auto
    then have "tracks (clock q) (recorded q) (limiter q)" using assms(1) by (simp add: windowed_def)
    then show ?thesis
      unfolding sent(1) using w assms(1) by (subst windowed_not_acquiring) (auto simp: windowed_def job_sent_def)
  next
    case (send_failed i job err)
    then have w: "i = 0" "workers q = [Sending job]" using one [of i] by auto
    then have "tracks (clock q) (recorded q) (limiter q)" using assms(1) by (simp add: windowed_def)
    then show ?thesis
      unfolding send_failed(1) using w assms(1)
      by (subst windowed_not_acquiring) (auto simp: windowed_def job_send_failed_def Let_def)
  next
    case (backoff i job due)
    then have w: "i = 0" "workers q = [Backoff job due]" using one [of i] by auto
    then have "tracks (clock q) (recorded q) (limiter q)" using assms(1) by (simp add: windowed_def)
    moreover have "workers (unshift_job job q) = workers q" "limiter (unshift_job job q) = limiter q"
      "recorded (unshift_job job q) = recorded q" "clock (unshift_job job q) = clock q"
      "max_concurrency (unshift_job job q) = max_concurrency q"
      by (simp_all add: unshift_job_def split: priority.split)
    ultimately show ?thesis
      unfolding backoff(1) using w assms(1)
      by (subst windowed_not_acquiring) (auto simp: windowed_def backoff_over_def)
  next
    case (finish i)
    let ?q = "q\<lparr>workers := take i (workers q) @ drop (Suc i) (workers q),
       running_workers := running_workers q - 1, processing_count := processing_count q - 1\<rparr>"
    have w: "i = 0" "workers q = [Finishing]" using finish one [of i] by auto
    then have "counted ?q" "windowed ?q"
      using assms(1,2) by (auto simp: windowed_def counted_def)
    then show ?thesis unfolding finish(1) job_finished_def by (intro windowed_trigger)
  qed
qed

lemma windowed_step:
  assumes "windowed q" and "counted q" and "queue_step q q'"
  shows "windowed q'"
  using assms(3)
proof cases
  case (enqueue generatedId dest content opts)
  let ?q = "push_job (new_job generatedId dest content opts q) (q\<lparr>promises := promises q + 1\<rparr>)"
  have "windowed ?q"
    by (rule windowed_fields [OF assms(1)]) (simp_all add: push_job_def split: priority.split)
  moreover have "counted ?q"
    using assms(2) by (auto simp: counted_def push_job_def split: priority.split)
  ultimately show ?thesis unfolding enqueue Message_Queue.enqueue_def by (intro windowed_trigger)
next
  case start
  have "windowed (q\<lparr>is_processing := True\<rparr>)" by (rule windowed_fields [OF assms(1)]) simp_all
  moreover have "counted (q\<lparr>is_processing := True\<rparr>)" using assms(2) by (simp add: counted_def)
  ultimately show ?thesis unfolding start start_queue_def by (intro windowed_trigger)
next
  case (tick t)
  then show ?thesis
    using assms(1) tracks_later [of "clock q" "recorded q" "limiter q" t]
    by (simp add: windowed_def waits_rightly_def)
next
  case work
  then show ?thesis using assms(1,2) windowed_work by blast
next
  case pause
  then show ?thesis by (intro windowed_fields [OF assms(1)]) (simp_all add: pause_queue_def)
next
  case clear
  then show ?thesis by (intro windowed_fields [OF assms(1)]) (simp_all add: clear_queue_def)
qed

lemma windowed_run:
  assumes "rtranclp queue_step q q'" and "windowed q" and "queue_inv q"
  shows "windowed q' \<and> queue_inv q' \<and> limiter_ok (limiter q')"
  using assms
proof (induction rule: rtranclp_induct)
  case base
  then show ?case by (simp add: windowed_def)
next
  case (step r s)
  then have "windowed r" "queue_inv r" "counted r" "queue_step r s"
    by (simp_all add: queue_inv_def)
  then have "windowed s" "queue_inv s"
    using windowed_step [of r s] queue_inv_step [of r s] by blast+
  then show ?case by (simp add: windowed_def)
qed

text \<open>
  C5. The limit on messages holds for a queue with at most one worker, the default: in any
  span of \<^verbatim>\<open>windowMs\<close> milliseconds it hands at most \<^verbatim>\<open>maxMessagesPerWindow\<close> messages to the
  sender, whatever is enqueued, paused, cleared, retried or failed. The window must not be
  longer than the $2^{31} - 1$ milliseconds a timer of Node can wait, and the limiter serves
  this queue only.
\<close>

theorem serial_queue_respects_window:
  assumes "rtranclp queue_step (new_message_queue now opts) q"
    and "or_default (q_concurrency opts) 1 \<le> 1"
    and "limiter_ok (or_default (q_rate_limiter opts) default_limiter)"
    and "timestamps (or_default (q_rate_limiter opts) default_limiter) = []"
  shows "length (filter (\<lambda>t. a \<le> t \<and> t < a + window_ms (limiter q)) (recorded q))
    \<le> nat (max_messages_per_window (limiter q))"
proof -
  let ?q = "new_message_queue now opts"
  have "windowed ?q"
    using assms(2-4) by (auto simp: windowed_def new_message_queue_def tracks_def spaced_def)
  moreover have "queue_inv ?q" by (rule queue_inv_reachable) (rule reachable.new)
  ultimately have w: "windowed q" "limiter_ok (limiter q)" using windowed_run [OF assms(1)] by blast+
  have "sorted (recorded q) \<and> spaced (nat (max_messages_per_window (limiter q))) (window_ms (limiter q)) (recorded q)"
  proof (cases "\<exists>job until. workers q = [Acquiring job until]")
    case True
    then obtain t now' rl wt where "tracks t (recorded q) rl" "get_quota_wait_time now' rl = (wt, limiter q)"
      using w(1) by (auto simp: windowed_def waits_rightly_def)
    then show ?thesis using quota_params by (metis tracks_def)
  next
    case False
    then show ?thesis using w(1) by (auto simp: windowed_def tracks_def)
  qed
  then show ?thesis using w(2) by (intro spaced_window) (simp_all add: limiter_ok_def)
qed

theorem serial_queue_respects_window_witness:
  "length (filter (\<lambda>t. 0 \<le> t \<and> t < 0 + window_ms (limiter (demo_sent [Sending demo_job])))
     (recorded (demo_sent [Sending demo_job]))) \<le> nat (max_messages_per_window (limiter (demo_sent [Sending demo_job])))"
  by (rule serial_queue_respects_window [OF demo_reachable])
    (simp_all add: no_queue_options_def or_default_def limiter_ok_def default_limiter_def new_rate_limiter_def)

section \<open>Clearing\<close>

lemma cleared_grows: "rtranclp queue_step q q' \<Longrightarrow> set (cleared q) \<subseteq> set (cleared q')"
proof (induction rule: rtranclp_induct)
  case (step r s)
  have work: "cleared b = cleared a" if "work_step a b" for a b
    using that
    by cases (auto simp: acquired_def job_sent_def job_send_failed_def backoff_over_def job_finished_def
        trigger_processing_eq start_jobs_def unshift_job_def Let_def split: priority.split)
  from step.hyps(2) have "set (cleared r) \<subseteq> set (cleared s)"
    by cases (auto simp: enqueue_def push_job_def trigger_processing_eq start_jobs_def start_queue_def
        pause_queue_def clear_queue_def work split: priority.split)
  with step.IH show ?case by blast
qed simp

text \<open>
  \<^verbatim>\<open>clear\<close> drops the waiting jobs without resolving or rejecting their promises: a caller
  that awaits one of them is never answered, whatever happens afterwards.
\<close>

theorem cleared_never_settled:
  assumes "reachable q" and "job \<in> set (pending q)" and "rtranclp queue_step (clear_queue q) q'"
  shows "job_promise job \<notin> (job_promise \<circ> fst) ` set (settled q')"
proof -
  have "reachable (clear_queue q)" using assms(1) queue_step.clear by (rule reachable.step)
  from placed_reachable [OF reachable_rtranclp [OF assms(3) this]] have "placed q'" .
  then have "mset (map job_promise (pending q') @ map job_promise (concat (map worker_jobs (workers q'))) @
      map (job_promise \<circ> fst) (settled q') @ cleared q') = mset [0..<promises q']"
    by (simp only: placed_def places_def mset_append add.assoc)
  then have "distinct (map job_promise (pending q') @ map job_promise (concat (map worker_jobs (workers q'))) @
      map (job_promise \<circ> fst) (settled q') @ cleared q')"
    by (metis distinct_upt mset_eq_imp_distinct_iff)
  then have "set (map (job_promise \<circ> fst) (settled q')) \<inter> set (cleared q') = {}"
    by (simp only: distinct_append set_append)
  moreover have "job_promise job \<in> set (cleared q')"
    using cleared_grows [OF assms(3)] assms(2) by (auto simp: clear_queue_def)
  ultimately show ?thesis by auto
qed

definition paused_queue :: message_queue where
  "paused_queue = new_message_queue 0
     \<lparr>q_concurrency = None, q_rate_limiter = None, q_auto_start = Some False\<rparr>"

definition plain_options :: message_job_options where
  "plain_options = \<lparr>opt_priority = None, opt_max_retries = None, opt_retry_delay_ms = None,
     opt_timeout_ms = None, opt_custom_id = None\<rparr>"

definition one_waiting :: message_queue where
  "one_waiting = enqueue (js ''j'') (Inr (js ''1'')) (Text (js ''hi'')) plain_options paused_queue"

lemma one_waiting_pending:
  "pending one_waiting = [demo_job\<lparr>job_status := JobPending\<rparr>]"
  unfolding one_waiting_def plain_options_def paused_queue_def
  apply (simp add: enqueue_def trigger_processing_eq startable_def)
  apply (simp add: push_job_def new_job_def)
  apply (simp add: demo_defs pending_def)
  done

theorem cleared_never_settled_witness:
  "(0 :: nat) \<notin> (job_promise \<circ> fst) ` set (settled (start_queue (clear_queue one_waiting)))"
proof -
  have "reachable one_waiting"
    unfolding one_waiting_def paused_queue_def by (rule reachable.step [OF reachable.new queue_step.enqueue])
  moreover have "demo_job\<lparr>job_status := JobPending\<rparr> \<in> set (pending one_waiting)"
    by (simp add: one_waiting_pending)
  moreover have "rtranclp queue_step (clear_queue one_waiting) (start_queue (clear_queue one_waiting))"
    by (rule r_into_rtranclp) (rule queue_step.start)
  ultimately have "job_promise (demo_job\<lparr>job_status := JobPending\<rparr>)
      \<notin> (job_promise \<circ> fst) ` set (settled (start_queue (clear_queue one_waiting)))"
    by (rule cleared_never_settled)
  then show ?thesis by (simp add: demo_job_def)
qed

end
