(* ===== verification/Queue_Order.thy ===== *)
theory Queue_Order
  imports Queue_Properties
begin

text \<open>
  The order in which a queue with one worker (the default of
  \<^verbatim>\<open>packages/wazeko/src/queue/message-queue.ts\<close>) settles its promises. The settled jobs, the job
  in flight and the waiting jobs of one priority form one line. Starting, sending, failing,
  backing off and putting a job back at the head of its queue leave the line as it is,
  \<^verbatim>\<open>enqueue\<close> adds a job at its end, and \<^verbatim>\<open>clear\<close> takes jobs away.
\<close>

definition line :: "priority \<Rightarrow> message_queue \<Rightarrow> message_job list" where
  "line p q = filter (\<lambda>j. job_priority j = p)
     (map fst (settled q) @ concat (map worker_jobs (workers q)) @ pending q)"

definition line_promises :: "priority \<Rightarrow> message_queue \<Rightarrow> nat list" where
  "line_promises p q = map job_promise (line p q)"

lemmas line_defs = line_promises_def line_def

text \<open>In order, and only of promises already made.\<close>

definition in_line :: "message_queue \<Rightarrow> bool" where
  "in_line q = (\<forall>p. sorted_wrt (<) (line_promises p q @ [promises q]))"

section \<open>Moves that leave the line as it is\<close>

lemma line_started: "map job_promise (filter (\<lambda>j. job_priority j = p) (concat (map worker_jobs (map (start_worker u) ks)))) =
    map job_promise (filter (\<lambda>j. job_priority j = p) ks)"
  by (induction ks) (simp_all add: start_worker_def)

lemma line_trigger [simp]: "line_promises p (trigger_processing q) = line_promises p q"
proof -
  have "map job_promise (filter (\<lambda>j. job_priority j = p) (take k ks)) @
      map job_promise (filter (\<lambda>j. job_priority j = p) (drop k ks)) =
      map job_promise (filter (\<lambda>j. job_priority j = p) ks)" for k ks
    by (metis append_take_drop_id filter_append map_append)
  then show ?thesis using line_started by (simp add: line_defs trigger_fields del: map_map)
qed

lemma line_push: "routed q \<Longrightarrow> line_promises p (push_job job q) =
    line_promises p q @ (if job_priority job = p then [job_promise job] else [])"
  by (cases "job_priority job"; cases p)
    (auto simp: line_defs push_job_def pending_def routed_def filter_empty_conv)

lemma line_unshift:
  assumes "routed q" and "workers q = [Backoff job due]"
  shows "line_promises p (backoff_over 0 job q) = line_promises p q"
  using assms by (cases "job_priority job"; cases p)
    (auto simp: line_defs backoff_over_def unshift_job_def set_worker_def pending_def routed_def filter_empty_conv)

text \<open>The only worker of a queue.\<close>

lemma only_worker: "length ws \<le> 1 \<Longrightarrow> i < length ws \<Longrightarrow> ws ! i = w \<Longrightarrow> i = 0 \<and> ws = [w]"
  by (cases ws) auto

lemma pending_fields [simp]:
  "pending (q\<lparr>limiter := l, recorded := rs, sends := ss\<rparr>) = pending q"
  "pending (q\<lparr>completed_count := n, settled := s\<rparr>) = pending q"
  "pending (q\<lparr>failed_count := n, settled := s\<rparr>) = pending q"
  "pending (q\<lparr>workers := ws\<rparr>) = pending q" "pending (q\<lparr>is_processing := b\<rparr>) = pending q"
  "pending (q\<lparr>clock := t\<rparr>) = pending q"
  by (simp_all add: pending_def)

lemma line_work:
  assumes "work_step q q'" and "routed q" and one: "length (workers q) \<le> 1"
  shows "line_promises p q' = line_promises p q"
  using assms(1)
proof cases
  case (acquire i job until rnd)
  then show ?thesis using only_worker [OF one acquire(2,3)] by (simp add: line_defs acquired_def)
next
  case (sent i job result)
  then show ?thesis using only_worker [OF one sent(2,3)] by (simp add: line_defs job_sent_def)
next
  case (send_failed i job err)
  then show ?thesis using only_worker [OF one send_failed(2,3)] by (simp add: line_defs job_send_failed_def Let_def)
next
  case (backoff i job due)
  then show ?thesis using only_worker [OF one backoff(2,3)] line_unshift [OF assms(2)] by blast
next
  case (finish i)
  then show ?thesis using only_worker [OF one finish(2,3)] by (simp add: job_finished_def) (simp add: line_defs)
qed

section \<open>The line is in order\<close>

lemma in_line_kept:
  "in_line q \<Longrightarrow> (\<And>p. line_promises p q' = line_promises p q) \<Longrightarrow> promises q' = promises q \<Longrightarrow> in_line q'"
  by (simp add: in_line_def)

lemma line_fields [simp]:
  "line_promises p (q\<lparr>is_processing := b\<rparr>) = line_promises p q"
  "line_promises p (q\<lparr>clock := t\<rparr>) = line_promises p q"
  "line_promises p (q\<lparr>promises := n\<rparr>) = line_promises p q"
  by (simp_all add: line_defs) (simp add: pending_def)

lemma in_line_step:
  assumes "in_line q" and "queue_step q q'" and inv: "queue_inv q" and "max_concurrency q = 1"
  shows "in_line q'"
  using assms(2)
proof cases
  case (enqueue generatedId dest content opts)
  let ?j = "new_job generatedId dest content opts q"
  have r: "routed (q\<lparr>promises := Suc (promises q)\<rparr>)" using inv by (simp add: queue_inv_def routed_def)
  have "promises (push_job ?j (q\<lparr>promises := Suc (promises q)\<rparr>)) = Suc (promises q)"
    by (simp add: push_job_def split: priority.split)
  then show ?thesis
    using assms(1) r by (auto simp: enqueue Message_Queue.enqueue_def in_line_def line_push new_job_def sorted_wrt_append
        less_Suc_eq)
next
  case clear
  have "line_promises p (clear_queue q) = map job_promise (filter (\<lambda>j. job_priority j = p)
      (map fst (settled q) @ concat (map worker_jobs (workers q))))" for p
    by (simp add: line_defs clear_queue_def pending_def)
  then show ?thesis
    using assms(1) clear by (simp add: in_line_def line_defs sorted_wrt_append) (auto simp: clear_queue_def)
next
  case work
  have "length (workers q) \<le> 1" "routed q" using inv assms(4) by (simp_all add: queue_inv_def counted_def)
  with work show ?thesis using assms(1) in_line_kept line_work promises_work by blast
qed (use in_line_kept [OF assms(1)] in \<open>simp_all add: start_queue_def pause_queue_def\<close>)

lemma in_line_reachable: "reachable q \<Longrightarrow> max_concurrency q = 1 \<Longrightarrow> in_line q"
proof (induction rule: reachable.induct)
  case (new now opts)
  show ?case by (simp add: in_line_def line_defs new_message_queue_def pending_def)
next
  case (step q q')
  then show ?case using in_line_step queue_inv_reachable concurrency_kept by metis
qed

section \<open>A run with two messages\<close>

text \<open>A second message is enqueued while the first is being sent; both are sent.\<close>

definition second_job :: message_job where
  "second_job = demo_job\<lparr>job_created_at := 1500, job_promise := 1\<rparr>"

definition two_waiting :: message_queue where
  "two_waiting = enqueue (js ''j'') (Inr (js ''1'')) (Text (js ''hi'')) \<lparr>opt_priority = None, opt_max_retries = None,
     opt_retry_delay_ms = None, opt_timeout_ms = None, opt_custom_id = None\<rparr> (demo_sent [Sending demo_job])"

definition second_started :: message_queue where
  "second_started = (job_finished 0 (job_sent 0 demo_job demo_message two_waiting))\<lparr>clock := 3000\<rparr>"

definition two_sent :: message_queue where
  "two_sent = job_sent 0 second_job demo_message (acquired 0 second_job second_started)"

lemma two_waiting_eq: "two_waiting = (demo_sent [Sending demo_job])
    \<lparr>promises := 2, normal_queue := [second_job\<lparr>job_status := JobPending\<rparr>]\<rparr>"
  by (simp add: two_waiting_def enqueue_def trigger_processing_eq startable_def push_job_def new_job_def second_job_def
      demo_defs)

lemma second_started_fields:
  "workers second_started = [Acquiring second_job 1500]" "clock second_started = 3000"
  "limiter second_started = default_limiter\<lparr>timestamps := [1500]\<rparr>"
  "settled second_started = [(demo_job\<lparr>job_status := JobCompleted\<rparr>, Inr demo_message)]"
  "max_concurrency second_started = 1"
  by (simp_all add: second_started_def two_waiting_eq job_sent_def job_finished_def trigger_processing_eq startable_def
      start_jobs_def pending_def start_worker_def start_until_def get_quota_wait_time_def second_job_def demo_defs)

lemma reachable_work: "reachable q \<Longrightarrow> work_step q q' \<Longrightarrow> reachable q'"
  by (blast intro: reachable.step queue_step.work)

lemma reachable_sent: "reachable q \<Longrightarrow> workers q = [Sending job] \<Longrightarrow> reachable (job_sent 0 job m q)"
  by (erule reachable_work) (simp add: work_step.sent)

lemma reachable_finished: "reachable q \<Longrightarrow> workers q = [Finishing] \<Longrightarrow> reachable (job_finished 0 q)"
  by (erule reachable_work) (simp add: work_step.finish)

lemma second_started_reachable: "reachable second_started"
proof -
  let ?sent = "job_sent 0 demo_job demo_message two_waiting"
  have "reachable two_waiting"
    unfolding two_waiting_def by (rule reachable.step [OF demo_sent_reachable]) (rule queue_step.enqueue)
  moreover have "workers two_waiting = [Sending demo_job]" by (simp add: two_waiting_eq demo_defs)
  ultimately have "reachable ?sent" by (rule reachable_sent)
  moreover have "workers ?sent = [Finishing]" by (simp add: job_sent_def two_waiting_eq demo_defs)
  ultimately have "reachable (job_finished 0 ?sent)" by (rule reachable_finished)
  moreover have "clock (job_finished 0 ?sent) \<le> 3000"
    by (simp add: job_finished_def trigger_processing_eq start_jobs_def job_sent_def two_waiting_eq demo_defs)
  ultimately show ?thesis unfolding second_started_def by (blast intro: reachable.step queue_step.tick)
qed

lemma two_sent_reachable: "reachable two_sent"
proof -
  have "work_step second_started (acquired 0 second_job second_started)"
    by (rule work_step.acquire [where rnd = 0 and until = 1500]) (simp_all add: second_started_fields jitter_of_def acquire_start_def
        get_quota_wait_time_def get_random_jitter_def second_job_def demo_defs)
  then have "reachable (acquired 0 second_job second_started)"
    by (rule reachable_work [OF second_started_reachable])
  moreover have "workers (acquired 0 second_job second_started) = [Sending second_job]"
    by (simp add: acquired_def second_started_fields)
  ultimately show ?thesis
    unfolding two_sent_def by (rule reachable_sent)
qed

lemma two_sent_fields: "max_concurrency two_sent = 1" "settled two_sent =
    [(demo_job\<lparr>job_status := JobCompleted\<rparr>, Inr demo_message), (second_job\<lparr>job_status := JobCompleted\<rparr>, Inr demo_message)]"
  by (simp_all add: two_sent_def job_sent_def acquired_def second_started_fields)

section \<open>Properties\<close>

text \<open>
  C4. A queue with one worker is first in, first out: whatever the sender does, and however often
  jobs fail and are put back, the promises of one priority are settled in the order in which
  \<^verbatim>\<open>enqueue\<close> made them.
\<close>

theorem serial_queue_is_fifo:
  assumes "reachable q" and "max_concurrency q = 1"
  shows "sorted_wrt (<) (map job_promise (filter (\<lambda>j. job_priority j = p) (map fst (settled q))))"
  using in_line_reachable [OF assms] by (simp add: in_line_def line_defs sorted_wrt_append)

theorem serial_queue_is_fifo_witness:
  "sorted_wrt (<) (map job_promise (filter (\<lambda>j. job_priority j = NORMAL) (map fst (settled two_sent)))) \<and>
   map (job_promise \<circ> fst) (settled two_sent) = [0, 1]"
  using serial_queue_is_fifo [OF two_sent_reachable two_sent_fields(1), of NORMAL]
  by (simp add: two_sent_fields second_job_def demo_job_def)

end
