(* ===== verification/Errors.thy ===== *)
theory Errors
  imports Js_String
begin

text \<open>
  The error classes (\<^verbatim>\<open>packages/wazeko-core/src/errors.ts\<close>). A thrown value is a
  \<open>js_error\<close>: an error of the library, with the class it was constructed by, its code, its
  message and its cause, or an error of the platform, of which the model keeps the message.
\<close>

datatype wazeko_error_code = CONNECTION | AUTHENTICATION | PROTOCOL | SESSION | MESSAGE | MEDIA

datatype error_class = WazekoErrorClass | ConnectionErrorClass | AuthenticationErrorClass
  | ProtocolErrorClass | SessionErrorClass | MessageErrorClass

datatype js_error =
    PlatformError jstr
  | LibraryError error_class wazeko_error_code jstr "js_error option"

definition wazeko_error :: "wazeko_error_code \<Rightarrow> jstr \<Rightarrow> js_error option \<Rightarrow> js_error" where
  "wazeko_error c message cause = LibraryError WazekoErrorClass c message cause"

definition connection_error :: "jstr \<Rightarrow> js_error option \<Rightarrow> js_error" where
  "connection_error message cause = LibraryError ConnectionErrorClass CONNECTION message cause"

definition authentication_error :: "jstr \<Rightarrow> js_error option \<Rightarrow> js_error" where
  "authentication_error message cause = LibraryError AuthenticationErrorClass AUTHENTICATION message cause"

definition protocol_error :: "jstr \<Rightarrow> js_error option \<Rightarrow> js_error" where
  "protocol_error message cause = LibraryError ProtocolErrorClass PROTOCOL message cause"

definition session_error :: "jstr \<Rightarrow> js_error option \<Rightarrow> js_error" where
  "session_error message cause = LibraryError SessionErrorClass SESSION message cause"

definition message_error :: "jstr \<Rightarrow> js_error option \<Rightarrow> js_error" where
  "message_error message cause = LibraryError MessageErrorClass MESSAGE message cause"

lemmas error_defs = wazeko_error_def connection_error_def authentication_error_def
  protocol_error_def session_error_def message_error_def

text \<open>\<^verbatim>\<open>e instanceof C\<close>: every class of the file extends \<^verbatim>\<open>WazekoError\<close>.\<close>

fun instance_of :: "js_error \<Rightarrow> error_class \<Rightarrow> bool" where
  "instance_of (PlatformError m) k = False"
| "instance_of (LibraryError k' c m e) k = (k = WazekoErrorClass \<or> k = k')"

fun err_message :: "js_error \<Rightarrow> jstr" where
  "err_message (PlatformError m) = m"
| "err_message (LibraryError k c m e) = m"

end
