(* ===== verification/Crypto.thy ===== *)
theory Crypto
  imports Errors
begin

text \<open>
  The wrappers of Node's cryptography (\<^verbatim>\<open>packages/wazeko-core/src/crypto.ts\<close>). Node itself
  is a parameter, the record \<open>node_crypto\<close> of the primitives the code calls. A hash object,
  an HMAC object and a cipher object are used by \<^verbatim>\<open>update\<close> calls and a last call, so each
  primitive takes the list of the chunks it was fed; a cipher gives the list of what the
  calls returned, the output of \<^verbatim>\<open>final\<close> last. The predicates at the end state the
  documented behaviour of the primitives that theorems about their users assume.
\<close>

record node_crypto =
  hash_sha256 :: "bytes list \<Rightarrow> bytes"
  hmac_digest :: "bytes \<Rightarrow> bytes list \<Rightarrow> bytes"
  hkdf_sync :: "bytes \<Rightarrow> bytes \<Rightarrow> bytes \<Rightarrow> nat \<Rightarrow> bytes"
  gcm_cipher :: "bytes \<Rightarrow> bytes \<Rightarrow> bytes option \<Rightarrow> bytes list \<Rightarrow> js_error + bytes list \<times> bytes"
  gcm_decipher :: "bytes \<Rightarrow> bytes \<Rightarrow> bytes \<Rightarrow> bytes option \<Rightarrow> bytes list \<Rightarrow> js_error + bytes list"
  cbc_cipher :: "bytes \<Rightarrow> bytes \<Rightarrow> bytes list \<Rightarrow> js_error + bytes list"
  cbc_decipher :: "bytes \<Rightarrow> bytes \<Rightarrow> bytes list \<Rightarrow> js_error + bytes list"

record key_pair =
  public_key :: bytes
  private_key :: bytes

text \<open>
  \<open>der\<close> is what \<^verbatim>\<open>generateKeyPairSync\<close> returned: the public and the private key in their DER
  containers.
\<close>

definition generate_key_pair :: "bytes \<times> bytes \<Rightarrow> key_pair" where
  "generate_key_pair der =
     \<lparr>public_key = subarray_from (fst der) (int (length (fst der)) - 32),
      private_key = subarray_from (snd der) (int (length (snd der)) - 32)\<rparr>"

definition sha256 :: "node_crypto \<Rightarrow> bytes \<Rightarrow> bytes" where
  "sha256 nc d = hash_sha256 nc [d]"

definition hmac_sha256 :: "node_crypto \<Rightarrow> bytes \<Rightarrow> bytes \<Rightarrow> bytes" where
  "hmac_sha256 nc key d = hmac_digest nc key [d]"

text \<open>\<open>None\<close> for an argument that is left out.\<close>

definition hkdf :: "node_crypto \<Rightarrow> bytes \<Rightarrow> nat \<Rightarrow> bytes option \<Rightarrow> jstr option \<Rightarrow> bytes" where
  "hkdf nc secret len salt info =
     hkdf_sync nc secret
       (case salt of None \<Rightarrow> replicate 32 0 | Some s \<Rightarrow> s)
       (text_encode (case info of None \<Rightarrow> [] | Some i \<Rightarrow> i)) len"

definition aes_gcm_encrypt ::
    "node_crypto \<Rightarrow> bytes \<Rightarrow> bytes \<Rightarrow> bytes \<Rightarrow> bytes option \<Rightarrow> js_error + bytes \<times> bytes" where
  "aes_gcm_encrypt nc key iv plaintext additionalData =
     bindE (gcm_cipher nc key iv additionalData [plaintext]) (\<lambda>(outs, tag). Inr (concat outs, tag))"

definition aes_gcm_decrypt ::
    "node_crypto \<Rightarrow> bytes \<Rightarrow> bytes \<Rightarrow> bytes \<Rightarrow> bytes \<Rightarrow> bytes option \<Rightarrow> js_error + bytes" where
  "aes_gcm_decrypt nc key iv ciphertext tag additionalData =
     bindE (gcm_decipher nc key iv tag additionalData [ciphertext]) (\<lambda>outs. Inr (concat outs))"

definition aes_cbc_encrypt :: "node_crypto \<Rightarrow> bytes \<Rightarrow> bytes \<Rightarrow> bytes \<Rightarrow> js_error + bytes" where
  "aes_cbc_encrypt nc key iv plaintext =
     bindE (cbc_cipher nc key iv [plaintext]) (\<lambda>outs. Inr (concat outs))"

definition aes_cbc_decrypt :: "node_crypto \<Rightarrow> bytes \<Rightarrow> bytes \<Rightarrow> bytes \<Rightarrow> js_error + bytes" where
  "aes_cbc_decrypt nc key iv ciphertext =
     bindE (cbc_decipher nc key iv [ciphertext]) (\<lambda>outs. Inr (concat outs))"

lemmas crypto_defs = sha256_def hmac_sha256_def aes_gcm_encrypt_def aes_gcm_decrypt_def
  aes_cbc_encrypt_def aes_cbc_decrypt_def

section \<open>Documented behaviour of the primitives\<close>

text \<open>Updates in several chunks count as one update with the chunks joined.\<close>

definition chunked :: "(bytes list \<Rightarrow> bytes) \<Rightarrow> bool" where
  "chunked h = (\<forall>chunks. h chunks = h [concat chunks])"

definition cipher_chunked :: "(bytes list \<Rightarrow> js_error + bytes list) \<Rightarrow> bool" where
  "cipher_chunked c = (\<forall>chunks. map_sum id concat (c chunks) = map_sum id concat (c [concat chunks]))"

definition hash_laws :: "node_crypto \<Rightarrow> bool" where
  "hash_laws nc =
     (chunked (hash_sha256 nc) \<and> (\<forall>key. chunked (hmac_digest nc key)) \<and>
      (\<forall>chunks. length (hash_sha256 nc chunks) = 32) \<and>
      (\<forall>key chunks. length (hmac_digest nc key chunks) = 32))"

definition hkdf_laws :: "node_crypto \<Rightarrow> bool" where
  "hkdf_laws nc = (\<forall>secret salt info len. length (hkdf_sync nc secret salt info len) = len)"

text \<open>
  A 256-bit key and a 128-bit initialization vector are accepted, decryption inverts, and
  without any input there is no padding to remove, which is an error.
\<close>

definition cbc_laws :: "node_crypto \<Rightarrow> bool" where
  "cbc_laws nc =
     (\<forall>key iv. length key = 32 \<and> length iv = 16 \<longrightarrow>
        cipher_chunked (cbc_cipher nc key iv) \<and> cipher_chunked (cbc_decipher nc key iv) \<and>
        isl (cbc_decipher nc key iv [[]]) \<and>
        (\<forall>chunks. \<exists>outs ps. cbc_cipher nc key iv chunks = Inr outs \<and>
           cbc_decipher nc key iv [concat outs] = Inr ps \<and> concat ps = concat chunks))"

text \<open>The same for the AEAD mode, with its 16-byte tag; a 96-bit initialization vector.\<close>

definition gcm_laws :: "node_crypto \<Rightarrow> bool" where
  "gcm_laws nc =
     (\<forall>key iv aad p. length key = 32 \<and> length iv = 12 \<longrightarrow>
        (\<exists>outs tag ps. gcm_cipher nc key iv aad [p] = Inr (outs, tag) \<and> length tag = 16 \<and>
           gcm_decipher nc key iv tag aad [concat outs] = Inr ps \<and> concat ps = p))"

lemma chunkedD: "chunked h \<Longrightarrow> h chunks = h [concat chunks]"
  unfolding chunked_def by blast

lemma chunked_eq: "chunked h \<Longrightarrow> concat xs = concat ys \<Longrightarrow> h xs = h ys"
  by (metis chunkedD)

lemma hash_lawsD:
  assumes "hash_laws nc"
  shows "chunked (hash_sha256 nc)" and "chunked (hmac_digest nc key)"
    and "length (sha256 nc d) = 32" and "length (hmac_sha256 nc key d) = 32"
  using assms by (auto simp: hash_laws_def crypto_defs)

lemma length_hkdf: "hkdf_laws nc \<Longrightarrow> length (hkdf nc secret len salt info) = len"
  by (simp add: hkdf_laws_def hkdf_def)

lemma cbc_run:
  assumes "cbc_laws nc" and "length key = 32" and "length iv = 16"
  obtains outs where "cbc_cipher nc key iv chunks = Inr outs"
    and "aes_cbc_encrypt nc key iv (concat chunks) = Inr (concat outs)"
    and "aes_cbc_decrypt nc key iv (concat outs) = Inr (concat chunks)"
proof -
  from assms have laws: "cipher_chunked (cbc_cipher nc key iv)"
    and "\<exists>outs ps. cbc_cipher nc key iv chunks = Inr outs \<and>
           cbc_decipher nc key iv [concat outs] = Inr ps \<and> concat ps = concat chunks"
    by (simp_all add: cbc_laws_def)
  then obtain outs ps where run: "cbc_cipher nc key iv chunks = Inr outs"
      "cbc_decipher nc key iv [concat outs] = Inr ps" "concat ps = concat chunks"
    by blast
  have "map_sum id concat (cbc_cipher nc key iv [concat chunks]) = (Inr (concat outs) :: js_error + bytes)"
    using laws run(1) by (metis cipher_chunked_def map_sum.simps(2))
  then have "aes_cbc_encrypt nc key iv (concat chunks) = Inr (concat outs)"
    by (cases "cbc_cipher nc key iv [concat chunks]") (simp_all add: aes_cbc_encrypt_def)
  moreover have "aes_cbc_decrypt nc key iv (concat outs) = Inr (concat chunks)"
    using run by (simp add: aes_cbc_decrypt_def)
  ultimately show thesis using run(1) that by blast
qed

lemma cbc_roundtrip:
  assumes "cbc_laws nc" and "length key = 32" and "length iv = 16"
  obtains c where "aes_cbc_encrypt nc key iv p = Inr c" and "aes_cbc_decrypt nc key iv c = Inr p"
  using cbc_run [OF assms, of "[p]"] by auto

lemma cbc_decrypt_chunks:
  assumes "cbc_laws nc" and "length key = 32" and "length iv = 16"
  shows "map_sum id concat (cbc_decipher nc key iv chunks) = aes_cbc_decrypt nc key iv (concat chunks)"
proof -
  have "cipher_chunked (cbc_decipher nc key iv)"
    using assms unfolding cbc_laws_def by blast
  then have "map_sum id concat (cbc_decipher nc key iv chunks) =
      (map_sum id concat (cbc_decipher nc key iv [concat chunks]) :: js_error + bytes)"
    by (metis cipher_chunked_def)
  then show ?thesis
    by (cases "cbc_decipher nc key iv [concat chunks]") (simp_all add: aes_cbc_decrypt_def)
qed

lemma cbc_decrypt_empty:
  assumes "cbc_laws nc" and "length key = 32" and "length iv = 16"
  shows "isl (aes_cbc_decrypt nc key iv [])"
proof -
  have "isl (cbc_decipher nc key iv [[]])" using assms unfolding cbc_laws_def by blast
  then show ?thesis
    by (cases "cbc_decipher nc key iv [[]]") (simp_all add: aes_cbc_decrypt_def)
qed

lemma gcm_roundtrip:
  assumes "gcm_laws nc" and "length key = 32" and "length iv = 12"
  obtains c t where "aes_gcm_encrypt nc key iv p aad = Inr (c, t)" and "length t = 16"
    and "aes_gcm_decrypt nc key iv c t aad = Inr p"
proof -
  from assms obtain outs tag ps where "gcm_cipher nc key iv aad [p] = Inr (outs, tag)"
      "length tag = 16" "gcm_decipher nc key iv tag aad [concat outs] = Inr ps" "concat ps = p"
    unfolding gcm_laws_def by metis
  then show thesis using that [of "concat outs" tag]
    by (simp add: aes_gcm_encrypt_def aes_gcm_decrypt_def)
qed

lemma generate_key_pair_raw:
  "length pub = 32 \<Longrightarrow> length priv = 32 \<Longrightarrow>
     generate_key_pair (h @ pub, h' @ priv) = \<lparr>public_key = pub, private_key = priv\<rparr>"
  using subarray_from_end [of 32 "h @ pub"] subarray_from_end [of 32 "h' @ priv"]
  by (simp add: generate_key_pair_def)

section \<open>A concrete instance\<close>

text \<open>
  Primitives that satisfy the laws and compute, for evaluating the model on concrete inputs.
  They have no security at all: the digest is a sum, the ciphers add a key byte. The CBC
  instance pads with one byte and rejects an input without it, and keys of a wrong length.
\<close>

definition toy_digest :: "bytes \<Rightarrow> bytes" where
  "toy_digest bs = sum_list bs # word_of_nat (length bs) # replicate 30 0"

definition toy_shift :: "bytes \<Rightarrow> bytes \<Rightarrow> bytes" where
  "toy_shift key = map (\<lambda>b. b + sum_list key)"

definition toy_unshift :: "bytes \<Rightarrow> bytes \<Rightarrow> bytes" where
  "toy_unshift key = map (\<lambda>b. b - sum_list key)"

definition toy_tag :: "bytes \<Rightarrow> bytes \<Rightarrow> bytes option \<Rightarrow> bytes \<Rightarrow> bytes" where
  "toy_tag key iv aad c =
     take 16 (toy_digest (key @ iv @ (case aad of None \<Rightarrow> [] | Some a \<Rightarrow> a) @ c))"

definition toy_crypto :: node_crypto where
  "toy_crypto =
     \<lparr>hash_sha256 = (\<lambda>chunks. toy_digest (concat chunks)),
      hmac_digest = (\<lambda>key chunks. toy_digest (key @ concat chunks)),
      hkdf_sync = (\<lambda>secret salt info len. map (\<lambda>i. word_of_nat i + sum_list (secret @ salt @ info)) [0..<len]),
      gcm_cipher = (\<lambda>key iv aad chunks.
        if length key = 32 \<and> length iv = 12 then
          let c = map (toy_shift key) chunks in Inr (c @ [[]], toy_tag key iv aad (concat c))
        else Inl (PlatformError (js ''ERR_CRYPTO''))),
      gcm_decipher = (\<lambda>key iv tag aad chunks.
        if length key = 32 \<and> length iv = 12 \<and> tag = toy_tag key iv aad (concat chunks) then
          Inr (map (toy_unshift key) chunks @ [[]])
        else Inl (PlatformError (js ''Unsupported state or unable to authenticate data''))),
      cbc_cipher = (\<lambda>key iv chunks.
        if length key = 32 \<and> length iv = 16 then Inr (map (toy_shift key) chunks @ [[1]])
        else Inl (PlatformError (js ''ERR_CRYPTO''))),
      cbc_decipher = (\<lambda>key iv chunks.
        let bs = concat chunks
        in if length key = 32 \<and> length iv = 16 \<and> bs \<noteq> [] \<and> last bs = 1 then
             Inr [toy_unshift key (butlast bs)]
           else Inl (PlatformError (js ''bad decrypt'')))\<rparr>"

lemma toy_unshift_shift [simp]: "toy_unshift key (toy_shift key bs) = bs"
  by (simp add: toy_unshift_def toy_shift_def o_def)

lemma concat_toy_shift: "concat (map (toy_shift key) chunks) = toy_shift key (concat chunks)"
  by (simp add: toy_shift_def map_concat)

lemma length_toy_digest [simp]: "length (toy_digest bs) = 32"
  by (simp add: toy_digest_def)

lemma toy_hash_laws: "hash_laws toy_crypto"
  by (simp add: hash_laws_def chunked_def toy_crypto_def)

lemma toy_hkdf_laws: "hkdf_laws toy_crypto"
  by (simp add: hkdf_laws_def toy_crypto_def)

lemma toy_cbc_laws: "cbc_laws toy_crypto"
  by (simp add: cbc_laws_def cipher_chunked_def toy_crypto_def concat_toy_shift Let_def)

lemma toy_gcm_laws: "gcm_laws toy_crypto"
  by (simp add: gcm_laws_def toy_crypto_def toy_tag_def Let_def)

lemmas toy_laws = toy_hash_laws toy_hkdf_laws toy_cbc_laws toy_gcm_laws

end
