(* ===== verification/Media.thy ===== *)
theory Media
  imports Crypto
begin

text \<open>
  Encryption of media files (\<^verbatim>\<open>packages/wazeko-core/src/media.ts\<close>): the keys, the payload
  (ciphertext, then ten bytes of the MAC over the initialization vector and the
  ciphertext), and decryption with its two checks. \<open>rnd\<close> is what \<^verbatim>\<open>randomBytes(32)\<close> gave.
  The results: what was encrypted decrypts, and a payload is refused exactly when its MAC
  bytes differ from those computed for its ciphertext.
\<close>

datatype media_type = ImageMedia | VideoMedia | AudioMedia | DocumentMedia | StickerMedia

record media_keys =
  iv_key :: bytes
  cipher_key :: bytes
  mac_key :: bytes
  ref_key :: bytes

record encrypted_media =
  media_key :: bytes
  encrypted_payload :: bytes
  file_sha256 :: bytes
  file_enc_sha256 :: bytes

fun MEDIA_APP_INFO :: "media_type \<Rightarrow> jstr" where
  "MEDIA_APP_INFO ImageMedia = js ''WhatsApp Image Keys''"
| "MEDIA_APP_INFO VideoMedia = js ''WhatsApp Video Keys''"
| "MEDIA_APP_INFO AudioMedia = js ''WhatsApp Audio Keys''"
| "MEDIA_APP_INFO DocumentMedia = js ''WhatsApp Document Keys''"
| "MEDIA_APP_INFO StickerMedia = js ''WhatsApp Image Keys''"

definition derive_media_keys :: "node_crypto \<Rightarrow> bytes \<Rightarrow> media_type \<Rightarrow> media_keys" where
  "derive_media_keys nc mediaKey mediaType =
     (let expanded = hkdf nc mediaKey 112 (Some (replicate 32 0)) (Some (MEDIA_APP_INFO mediaType))
      in \<lparr>iv_key = subarray expanded 0 16, cipher_key = subarray expanded 16 48,
          mac_key = subarray expanded 48 80, ref_key = subarray expanded 80 112\<rparr>)"

definition media_mac :: "node_crypto \<Rightarrow> media_keys \<Rightarrow> bytes \<Rightarrow> bytes" where
  "media_mac nc keys encrypted =
     subarray (hmac_sha256 nc (mac_key keys) (iv_key keys @ encrypted)) 0 10"

definition encrypt_media ::
    "node_crypto \<Rightarrow> bytes \<Rightarrow> bytes \<Rightarrow> media_type \<Rightarrow> js_error + encrypted_media" where
  "encrypt_media nc rnd plaintext mediaType =
     (let keys = derive_media_keys nc rnd mediaType; fileSha256 = sha256 nc plaintext
      in bindE (aes_cbc_encrypt nc (cipher_key keys) (iv_key keys) plaintext) (\<lambda>encrypted.
           let encryptedPayload = encrypted @ media_mac nc keys encrypted
           in Inr \<lparr>media_key = rnd, encrypted_payload = encryptedPayload,
                file_sha256 = fileSha256, file_enc_sha256 = sha256 nc encryptedPayload\<rparr>))"

definition media_too_short :: js_error where
  "media_too_short = wazeko_error MEDIA (js ''Encrypted media payload is too short'') None"

definition media_tampered :: js_error where
  "media_tampered = wazeko_error MEDIA
     (js ''Media HMAC verification failed: media is corrupted or tampered'') None"

text \<open>Reading a byte past the end gives \<^verbatim>\<open>undefined\<close>.\<close>

definition element_at :: "bytes \<Rightarrow> nat \<Rightarrow> byte option" where
  "element_at bs i = (if i < length bs then Some (bs ! i) else None)"

definition decrypt_media :: "node_crypto \<Rightarrow> bytes \<Rightarrow> bytes \<Rightarrow> media_type \<Rightarrow> js_error + bytes" where
  "decrypt_media nc encryptedPayload mediaKey mediaType =
     (if length encryptedPayload < 10 then Inl media_too_short
      else let keys = derive_media_keys nc mediaKey mediaType;
               ciphertext = subarray encryptedPayload 0 (int (length encryptedPayload) - 10);
               receivedMac = subarray_from encryptedPayload (int (length encryptedPayload) - 10);
               expectedMac = media_mac nc keys ciphertext
           in if list_all (\<lambda>i. element_at receivedMac i = element_at expectedMac i) [0..<10]
              then aes_cbc_decrypt nc (cipher_key keys) (iv_key keys) ciphertext
              else Inl media_tampered)"

section \<open>Keys and payload\<close>

lemma derived_slices:
  assumes "hkdf_laws nc"
  shows "\<exists>e. length e = 112 \<and> derive_media_keys nc mk mt =
     \<lparr>iv_key = take 16 e, cipher_key = take 32 (drop 16 e), mac_key = take 32 (drop 48 e),
      ref_key = drop 80 e\<rparr>"
proof (intro exI conjI)
  let ?e = "hkdf nc mk 112 (Some (replicate 32 0)) (Some (MEDIA_APP_INFO mt))"
  show len: "length ?e = 112" using assms by (rule length_hkdf)
  show "derive_media_keys nc mk mt = \<lparr>iv_key = take 16 ?e, cipher_key = take 32 (drop 16 ?e),
      mac_key = take 32 (drop 48 ?e), ref_key = drop 80 ?e\<rparr>"
    using len subarray_nat [of ?e 0 16] subarray_nat [of ?e 16 48] subarray_nat [of ?e 48 80]
      subarray_nat [of ?e 80 112]
    by (simp add: derive_media_keys_def Let_def)
qed

lemma length_media_keys:
  assumes "hkdf_laws nc"
  shows "length (iv_key (derive_media_keys nc mk mt)) = 16"
    and "length (cipher_key (derive_media_keys nc mk mt)) = 32"
    and "length (mac_key (derive_media_keys nc mk mt)) = 32"
    and "length (ref_key (derive_media_keys nc mk mt)) = 32"
  using derived_slices [OF assms, of mk mt] by auto

lemma length_media_mac: "hash_laws nc \<Longrightarrow> length (media_mac nc keys e) = 10"
  using subarray_nat [of "hmac_sha256 nc (mac_key keys) (iv_key keys @ e)" 0 10]
  by (simp add: media_mac_def hash_lawsD)

lemma bytes_at_eq_iff:
  assumes "length xs = n" and "length ys = n"
  shows "list_all (\<lambda>i. element_at xs i = element_at ys i) [0..<n] \<longleftrightarrow> xs = ys"
  using assms by (auto simp: list_all_iff element_at_def intro: nth_equalityI)

lemma decrypt_media_split:
  assumes "hash_laws nc" and "length mac = 10"
  shows "decrypt_media nc (c @ mac) mk mt =
     (let keys = derive_media_keys nc mk mt
      in if mac = media_mac nc keys c then aes_cbc_decrypt nc (cipher_key keys) (iv_key keys) c
         else Inl media_tampered)"
proof -
  have "subarray (c @ mac) 0 (int (length (c @ mac)) - 10) = c"
    using subarray_to_end [of 10 "c @ mac"] assms(2) by simp
  moreover have "subarray_from (c @ mac) (int (length (c @ mac)) - 10) = mac"
    using subarray_from_end [of 10 "c @ mac"] assms(2) by simp
  ultimately show ?thesis
    using bytes_at_eq_iff [OF assms(2) length_media_mac [OF assms(1)]] assms(2)
    by (simp add: decrypt_media_def Let_def del: upt_conv_Cons upt_rec_numeral)
qed

lemma encrypt_media_payload:
  assumes "cbc_laws nc" and "hkdf_laws nc"
  obtains c em where "encrypt_media nc rnd p mt = Inr em" and "media_key em = rnd"
    and "encrypted_payload em = c @ media_mac nc (derive_media_keys nc rnd mt) c"
    and "aes_cbc_encrypt nc (cipher_key (derive_media_keys nc rnd mt)) (iv_key (derive_media_keys nc rnd mt)) p = Inr c"
    and "aes_cbc_decrypt nc (cipher_key (derive_media_keys nc rnd mt)) (iv_key (derive_media_keys nc rnd mt)) c = Inr p"
    and "file_sha256 em = sha256 nc p" and "file_enc_sha256 em = sha256 nc (encrypted_payload em)"
proof -
  let ?k = "derive_media_keys nc rnd mt"
  obtain c where "aes_cbc_encrypt nc (cipher_key ?k) (iv_key ?k) p = Inr c"
      "aes_cbc_decrypt nc (cipher_key ?k) (iv_key ?k) c = Inr p"
    using cbc_roundtrip [OF assms(1) length_media_keys(2,1) [OF assms(2), of rnd mt]] by blast
  then show thesis
    using that [of "\<lparr>media_key = rnd, encrypted_payload = c @ media_mac nc ?k c,
        file_sha256 = sha256 nc p, file_enc_sha256 = sha256 nc (c @ media_mac nc ?k c)\<rparr>" c]
    by (simp add: encrypt_media_def Let_def)
qed

text \<open>
  C16. Encrypting a file never throws, the result names the plaintext's digest and the
  payload's digest, and decrypting the payload with the returned key gives the file back,
  for every media type.
\<close>

theorem media_roundtrip:
  assumes "hash_laws nc" and "hkdf_laws nc" and "cbc_laws nc"
  shows "\<exists>em. encrypt_media nc rnd p mt = Inr em \<and>
     decrypt_media nc (encrypted_payload em) (media_key em) mt = Inr p \<and>
     file_sha256 em = sha256 nc p \<and> file_enc_sha256 em = sha256 nc (encrypted_payload em)"
proof -
  obtain c em where "encrypt_media nc rnd p mt = Inr em" "media_key em = rnd"
    "encrypted_payload em = c @ media_mac nc (derive_media_keys nc rnd mt) c"
    "aes_cbc_decrypt nc (cipher_key (derive_media_keys nc rnd mt)) (iv_key (derive_media_keys nc rnd mt)) c = Inr p"
    "file_sha256 em = sha256 nc p" "file_enc_sha256 em = sha256 nc (encrypted_payload em)"
    using encrypt_media_payload [OF assms(3,2)] by metis
  then show ?thesis
    by (simp add: decrypt_media_split [OF assms(1) length_media_mac [OF assms(1)]] Let_def)
qed

theorem media_roundtrip_witness:
  "\<exists>em. encrypt_media toy_crypto [7, 8] [1, 2, 3] VideoMedia = Inr em \<and>
     decrypt_media toy_crypto (encrypted_payload em) (media_key em) VideoMedia = Inr [1, 2, 3]"
  using media_roundtrip [OF toy_hash_laws toy_hkdf_laws toy_cbc_laws] by blast

text \<open>
  C34. What a payload of at least ten bytes must be to decrypt: its last ten bytes are the
  truncated MAC of the rest. Every other change of ciphertext or MAC is refused with the
  error for tampered media, before any decryption; a shorter payload is refused as too short.
\<close>

theorem media_tamper_check:
  assumes "hash_laws nc"
  shows "decrypt_media nc payload mk mt =
     (let c = take (length payload - 10) payload; keys = derive_media_keys nc mk mt
      in if length payload < 10 then Inl media_too_short
         else if drop (length payload - 10) payload = media_mac nc keys c
         then aes_cbc_decrypt nc (cipher_key keys) (iv_key keys) c
         else Inl media_tampered)"
proof (cases "length payload < 10")
  case True
  then show ?thesis by (simp add: decrypt_media_def)
next
  case False
  let ?n = "length payload - 10"
  have "length (drop ?n payload) = 10" using False by simp
  from decrypt_media_split [OF assms this, of "take ?n payload"] False show ?thesis
    by (simp add: Let_def)
qed

theorem media_tamper_check_witness:
  "decrypt_media toy_crypto [1, 2, 3, 0, 0, 0, 0, 0, 0, 0, 0] [7] AudioMedia = Inl media_tampered"
  unfolding media_tamper_check [OF toy_hash_laws] by code_simp

end
