(* ===== verification/Js_Fs.thy ===== *)
theory Js_Fs
  imports Js_Number Errors
begin

text \<open>
  What the code uses of Node's file system and byte strings: the files as a map from paths
  to contents, the calls on them, and the hexadecimal and decimal text of values. Paths are
  compared as text; \<open>path_join\<close> is \<^verbatim>\<open>path.join\<close> for a directory in normal form and a plain name.
\<close>

type_synonym files = "jstr \<rightharpoonup> bytes"

definition path_join :: "jstr \<Rightarrow> jstr \<Rightarrow> jstr" where
  "path_join dir name = dir @ js ''/'' @ name"

definition enoent :: js_error where
  "enoent = PlatformError (js ''ENOENT: no such file or directory'')"

definition read_file :: "jstr \<Rightarrow> files \<Rightarrow> js_error + bytes" where
  "read_file p fs = (case fs p of None \<Rightarrow> Inl enoent | Some c \<Rightarrow> Inr c)"

definition write_file :: "jstr \<Rightarrow> bytes \<Rightarrow> files \<Rightarrow> files" where
  "write_file p c fs = fs(p \<mapsto> c)"

definition append_file :: "jstr \<Rightarrow> bytes \<Rightarrow> files \<Rightarrow> files" where
  "append_file p c fs = fs(p \<mapsto> (case fs p of None \<Rightarrow> [] | Some d \<Rightarrow> d) @ c)"

text \<open>\<^verbatim>\<open>rename\<close> replaces the destination; without a source it fails.\<close>

definition rename_file :: "jstr \<Rightarrow> jstr \<Rightarrow> files \<Rightarrow> js_error + files" where
  "rename_file a b fs = (case fs a of None \<Rightarrow> Inl enoent | Some c \<Rightarrow> Inr ((fs(a := None))(b \<mapsto> c)))"

lemmas file_defs = read_file_def write_file_def append_file_def rename_file_def

definition to_hex :: "bytes \<Rightarrow> jstr" where
  "to_hex bs = concat (map (\<lambda>b. [hex_digit (unat b div 16), hex_digit (unat b mod 16)]) bs)"

lemma to_hex_range: "c \<in> set (to_hex bs) \<Longrightarrow> c \<in> {48 .. 57} \<union> {97 .. 102}"
proof -
  have "hex_digit (unat (b :: byte) div 16) \<in> {48 .. 57} \<union> {97 .. 102} \<and>
      hex_digit (unat b mod 16) \<in> {48 .. 57} \<union> {97 .. 102}" for b
  proof -
    have "unat b < 256" using unsigned_less [of b] by simp
    then show ?thesis using hex_digit_range [of "unat b div 16"] hex_digit_range [of "unat b mod 16"] by auto
  qed
  then show "c \<in> set (to_hex bs) \<Longrightarrow> c \<in> {48 .. 57} \<union> {97 .. 102}"
    unfolding to_hex_def by auto
qed

lemma hex_unit:
  assumes "c \<in> {48 .. 57} \<union> {97 .. 102}"
  shows "\<not> is_space c" and "\<not> is_high c" and "\<not> is_low c"
proof -
  have c: "48 \<le> unat c" "unat c \<le> 102" using assms by (auto simp: word_le_nat_alt)
  have "c \<noteq> w" if "unat w < 48 \<or> 102 < unat w" for w using c that by auto
  then show "\<not> is_space c" using c by (auto simp: is_space_def word_le_nat_alt)
  show "\<not> is_high c" "\<not> is_low c" using c unat_high [of c] unat_low [of c] by auto
qed

lemma trim_to_hex: "trim (to_hex bs) = to_hex bs"
  by (rule trim_id; rule hex_unit(1) [OF to_hex_range [of _ bs]]) simp_all

lemma well_formed_to_hex: "well_formed (to_hex bs)"
proof -
  have "list_all (\<lambda>c. \<not> is_high c \<and> \<not> is_low c) (to_hex bs)"
    using hex_unit to_hex_range by (auto simp: list_all_iff)
  then show ?thesis by (rule well_formed_units)
qed

lemma length_to_hex: "length (to_hex bs) = 2 * length bs"
  by (induction bs) (simp_all add: to_hex_def)

end
