(* ===== verification/Media_Stream.thy ===== *)
theory Media_Stream
  imports Media Js_Fs
begin

text \<open>
  Media files handled as streams (\<^verbatim>\<open>packages/wazeko/src/media/stream-handler.ts\<close>). A source
  stream is the chunks it delivers and the error it may end with; a read stream of a file
  delivers its bytes in chunks that a parameter \<open>split\<close> chooses. The pipeline passes every
  chunk through the plain hash, the cipher, and the hash and MAC of the ciphertext. The
  clock, the random bytes, the system's temporary directory and the outcome of \<^verbatim>\<open>mkdir\<close> are
  arguments. A call returns its result or error and the files; \<open>left\<close> is what a pipeline that
  fails has written of its target by then. Different paths name different files, and nobody else
  writes a file while a call reads it. A decryption whose target is its source truncates the file
  it is reading: what its reader still gets then depends on timing and is the argument \<open>raced\<close>.
  The results: however the source is cut into chunks, the file written and its digests are
  those of \<^const>\<open>encrypt_media\<close> on the whole, and decryption agrees with \<^const>\<open>decrypt_media\<close>.
\<close>

record stream_media_handler =
  temp_dir :: jstr

record stream_encrypt_result =
  stream_media_key :: bytes
  temp_encrypted_file_path :: jstr
  stream_file_sha256 :: bytes
  stream_file_enc_sha256 :: bytes
  file_size_bytes :: nat

definition new_stream_media_handler :: "jstr \<Rightarrow> jstr option \<Rightarrow> stream_media_handler" where
  "new_stream_media_handler tmpdir tempDir =
     \<lparr>temp_dir = (case tempDir of None \<Rightarrow> path_join tmpdir (js ''wazeko-media-cache'') | Some d \<Rightarrow> d)\<rparr>"

text \<open>\<open>made\<close>: the error of \<^verbatim>\<open>mkdir\<close>, if it fails.\<close>

definition media_init :: "js_error option \<Rightarrow> js_error + unit" where
  "media_init made = (case made of None \<Rightarrow> Inr () | Some e \<Rightarrow> Inl e)"

definition get_temp_path :: "nat \<Rightarrow> bytes \<Rightarrow> jstr option \<Rightarrow> stream_media_handler \<Rightarrow> jstr" where
  "get_temp_path now rnd filename h =
     path_join (temp_dir h)
       (case filename of
          None \<Rightarrow> js ''media_'' @ nat_to_js now @ js ''_'' @ to_hex rnd @ js ''.tmp''
        | Some f \<Rightarrow> f)"

text \<open>The target of a pipeline that failed.\<close>

definition left_behind :: "bytes option \<Rightarrow> jstr \<Rightarrow> files \<Rightarrow> files" where
  "left_behind left path fs = (case left of None \<Rightarrow> fs | Some part \<Rightarrow> write_file path part fs)"

definition encrypt_media_stream ::
    "node_crypto \<Rightarrow> js_error option \<Rightarrow> bytes option \<Rightarrow> bytes \<Rightarrow> nat \<Rightarrow> bytes \<Rightarrow> bytes list \<times> js_error option \<Rightarrow>
     media_type \<Rightarrow> stream_media_handler \<Rightarrow> files \<Rightarrow> (js_error + stream_encrypt_result) \<times> files" where
  "encrypt_media_stream nc made left mediaKey now rnd sourceStream mediaType h fs =
     (case media_init made of
        Inl e \<Rightarrow> (Inl e, fs)
      | Inr _ \<Rightarrow>
          let keys = derive_media_keys nc mediaKey mediaType;
              destinationPath = get_temp_path now rnd None h;
              (chunks, failure) = sourceStream
          in case cbc_cipher nc (cipher_key keys) (iv_key keys) chunks of
               Inl e \<Rightarrow> (Inl e, fs)
             | Inr outs \<Rightarrow>
                 (case failure of
                    Some e \<Rightarrow> (Inl e, left_behind left destinationPath fs)
                  | None \<Rightarrow>
                      let pushed = filter (\<lambda>c. c \<noteq> []) outs;
                          fs = write_file destinationPath (concat pushed) fs;
                          truncatedMac = subarray (hmac_digest nc (mac_key keys) (iv_key keys # pushed)) 0 10;
                          fs = append_file destinationPath truncatedMac fs
                      in (Inr \<lparr>stream_media_key = mediaKey, temp_encrypted_file_path = destinationPath,
                            stream_file_sha256 = hash_sha256 nc chunks,
                            stream_file_enc_sha256 = hash_sha256 nc (pushed @ [truncatedMac]),
                            file_size_bytes = sum_list (map length chunks)\<rparr>, fs)))"

text \<open>
  \<^verbatim>\<open>createReadStream\<close> rejects the negative \<^verbatim>\<open>end\<close> it is given for a file of exactly ten bytes. The file
  is read twice, for the MAC and for the plaintext; \<^verbatim>\<open>createWriteStream\<close> truncates the target when the
  second reading begins.
\<close>

definition decrypt_media_file_stream ::
    "node_crypto \<Rightarrow> (bytes \<Rightarrow> bytes list) \<Rightarrow> bytes list \<Rightarrow> bytes option \<Rightarrow> nat \<Rightarrow> bytes \<Rightarrow> jstr \<Rightarrow> bytes \<Rightarrow> media_type \<Rightarrow> jstr option \<Rightarrow>
     stream_media_handler \<Rightarrow> files \<Rightarrow> (js_error + jstr) \<times> files" where
  "decrypt_media_file_stream nc split raced left now rnd encryptedFilePath mediaKey mediaType outputFilePath h fs =
     (case read_file encryptedFilePath fs of
        Inl e \<Rightarrow> (Inl e, fs)
      | Inr contents \<Rightarrow>
          if length contents < 10 then
            (Inl (PlatformError (js ''Encrypted media file is too small to contain a valid MAC'')), fs)
          else
            let keys = derive_media_keys nc mediaKey mediaType;
                targetPath = (case outputFilePath of None \<Rightarrow> get_temp_path now rnd None h | Some p \<Rightarrow> p);
                cipherLength = length contents - 10;
                receivedMac = take 10 (drop cipherLength contents)
            in if cipherLength = 0 then (Inl (PlatformError (js ''ERR_OUT_OF_RANGE'')), fs)
               else
                 let chunks = split (take cipherLength contents);
                     expectedMac = subarray (hmac_digest nc (mac_key keys) (iv_key keys # chunks)) 0 10
                 in if receivedMac \<noteq> expectedMac then
                      (Inl (PlatformError (js ''Media HMAC verification failed: media file is corrupted or tampered'')), fs)
                    else (case cbc_decipher nc (cipher_key keys) (iv_key keys)
                              (if targetPath = encryptedFilePath then raced else chunks) of
                            Inl e \<Rightarrow> (Inl e, left_behind left targetPath fs)
                          | Inr outs \<Rightarrow> (Inr targetPath, write_file targetPath (concat outs) fs)))"

section \<open>Encryption in chunks\<close>

lemma concat_filter_nonempty [simp]: "concat (filter (\<lambda>c. c \<noteq> []) xs) = concat xs"
  by (induction xs) auto

text \<open>
  C15. Streaming encryption implements whole-file encryption: for every way the source is cut
  into chunks it returns, and the file at the returned path and the reported digests, key
  and size are those of \<^const>\<open>encrypt_media\<close> on the joined chunks, with the same media key.
\<close>

theorem stream_refines_encrypt_media:
  assumes "hash_laws nc" and "hkdf_laws nc" and "cbc_laws nc"
  shows "\<exists>r fs' em. encrypt_media_stream nc None left mk now rnd (chunks, None) mt h fs = (Inr r, fs') \<and>
     encrypt_media nc mk (concat chunks) mt = Inr em \<and>
     fs' (temp_encrypted_file_path r) = Some (encrypted_payload em) \<and>
     stream_media_key r = media_key em \<and> stream_file_sha256 r = file_sha256 em \<and>
     stream_file_enc_sha256 r = file_enc_sha256 em \<and> file_size_bytes r = length (concat chunks)"
proof -
  let ?k = "derive_media_keys nc mk mt"
  obtain outs where run: "cbc_cipher nc (cipher_key ?k) (iv_key ?k) chunks = Inr outs"
      "aes_cbc_encrypt nc (cipher_key ?k) (iv_key ?k) (concat chunks) = Inr (concat outs)"
    using cbc_run [OF assms(3) length_media_keys(2,1) [OF assms(2), of mk mt]] by blast
  let ?pushed = "filter (\<lambda>c. c \<noteq> []) outs"
  have mac: "hmac_digest nc (mac_key ?k) (iv_key ?k # ?pushed) = hmac_sha256 nc (mac_key ?k) (iv_key ?k @ concat outs)"
    unfolding hmac_sha256_def by (rule chunked_eq [OF hash_lawsD(2) [OF assms(1)]]) simp
  have plain: "hash_sha256 nc chunks = sha256 nc (concat chunks)"
    unfolding sha256_def by (rule chunked_eq [OF hash_lawsD(1) [OF assms(1)]]) simp
  have enc: "hash_sha256 nc (?pushed @ [m]) = sha256 nc (concat outs @ m)" for m
    unfolding sha256_def by (rule chunked_eq [OF hash_lawsD(1) [OF assms(1)]]) simp
  show ?thesis
    by (simp add: encrypt_media_stream_def media_init_def encrypt_media_def run Let_def mac plain enc media_mac_def
        file_defs length_concat)
qed

theorem stream_refines_encrypt_media_witness:
  "\<exists>r fs' em. encrypt_media_stream toy_crypto None None [9] 17 [0xAB] ([[1, 2], [], [3]], None) AudioMedia
       \<lparr>temp_dir = js ''/tmp''\<rparr> Map.empty = (Inr r, fs') \<and>
     encrypt_media toy_crypto [9] [1, 2, 3] AudioMedia = Inr em \<and>
     fs' (temp_encrypted_file_path r) = Some (encrypted_payload em) \<and> file_size_bytes r = 3"
  using stream_refines_encrypt_media [OF toy_hash_laws toy_hkdf_laws toy_cbc_laws,
      of None "[9]" 17 "[0xAB]" "[[1, 2], [], [3]]" AudioMedia "\<lparr>temp_dir = js ''/tmp''\<rparr>" Map.empty]
  by auto

section \<open>Decryption from a file\<close>

text \<open>
  C35. Decrypting a file as a stream to another file succeeds exactly when \<^const>\<open>decrypt_media\<close> does on its
  contents, and then leaves the same plaintext in the target file and nothing else changed:
  for every content of the file (too short or tampered included) and every chunk size. A
  call that fails changes no file but its target, and not even that one unless the MAC is right.
\<close>

theorem stream_decrypt_equiv:
  assumes "hash_laws nc" and "hkdf_laws nc" and "cbc_laws nc" and "\<And>bs. concat (split bs) = bs"
    and "fs path = Some contents" and "target \<noteq> path"
  shows "case decrypt_media_file_stream nc split raced left now rnd path mk mt (Some target) h fs of
      (Inr r, fs') \<Rightarrow> r = target \<and> (\<exists>p. decrypt_media nc contents mk mt = Inr p \<and> fs' = fs(target \<mapsto> p))
    | (Inl e, fs') \<Rightarrow> isl (decrypt_media nc contents mk mt) \<and>
        (fs' = fs \<or> fs' = left_behind left target fs \<and> drop (length contents - 10) contents =
           media_mac nc (derive_media_keys nc mk mt) (take (length contents - 10) contents))"
proof -
  let ?k = "derive_media_keys nc mk mt" and ?n = "length contents - 10"
  note lens = length_media_keys(2,1) [OF assms(2), of mk mt]
  consider "length contents < 10" | "length contents = 10" | "10 < length contents" by linarith
  then show ?thesis
  proof cases
    case 1
    then show ?thesis by (simp add: decrypt_media_file_stream_def decrypt_media_def file_defs assms(5))
  next
    case 2
    have "isl (decrypt_media nc contents mk mt)"
      using cbc_decrypt_empty [OF assms(3) lens] decrypt_media_split [OF assms(1) 2, of "[]" mk mt]
      by (cases "decrypt_media nc contents mk mt") (auto simp: Let_def)
    with 2 show ?thesis by (simp add: decrypt_media_file_stream_def file_defs assms(5,6) Let_def)
  next
    case 3
    let ?c = "take ?n contents" and ?mac = "drop ?n contents"
    have len: "length ?mac = 10" using 3 by simp
    have whole: "decrypt_media nc contents mk mt = (if ?mac = media_mac nc ?k ?c
        then aes_cbc_decrypt nc (cipher_key ?k) (iv_key ?k) ?c else Inl media_tampered)"
      using decrypt_media_split [OF assms(1) len, of ?c mk mt] by (simp add: Let_def)
    have mac: "hmac_digest nc (mac_key ?k) (iv_key ?k # split ?c) = hmac_sha256 nc (mac_key ?k) (iv_key ?k @ ?c)"
      unfolding hmac_sha256_def by (rule chunked_eq [OF hash_lawsD(2) [OF assms(1)]]) (simp add: assms(4))
    have dec: "map_sum id concat (cbc_decipher nc (cipher_key ?k) (iv_key ?k) (split ?c)) =
        aes_cbc_decrypt nc (cipher_key ?k) (iv_key ?k) ?c"
      using cbc_decrypt_chunks [OF assms(3) lens, of "split ?c"] by (simp add: assms(4))
    show ?thesis
      using 3 len
      by (cases "cbc_decipher nc (cipher_key ?k) (iv_key ?k) (split ?c)")
        (auto simp: decrypt_media_file_stream_def file_defs assms(5,6) Let_def mac whole media_mac_def
          simp flip: dec)
  qed
qed

lemma toy_payload_decrypts: "decrypt_media toy_crypto
     [209, 210, 1, 220, 51, 0, 0, 0, 0, 0, 0, 0, 0] [9] AudioMedia = Inr [1, 2]"
  by code_simp

theorem stream_decrypt_equiv_witness:
  "decrypt_media_file_stream toy_crypto (\<lambda>bs. [bs]) [] None 0 [] (js ''f'') [9] AudioMedia (Some (js ''g''))
      \<lparr>temp_dir = []\<rparr> [js ''f'' \<mapsto> [209, 210, 1, 220, 51, 0, 0, 0, 0, 0, 0, 0, 0]] =
     (Inr (js ''g''), [js ''f'' \<mapsto> [209, 210, 1, 220, 51, 0, 0, 0, 0, 0, 0, 0, 0], js ''g'' \<mapsto> [1, 2]])"
  using stream_decrypt_equiv [OF toy_hash_laws toy_hkdf_laws toy_cbc_laws, where split = "\<lambda>bs. [bs]" and path = "js ''f''"
      and fs = "[js ''f'' \<mapsto> [209, 210, 1, 220, 51, 0, 0, 0, 0, 0, 0, 0, 0]]" and raced = "[]" and left = None and now = 0 and rnd = "[]"
      and mk = "[9]" and mt = AudioMedia and target = "js ''g''" and h = "\<lparr>temp_dir = []\<rparr>"]
  by (simp add: toy_payload_decrypts js_eq_iff split: prod.splits sum.splits)

text \<open>
  Decryption in place destroys the file: when the target is the source and the writer has truncated it before the
  first chunk is read, the call fails although the MAC was right, and what is left at the path is
  what the writer has written by then.
\<close>

theorem decryption_in_place_fails:
  assumes "hash_laws nc" and "hkdf_laws nc" and "cbc_laws nc" and "\<And>bs. concat (split bs) = bs"
    and "fs path = Some contents" and "10 < length contents"
    and "drop (length contents - 10) contents =
      media_mac nc (derive_media_keys nc mk mt) (take (length contents - 10) contents)"
  shows "\<exists>e. decrypt_media_file_stream nc split [] (Some []) now rnd path mk mt (Some path) h fs = (Inl e, fs(path \<mapsto> []))"
proof -
  let ?k = "derive_media_keys nc mk mt" and ?n = "length contents - 10"
  note lens = length_media_keys(2,1) [OF assms(2), of mk mt]
  have mac: "hmac_digest nc (mac_key ?k) (iv_key ?k # split (take ?n contents)) =
      hmac_sha256 nc (mac_key ?k) (iv_key ?k @ take ?n contents)"
    unfolding hmac_sha256_def by (rule chunked_eq [OF hash_lawsD(2) [OF assms(1)]]) (simp add: assms(4))
  have "length (drop ?n contents) = 10" using assms(6) by simp
  then have received: "take 10 (drop ?n contents) = subarray (hmac_sha256 nc (mac_key ?k) (iv_key ?k @ take ?n contents)) 0 10"
    using assms(7) by (simp add: media_mac_def)
  moreover have "length (take 10 (drop ?n contents)) = 10" using assms(6) by simp
  ultimately have len: "length (subarray (hmac_sha256 nc (mac_key ?k) (iv_key ?k @ take ?n contents)) 0 10) = 10" by metis
  have "map_sum id concat (cbc_decipher nc (cipher_key ?k) (iv_key ?k) []) = aes_cbc_decrypt nc (cipher_key ?k) (iv_key ?k) []"
    using cbc_decrypt_chunks [OF assms(3) lens, of "[]"] by simp
  then have "isl (cbc_decipher nc (cipher_key ?k) (iv_key ?k) [])"
    using cbc_decrypt_empty [OF assms(3) lens] by (metis isl_map_sum)
  then obtain e where "cbc_decipher nc (cipher_key ?k) (iv_key ?k) [] = Inl e" by (auto simp: isl_def)
  then show ?thesis
    using assms(5,6) mac received len
    by (simp add: decrypt_media_file_stream_def file_defs Let_def left_behind_def)
qed

theorem decryption_in_place_fails_witness:
  "\<exists>e. decrypt_media_file_stream toy_crypto (\<lambda>bs. [bs]) [] (Some []) 0 [] (js ''f'') [9] AudioMedia (Some (js ''f''))
      \<lparr>temp_dir = []\<rparr> [js ''f'' \<mapsto> [209, 210, 1, 220, 51, 0, 0, 0, 0, 0, 0, 0, 0]] = (Inl e, [js ''f'' \<mapsto> []])"
proof -
  let ?bs = "[209, 210, 1, 220, 51, 0, 0, 0, 0, 0, 0, 0, 0] :: bytes"
  have mac: "drop (length ?bs - 10) ?bs =
      media_mac toy_crypto (derive_media_keys toy_crypto [9] AudioMedia) (take (length ?bs - 10) ?bs)"
    by code_simp
  have "[js ''f'' \<mapsto> ?bs] (js ''f'') = Some ?bs" "10 < length ?bs" by simp_all
  from decryption_in_place_fails [where split = "\<lambda>bs. [bs]" and fs = "[js ''f'' \<mapsto> ?bs]" and now = 0 and rnd = "[]"
      and h = "\<lparr>temp_dir = []\<rparr>", OF toy_hash_laws toy_hkdf_laws toy_cbc_laws _ this mac]
  show ?thesis by simp
qed

end
