(* ===== verification/Lockstep.thy ===== *)
theory Lockstep
  imports Prelude
begin

text \<open>
  Two ends that keep state and advance it message by message: the interface shared by the
  transport frames and the message sessions. \<open>enc\<close> and \<open>dec\<close> are the calls of the sender and
  of the receiver, \<open>content\<close> what the receiver is to see of what the sender was given, \<open>rel\<close>
  the relation of the two states, \<open>next_s\<close> and \<open>next_t\<close> how one message changes them.
\<close>

text \<open>A run of calls in order, each on the state the one before it left, with their results.\<close>

fun run_calls :: "('a \<Rightarrow> 's \<Rightarrow> 'b \<times> 's) \<Rightarrow> 'a list \<Rightarrow> 's \<Rightarrow> 'b list \<times> 's" where
  "run_calls f [] s = ([], s)"
| "run_calls f (x # xs) s =
     (let (r, s) = f x s; (rs, s) = run_calls f xs s in (r # rs, s))"

locale lockstep =
  fixes enc :: "'m \<Rightarrow> 's \<Rightarrow> ('e + 'w) \<times> 's"
    and dec :: "'w \<Rightarrow> 't \<Rightarrow> ('e + 'p) \<times> 't"
    and content :: "'m \<Rightarrow> 'p"
    and ok :: "'m \<Rightarrow> bool"
    and rel :: "'s \<Rightarrow> 't \<Rightarrow> bool"
    and next_s :: "'s \<Rightarrow> 's"
    and next_t :: "'t \<Rightarrow> 't"
  assumes step: "rel s t \<Longrightarrow> ok m \<Longrightarrow>
      \<exists>w. enc m s = (Inr w, next_s s) \<and> dec w t = (Inr (content m), next_t t)"
    and rel_next: "rel s t \<Longrightarrow> rel (next_s s) (next_t t)"
begin

lemma in_order:
  assumes "rel s t" and "list_all ok ms"
  shows "\<exists>ws. run_calls enc ms s = (map Inr ws, (next_s ^^ length ms) s) \<and>
     run_calls dec ws t = (map (\<lambda>m. Inr (content m)) ms, (next_t ^^ length ms) t)"
  using assms
proof (induction ms arbitrary: s t)
  case Nil
  then show ?case by (intro exI [of _ "[]"]) simp
next
  case (Cons m ms)
  obtain w where w: "enc m s = (Inr w, next_s s)" "dec w t = (Inr (content m), next_t t)"
    using step [OF Cons.prems(1), of m] Cons.prems(2) by auto
  obtain ws where "run_calls enc ms (next_s s) = (map Inr ws, (next_s ^^ length ms) (next_s s))"
      "run_calls dec ws (next_t t) = (map (\<lambda>m. Inr (content m)) ms, (next_t ^^ length ms) (next_t t))"
    using Cons.IH [OF rel_next [OF Cons.prems(1)]] Cons.prems(2) by auto
  with w show ?case
    by (intro exI [of _ "w # ws"]) (simp add: funpow_swap1)
qed

end

end
