(* ===== verification/Noise.thy ===== *)
theory Noise
  imports Crypto Lockstep
begin

text \<open>
  The handshake and the transport cipher (\<^verbatim>\<open>packages/wazeko-core/src/noise.ts\<close>). A method that
  may throw after it has changed the object returns its result and the object. Counters are
  BigInts (\<^typ>\<open>int\<close>); \<^verbatim>\<open>setBigUint64\<close> writes them modulo $2^{64}$. The cipher state that
  \<^verbatim>\<open>finalizeHandshake\<close> returns is a value here, and the object that handshake and ciphers
  share in \<open>Shared_Cipher\<close>. The results: the two sides of a handshake agree, for any keys; frames
  decrypt in the order they were sent; what a throwing frame does to the counters.
\<close>

record cipher_state =
  enc_key :: bytes
  dec_key :: bytes
  enc_counter :: int
  dec_counter :: int

record noise_handshake =
  ephemeral_key_pair :: key_pair
  static_key_pair :: key_pair
  noise_hash :: bytes
  chaining_key :: bytes
  is_complete :: bool
  handshake_cipher :: "cipher_state option"

definition protocol_name :: bytes where
  "protocol_name = text_encode (js ''Noise_XX_25519_AESGCM_SHA256'' @ [0, 0, 0, 0])"

text \<open>\<open>der_static\<close> and \<open>der_ephemeral\<close>: what the two key generations gave.\<close>

definition new_noise_handshake ::
    "node_crypto \<Rightarrow> bytes \<times> bytes \<Rightarrow> bytes \<times> bytes \<Rightarrow> key_pair option \<Rightarrow> noise_handshake" where
  "new_noise_handshake nc der_static der_ephemeral staticKeyPair =
     (let h = sha256 nc protocol_name
      in \<lparr>ephemeral_key_pair = generate_key_pair der_ephemeral,
          static_key_pair = (case staticKeyPair of None \<Rightarrow> generate_key_pair der_static | Some k \<Rightarrow> k),
          noise_hash = h, chaining_key = h, is_complete = False, handshake_cipher = None\<rparr>)"

definition mix_hash :: "node_crypto \<Rightarrow> bytes \<Rightarrow> noise_handshake \<Rightarrow> noise_handshake" where
  "mix_hash nc d h = h\<lparr>noise_hash := sha256 nc (noise_hash h @ d)\<rparr>"

definition big_uint64 :: "int \<Rightarrow> bytes" where
  "big_uint64 n =
     (let w = word_of_int n :: 64 word in map (\<lambda>i. ucast (drop_bit (8 * i) w)) [7, 6, 5, 4, 3, 2, 1, 0])"

definition counter_to_iv :: "int \<Rightarrow> bytes" where
  "counter_to_iv counter = [0, 0, 0, 0] @ big_uint64 counter"

definition initiate_handshake :: "node_crypto \<Rightarrow> noise_handshake \<Rightarrow> bytes \<times> noise_handshake" where
  "initiate_handshake nc h =
     (public_key (ephemeral_key_pair h), mix_hash nc (public_key (ephemeral_key_pair h)) h)"

definition bad_ephemeral :: js_error where
  "bad_ephemeral = authentication_error (js ''Invalid server ephemeral public key length'') None"

definition short_server_payload :: js_error where
  "short_server_payload = authentication_error (js ''Server payload too short for AEAD tag'') None"

definition process_server_hello ::
    "node_crypto \<Rightarrow> bytes \<Rightarrow> bytes \<Rightarrow> noise_handshake \<Rightarrow> (js_error + bytes) \<times> noise_handshake" where
  "process_server_hello nc serverEphemeralPublic serverPayloadEnc h =
     (if length serverEphemeralPublic \<noteq> 32 then (Inl bad_ephemeral, h)
      else
        let h = mix_hash nc serverEphemeralPublic h;
            sharedKey = hkdf nc serverEphemeralPublic 64 (Some (chaining_key h)) (Some (js ''Noise-DH''));
            h = h\<lparr>chaining_key := subarray sharedKey 0 32\<rparr>;
            tempKey = subarray sharedKey 32 64;
            n = int (length serverPayloadEnc)
        in if length serverPayloadEnc < 16 then (Inl short_server_payload, h)
           else
             let tag = subarray_from serverPayloadEnc (n - 16);
                 ciphertext = subarray serverPayloadEnc 0 (n - 16)
             in case aes_gcm_decrypt nc tempKey (counter_to_iv 0) ciphertext tag None of
                  Inl e \<Rightarrow> (Inl e, h)
                | Inr decrypted \<Rightarrow> (Inr decrypted, mix_hash nc serverPayloadEnc h))"

definition finalize_handshake ::
    "node_crypto \<Rightarrow> bytes \<Rightarrow> noise_handshake \<Rightarrow> (js_error + bytes \<times> cipher_state) \<times> noise_handshake" where
  "finalize_handshake nc clientPayload h =
     (let sharedSecret = hkdf nc (public_key (static_key_pair h)) 64 (Some (chaining_key h))
            (Some (js ''Noise-Final''));
          writeKey = subarray sharedSecret 0 32;
          readKey = subarray sharedSecret 32 64
      in case aes_gcm_encrypt nc writeKey (counter_to_iv 0) clientPayload None of
           Inl e \<Rightarrow> (Inl e, h)
         | Inr (ciphertext, tag) \<Rightarrow>
             let cs = \<lparr>enc_key = writeKey, dec_key = readKey, enc_counter = 0, dec_counter = 0\<rparr>
             in (Inr (ciphertext @ tag, cs), h\<lparr>handshake_cipher := Some cs, is_complete := True\<rparr>))"

definition craft_server_hello ::
    "node_crypto \<Rightarrow> bytes \<Rightarrow> noise_handshake \<Rightarrow> (js_error + bytes \<times> bytes) \<times> noise_handshake" where
  "craft_server_hello nc serverPayload h =
     (let eph = public_key (ephemeral_key_pair h);
          h = mix_hash nc eph h;
          sharedKey = hkdf nc eph 64 (Some (chaining_key h)) (Some (js ''Noise-DH''));
          h = h\<lparr>chaining_key := subarray sharedKey 0 32\<rparr>;
          tempKey = subarray sharedKey 32 64
      in case aes_gcm_encrypt nc tempKey (counter_to_iv 0) serverPayload None of
           Inl e \<Rightarrow> (Inl e, h)
         | Inr (ciphertext, tag) \<Rightarrow> (Inr (eph, ciphertext @ tag), mix_hash nc (ciphertext @ tag) h))"

text \<open>The getters.\<close>

definition client_ephemeral_public :: "noise_handshake \<Rightarrow> bytes" where
  "client_ephemeral_public h = public_key (ephemeral_key_pair h)"

definition handshake_completed :: "noise_handshake \<Rightarrow> bool" where
  "handshake_completed h = is_complete h"

definition handshake_state :: "noise_handshake \<Rightarrow> cipher_state option" where
  "handshake_state h = handshake_cipher h"

section \<open>Frames\<close>

definition frame_header :: "nat \<Rightarrow> bytes" where
  "frame_header len = [word_of_nat (len div 65536), word_of_nat (len div 256), word_of_nat len]"

definition encrypt_frame :: "node_crypto \<Rightarrow> bytes \<Rightarrow> cipher_state \<Rightarrow> (js_error + bytes) \<times> cipher_state" where
  "encrypt_frame nc plaintext cs =
     (let iv = counter_to_iv (enc_counter cs);
          cs = cs\<lparr>enc_counter := enc_counter cs + 1\<rparr>
      in case aes_gcm_encrypt nc (enc_key cs) iv plaintext None of
           Inl e \<Rightarrow> (Inl e, cs)
         | Inr (ciphertext, tag) \<Rightarrow>
             (Inr (frame_header (length ciphertext + length tag) @ ciphertext @ tag), cs))"

definition frame_too_short :: js_error where
  "frame_too_short = authentication_error (js ''Encrypted frame is too short'') None"

definition decrypt_frame :: "node_crypto \<Rightarrow> bytes \<Rightarrow> cipher_state \<Rightarrow> (js_error + bytes) \<times> cipher_state" where
  "decrypt_frame nc frame cs =
     (if length frame < 3 + 16 then (Inl frame_too_short, cs)
      else
        let payload = subarray_from frame 3;
            n = int (length payload);
            tag = subarray_from payload (n - 16);
            ciphertext = subarray payload 0 (n - 16);
            iv = counter_to_iv (dec_counter cs);
            cs = cs\<lparr>dec_counter := dec_counter cs + 1\<rparr>
        in (aes_gcm_decrypt nc (dec_key cs) iv ciphertext tag None, cs))"

section \<open>The parts of a frame and of a payload\<close>

lemma length_counter_to_iv [simp]: "length (counter_to_iv n) = 12"
  by (simp add: counter_to_iv_def big_uint64_def Let_def)

lemma split_tag:
  assumes "length tag = 16"
  shows "subarray_from (c @ tag) (int (length (c @ tag)) - 16) = tag"
    and "subarray (c @ tag) 0 (int (length (c @ tag)) - 16) = c"
  using subarray_from_end [of 16 "c @ tag"] subarray_to_end [of 16 "c @ tag"] assms by simp_all

lemma subarray_halves:
  assumes "length k = 64"
  shows "length (subarray k 0 32) = 32" and "length (subarray k 32 64) = 32"
  using assms subarray_nat [of k 0 32] subarray_nat [of k 32 64] by simp_all

lemma encrypt_frame_ok:
  assumes "gcm_laws nc" and "length (enc_key cs) = 32"
  obtains c t where "encrypt_frame nc p cs =
      (Inr (frame_header (length c + 16) @ c @ t), cs\<lparr>enc_counter := enc_counter cs + 1\<rparr>)"
    and "length t = 16"
    and "aes_gcm_decrypt nc (enc_key cs) (counter_to_iv (enc_counter cs)) c t None = Inr p"
proof -
  obtain c t where "aes_gcm_encrypt nc (enc_key cs) (counter_to_iv (enc_counter cs)) p None = Inr (c, t)"
      "length t = 16" "aes_gcm_decrypt nc (enc_key cs) (counter_to_iv (enc_counter cs)) c t None = Inr p"
    using gcm_roundtrip [OF assms length_counter_to_iv] by metis
  then show thesis using that [of c t] by (simp add: encrypt_frame_def Let_def)
qed

lemma decrypt_frame_split:
  assumes "length hd3 = 3" and "length t = 16"
  shows "decrypt_frame nc (hd3 @ c @ t) cs =
     (aes_gcm_decrypt nc (dec_key cs) (counter_to_iv (dec_counter cs)) c t None,
      cs\<lparr>dec_counter := dec_counter cs + 1\<rparr>)"
proof -
  have "subarray_from (hd3 @ c @ t) 3 = c @ t"
    using subarray_from_nat [of "hd3 @ c @ t" 3] assms(1) by simp
  then show ?thesis
    using split_tag [OF assms(2), of c] assms by (simp add: decrypt_frame_def Let_def)
qed

text \<open>\<open>in_step a b\<close>: what \<open>a\<close> encrypts next is what \<open>b\<close> decrypts next.\<close>

definition in_step :: "cipher_state \<Rightarrow> cipher_state \<Rightarrow> bool" where
  "in_step a b = (length (enc_key a) = 32 \<and> dec_key b = enc_key a \<and> dec_counter b = enc_counter a)"

lemma frame_in_step:
  assumes "gcm_laws nc" and "in_step a b"
  obtains fr where "encrypt_frame nc p a = (Inr fr, a\<lparr>enc_counter := enc_counter a + 1\<rparr>)"
    and "decrypt_frame nc fr b = (Inr p, b\<lparr>dec_counter := dec_counter b + 1\<rparr>)"
proof -
  have key: "length (enc_key a) = 32" using assms(2) by (simp add: in_step_def)
  obtain c t where enc: "encrypt_frame nc p a =
        (Inr (frame_header (length c + 16) @ c @ t), a\<lparr>enc_counter := enc_counter a + 1\<rparr>)"
      and t: "length t = 16"
      and dec: "aes_gcm_decrypt nc (enc_key a) (counter_to_iv (enc_counter a)) c t None = Inr p"
    using encrypt_frame_ok [OF assms(1) key] by metis
  have "length (frame_header (length c + 16)) = 3" by (simp add: frame_header_def)
  from decrypt_frame_split [OF this t] dec assms(2)
  have "decrypt_frame nc (frame_header (length c + 16) @ c @ t) b = (Inr p, b\<lparr>dec_counter := dec_counter b + 1\<rparr>)"
    by (simp add: in_step_def)
  with enc that show thesis by blast
qed

definition sent_frame :: "cipher_state \<Rightarrow> cipher_state" where
  "sent_frame cs = cs\<lparr>enc_counter := enc_counter cs + 1\<rparr>"

definition received_frame :: "cipher_state \<Rightarrow> cipher_state" where
  "received_frame cs = cs\<lparr>dec_counter := dec_counter cs + 1\<rparr>"

lemma counters_funpow:
  "(sent_frame ^^ n) cs = cs\<lparr>enc_counter := enc_counter cs + int n\<rparr>"
  "(received_frame ^^ n) cs = cs\<lparr>dec_counter := dec_counter cs + int n\<rparr>"
  by (induction n) (simp_all add: sent_frame_def received_frame_def)

interpretation frames: lockstep "encrypt_frame nc" "decrypt_frame nc" "\<lambda>p. p" "\<lambda>_. True"
    "\<lambda>a b. gcm_laws nc \<and> in_step a b" sent_frame received_frame
  for nc
proof (unfold_locales)
  fix a b p
  assume "gcm_laws nc \<and> in_step a b"
  then show "\<exists>w. encrypt_frame nc p a = (Inr w, sent_frame a) \<and>
      decrypt_frame nc w b = (Inr p, received_frame b)"
    using frame_in_step unfolding sent_frame_def received_frame_def by metis
qed (simp add: in_step_def sent_frame_def received_frame_def)

text \<open>
  C13. Transport: for every sequence of messages, when the receiver has the sender's key and
  its counter, encrypting never throws and decrypting the frames in the order sent gives
  the messages, with both counters advanced by the number of messages.
\<close>

theorem frames_roundtrip:
  assumes "gcm_laws nc" and "in_step a b"
  shows "\<exists>frames. run_calls (encrypt_frame nc) msgs a =
       (map Inr frames, a\<lparr>enc_counter := enc_counter a + int (length msgs)\<rparr>) \<and>
     run_calls (decrypt_frame nc) frames b =
       (map Inr msgs, b\<lparr>dec_counter := dec_counter b + int (length msgs)\<rparr>)"
  using frames.in_order [of nc a b msgs] assms by (simp add: counters_funpow list_all_iff)

theorem frames_roundtrip_witness:
  "\<exists>frames. run_calls (encrypt_frame toy_crypto) [[1, 2], [], [3]]
       \<lparr>enc_key = replicate 32 5, dec_key = [], enc_counter = 0, dec_counter = 0\<rparr> =
       (map Inr frames, \<lparr>enc_key = replicate 32 5, dec_key = [], enc_counter = 3, dec_counter = 0\<rparr>) \<and>
     run_calls (decrypt_frame toy_crypto) frames
       \<lparr>enc_key = [], dec_key = replicate 32 5, enc_counter = 0, dec_counter = 0\<rparr> =
       ([Inr [1, 2], Inr [], Inr [3]],
        \<lparr>enc_key = [], dec_key = replicate 32 5, enc_counter = 0, dec_counter = 3\<rparr>)"
  using frames_roundtrip [OF toy_gcm_laws,
      of "\<lparr>enc_key = replicate 32 5, dec_key = [], enc_counter = 0, dec_counter = 0\<rparr>"
        "\<lparr>enc_key = [], dec_key = replicate 32 5, enc_counter = 0, dec_counter = 0\<rparr>" "[[1, 2], [], [3]]"]
  by (simp add: in_step_def)

section \<open>A frame that is refused\<close>

text \<open>
  Every frame of 19 bytes or more that is passed to \<open>decrypt_frame\<close>, whether it decrypts
  or throws, advances the receiver's counter. After one injected frame the sender's next
  frame, which its own initialization vector would decrypt, is decrypted with the one of
  the counter after it.
\<close>

theorem refused_frame_desyncs:
  assumes "in_step a b" and "19 \<le> length bad" and "gcm_laws nc"
  shows "\<exists>fr tag c. encrypt_frame nc p a = (Inr (fr @ c @ tag), sent_frame a) \<and>
     aes_gcm_decrypt nc (dec_key b) (counter_to_iv (enc_counter a)) c tag None = Inr p \<and>
     fst (decrypt_frame nc (fr @ c @ tag) (snd (decrypt_frame nc bad b))) =
       aes_gcm_decrypt nc (dec_key b) (counter_to_iv (enc_counter a + 1)) c tag None"
proof -
  have key: "length (enc_key a) = 32" using assms(1) by (simp add: in_step_def)
  obtain c t where enc: "encrypt_frame nc p a = (Inr (frame_header (length c + 16) @ c @ t), sent_frame a)"
      and t: "length t = 16"
      and dec: "aes_gcm_decrypt nc (enc_key a) (counter_to_iv (enc_counter a)) c t None = Inr p"
    using encrypt_frame_ok [OF assms(3) key] unfolding sent_frame_def by metis
  have "snd (decrypt_frame nc bad b) = received_frame b"
    using assms(2) by (simp add: decrypt_frame_def received_frame_def Let_def)
  moreover have "length (frame_header (length c + 16)) = 3" by (simp add: frame_header_def)
  note decrypt_frame_split [OF this t, of nc c "received_frame b"]
  ultimately show ?thesis
    using enc dec assms(1) by (intro exI conjI) (auto simp: in_step_def received_frame_def)
qed

theorem refused_frame_desyncs_witness:
  "\<exists>fr tag c. fst (encrypt_frame toy_crypto [1]
      \<lparr>enc_key = replicate 32 5, dec_key = [], enc_counter = 0, dec_counter = 0\<rparr>) = Inr (fr @ c @ tag) \<and>
     fst (decrypt_frame toy_crypto (fr @ c @ tag) (snd (decrypt_frame toy_crypto (replicate 19 0)
       \<lparr>enc_key = [], dec_key = replicate 32 5, enc_counter = 0, dec_counter = 0\<rparr>))) =
       aes_gcm_decrypt toy_crypto (replicate 32 5) (counter_to_iv 1) c tag None"
proof -
  let ?a = "\<lparr>enc_key = replicate 32 5, dec_key = [], enc_counter = 0, dec_counter = 0\<rparr>"
  let ?b = "\<lparr>enc_key = [], dec_key = replicate 32 5, enc_counter = 0, dec_counter = 0\<rparr>"
  have "in_step ?a ?b" by (simp add: in_step_def)
  from refused_frame_desyncs [OF this, of "replicate 19 0", OF _ toy_gcm_laws, of "[1]"]
  obtain fr tag c where "encrypt_frame toy_crypto [1] ?a = (Inr (fr @ c @ tag), sent_frame ?a)"
      "fst (decrypt_frame toy_crypto (fr @ c @ tag) (snd (decrypt_frame toy_crypto (replicate 19 0) ?b))) =
        aes_gcm_decrypt toy_crypto (replicate 32 5) (counter_to_iv 1) c tag None"
    by auto
  then show ?thesis by (metis fst_conv)
qed

section \<open>The handshake\<close>

lemma noise_dh_keys:
  assumes "hkdf_laws nc"
  shows "length (subarray (hkdf nc secret 64 salt info) 0 32) = 32"
    and "length (subarray (hkdf nc secret 64 salt info) 32 64) = 32"
  by (simp_all add: subarray_halves length_hkdf assms)

text \<open>
  C36. A server's hello is accepted by every client that starts from the same chaining key:
  the client recovers the server's payload and both end with one chaining key. No private
  key is used on either side, so this holds for any key pairs whatever, and a third
  party's fresh client decrypts the hello as well.
\<close>

theorem hello_agreement:
  assumes "gcm_laws nc" and "hkdf_laws nc" and "chaining_key client = chaining_key srv"
    and "length (public_key (ephemeral_key_pair srv)) = 32"
  shows "\<exists>eph enc. fst (craft_server_hello nc payload srv) = Inr (eph, enc) \<and>
     fst (process_server_hello nc eph enc client) = Inr payload \<and>
     chaining_key (snd (process_server_hello nc eph enc client)) =
       chaining_key (snd (craft_server_hello nc payload srv))"
proof -
  let ?eph = "public_key (ephemeral_key_pair srv)"
  let ?k = "hkdf nc ?eph 64 (Some (chaining_key srv)) (Some (js ''Noise-DH''))"
  obtain c t where enc: "aes_gcm_encrypt nc (subarray ?k 32 64) (counter_to_iv 0) payload None = Inr (c, t)"
      and t: "length t = 16"
      and dec: "aes_gcm_decrypt nc (subarray ?k 32 64) (counter_to_iv 0) c t None = Inr payload"
    using gcm_roundtrip [OF assms(1) noise_dh_keys(2) [OF assms(2)] length_counter_to_iv] by metis
  have craft: "craft_server_hello nc payload srv = (Inr (?eph, c @ t),
      mix_hash nc (c @ t) ((mix_hash nc ?eph srv)\<lparr>chaining_key := subarray ?k 0 32\<rparr>))"
    by (simp add: craft_server_hello_def Let_def mix_hash_def enc)
  have "process_server_hello nc ?eph (c @ t) client = (Inr payload,
      mix_hash nc (c @ t) ((mix_hash nc ?eph client)\<lparr>chaining_key := subarray ?k 0 32\<rparr>))"
    using assms(3,4) dec split_tag [OF t, of c] t by (simp add: process_server_hello_def Let_def mix_hash_def)
  with craft show ?thesis by (simp add: mix_hash_def)
qed

theorem hello_agreement_witness:
  "\<exists>eph enc.
     fst (craft_server_hello toy_crypto [1, 2, 3] (new_noise_handshake toy_crypto ([], []) (replicate 32 4, []) None)) = Inr (eph, enc) \<and>
     fst (process_server_hello toy_crypto eph enc (new_noise_handshake toy_crypto ([7], [8]) (replicate 40 9, []) None)) = Inr [1, 2, 3]"
proof -
  have "chaining_key (new_noise_handshake toy_crypto ([7], [8]) (replicate 40 9, []) None) =
      chaining_key (new_noise_handshake toy_crypto ([], []) (replicate 32 4, []) None)"
    by (simp add: new_noise_handshake_def Let_def)
  moreover have "length (public_key (ephemeral_key_pair
      (new_noise_handshake toy_crypto ([], []) (replicate 32 4, []) None))) = 32" by code_simp
  ultimately show ?thesis using hello_agreement [OF toy_gcm_laws toy_hkdf_laws] by blast
qed

text \<open>
  The last handshake message and the first transport frame are encrypted under the same
  key with the same initialization vector: the key of the cipher state that
  \<open>finalize_handshake\<close> returns is the one that encrypted the client's payload at counter 0,
  and the first frame is encrypted at counter 0 again.
\<close>

theorem finish_reuses_nonce:
  assumes "fst (finalize_handshake nc clientPayload h) = Inr (finish, cs)"
  shows "map_sum id (\<lambda>(c, t). c @ t) (aes_gcm_encrypt nc (enc_key cs) (counter_to_iv 0) clientPayload None) = Inr finish \<and>
     map_sum id (\<lambda>(c, t). frame_header (length c + length t) @ c @ t)
       (aes_gcm_encrypt nc (enc_key cs) (counter_to_iv 0) plaintext None) = fst (encrypt_frame nc plaintext cs)"
proof -
  let ?k = "hkdf nc (public_key (static_key_pair h)) 64 (Some (chaining_key h)) (Some (js ''Noise-Final''))"
  obtain c t where ct: "aes_gcm_encrypt nc (subarray ?k 0 32) (counter_to_iv 0) clientPayload None = Inr (c, t)"
      and fin: "finish = c @ t"
      and cs: "cs = \<lparr>enc_key = subarray ?k 0 32, dec_key = subarray ?k 32 64, enc_counter = 0, dec_counter = 0\<rparr>"
    using assms by (auto simp: finalize_handshake_def Let_def split: sum.splits)
  have "map_sum id (\<lambda>(c, t). frame_header (length c + length t) @ c @ t)
       (aes_gcm_encrypt nc (enc_key cs) (counter_to_iv 0) plaintext None) = fst (encrypt_frame nc plaintext cs)"
    by (cases "aes_gcm_encrypt nc (subarray ?k 0 32) (counter_to_iv 0) plaintext None")
      (auto simp: encrypt_frame_def Let_def cs)
  with ct fin cs show ?thesis by simp
qed

theorem finish_reuses_nonce_witness:
  "\<exists>finish cs. fst (finalize_handshake toy_crypto [5] (new_noise_handshake toy_crypto ([7], [8]) ([9], []) None)) = Inr (finish, cs) \<and>
     map_sum id (\<lambda>(c, t). c @ t) (aes_gcm_encrypt toy_crypto (enc_key cs) (counter_to_iv 0) [5] None) = Inr finish"
proof -
  have "isl (fst (finalize_handshake toy_crypto [5] (new_noise_handshake toy_crypto ([7], [8]) ([9], []) None))) = False"
    by code_simp
  then obtain finish cs where "fst (finalize_handshake toy_crypto [5]
      (new_noise_handshake toy_crypto ([7], [8]) ([9], []) None)) = Inr (finish, cs)"
    by (metis isl_def old.sum.exhaust surj_pair sum.disc(1))
  then show ?thesis using finish_reuses_nonce by blast
qed

end
