(* ===== verification/Shared_Cipher.thy ===== *)
theory Shared_Cipher
  imports Noise
begin

text \<open>
  The cipher state as the shared object it is (\<^verbatim>\<open>packages/wazeko-core/src/noise.ts\<close>).
  \<^verbatim>\<open>finalizeHandshake\<close> returns the object that the handshake keeps, and every \<^verbatim>\<open>FrameCipher\<close>
  built from it changes the counters of that one object. Objects live in a list of cells; a
  reference is an index, a new object is a new cell at the end. A handshake and its ciphers
  form a \<open>noise_world\<close>, with a log of the key and the initialization vector of every
  encryption of a frame. What handshake and frames do to a value is the model of \<open>Noise\<close>.
\<close>

type_synonym cipher_ref = nat

datatype frame_cipher = FrameCipher cipher_ref

record noise_world =
  handshake :: noise_handshake
  handshake_ref :: "cipher_ref option"
  cells :: "cipher_state list"
  used :: "(cipher_ref \<times> bytes \<times> bytes) list"

definition new_noise_world :: "noise_handshake \<Rightarrow> noise_world" where
  "new_noise_world h = \<lparr>handshake = h, handshake_ref = None, cells = [], used = []\<rparr>"

text \<open>\<^verbatim>\<open>new FrameCipher(state)\<close> keeps the reference.\<close>

definition new_frame_cipher :: "cipher_ref \<Rightarrow> frame_cipher" where
  "new_frame_cipher r = FrameCipher r"

definition finalize_shared :: "node_crypto \<Rightarrow> bytes \<Rightarrow> noise_world \<Rightarrow> (js_error + bytes \<times> cipher_ref) \<times> noise_world" where
  "finalize_shared nc clientPayload w =
     (case finalize_handshake nc clientPayload (handshake w) of
        (Inl e, h) \<Rightarrow> (Inl e, w\<lparr>handshake := h\<rparr>)
      | (Inr (clientFinish, cs), h) \<Rightarrow>
          (Inr (clientFinish, length (cells w)),
           w\<lparr>handshake := h, handshake_ref := Some (length (cells w)), cells := cells w @ [cs]\<rparr>))"

fun encrypt_shared :: "node_crypto \<Rightarrow> frame_cipher \<Rightarrow> bytes \<Rightarrow> noise_world \<Rightarrow> (js_error + bytes) \<times> noise_world" where
  "encrypt_shared nc (FrameCipher r) plaintext w =
     (let (res, cs) = encrypt_frame nc plaintext (cells w ! r)
      in (res, w\<lparr>cells := (cells w)[r := cs],
                 used := used w @ [(r, enc_key (cells w ! r), counter_to_iv (enc_counter (cells w ! r)))]\<rparr>))"

fun decrypt_shared :: "node_crypto \<Rightarrow> frame_cipher \<Rightarrow> bytes \<Rightarrow> noise_world \<Rightarrow> (js_error + bytes) \<times> noise_world" where
  "decrypt_shared nc (FrameCipher r) frame w =
     (let (res, cs) = decrypt_frame nc frame (cells w ! r) in (res, w\<lparr>cells := (cells w)[r := cs]\<rparr>))"

text \<open>Any method of the handshake, and of any cipher built from a state that was returned.\<close>

inductive noise_step :: "node_crypto \<Rightarrow> noise_world \<Rightarrow> noise_world \<Rightarrow> bool" for nc where
  initiates: "noise_step nc w (w\<lparr>handshake := snd (initiate_handshake nc (handshake w))\<rparr>)"
| hears: "noise_step nc w (w\<lparr>handshake := snd (process_server_hello nc eph enc (handshake w))\<rparr>)"
| crafts: "noise_step nc w (w\<lparr>handshake := snd (craft_server_hello nc payload (handshake w))\<rparr>)"
| finalizes: "noise_step nc w (snd (finalize_shared nc payload w))"
| encrypts: "r < length (cells w) \<Longrightarrow> noise_step nc w (snd (encrypt_shared nc (new_frame_cipher r) plaintext w))"
| decrypts: "r < length (cells w) \<Longrightarrow> noise_step nc w (snd (decrypt_shared nc (new_frame_cipher r) frame w))"

inductive noise_reach :: "node_crypto \<Rightarrow> noise_handshake \<Rightarrow> noise_world \<Rightarrow> bool" for nc h where
  new: "noise_reach nc h (new_noise_world h)"
| step: "noise_reach nc h w \<Longrightarrow> noise_step nc w w' \<Longrightarrow> noise_reach nc h w'"

section \<open>Vectors below the wrap-around differ\<close>

lemma bit_of_byte: "j < 8 \<Longrightarrow> bit (ucast (drop_bit (8 * i) (w :: 64 word)) :: 8 word) j = bit w (8 * i + j)"
  by (simp add: bit_ucast_iff bit_drop_bit_eq)

lemma words_by_bytes:
  assumes "\<And>i. i < 8 \<Longrightarrow> (ucast (drop_bit (8 * i) w) :: 8 word) = ucast (drop_bit (8 * i) (v :: 64 word))"
  shows "w = v"
proof (rule bit_word_eqI)
  fix n assume "n < LENGTH(64)"
  then have n: "n div 8 < 8" "n mod 8 < 8" "8 * (n div 8) + n mod 8 = n" by simp_all
  show "bit w n = bit v n" using assms [OF n(1)] bit_of_byte [OF n(2), of "n div 8"] unfolding n(3) by metis
qed

lemma big_uint64_inj: "big_uint64 m = big_uint64 n \<Longrightarrow> (word_of_int m :: 64 word) = word_of_int n"
proof (rule words_by_bytes)
  fix i :: nat
  assume eq: "big_uint64 m = big_uint64 n" and "i < 8"
  then have "i \<in> set [7, 6, 5, 4, 3, 2, 1, 0]" by (auto simp: eval_nat_numeral less_Suc_eq)
  then show "(ucast (drop_bit (8 * i) (word_of_int m :: 64 word)) :: 8 word) = ucast (drop_bit (8 * i) (word_of_int n :: 64 word))"
    using eq unfolding big_uint64_def Let_def map_eq_conv by blast
qed

lemma counter_to_iv_inj:
  assumes "counter_to_iv m = counter_to_iv n" and "0 \<le> m" "m < 2 ^ 64" "0 \<le> n" "n < 2 ^ 64"
  shows "m = n"
proof -
  have "(word_of_int m :: 64 word) = word_of_int n"
    using assms(1) by (intro big_uint64_inj) (simp add: counter_to_iv_def)
  then show ?thesis using assms(2-) by (simp add: word_of_int_eq_iff take_bit_int_eq_self)
qed

section \<open>One count for all aliases\<close>

definition vectors_of :: "cipher_ref \<Rightarrow> noise_world \<Rightarrow> (bytes \<times> bytes) list" where
  "vectors_of r w = map snd (filter (\<lambda>u. fst u = r) (used w))"

definition counts :: "noise_world \<Rightarrow> bool" where
  "counts w =
     (list_all (\<lambda>u. fst u < length (cells w)) (used w) \<and>
      (\<forall>r < length (cells w). enc_counter (cells w ! r) = int (length (vectors_of r w)) \<and>
         vectors_of r w = map (\<lambda>i. (enc_key (cells w ! r), counter_to_iv (int i))) [0..<length (vectors_of r w)]))"

lemma encrypt_frame_state: "snd (encrypt_frame nc p cs) = cs\<lparr>enc_counter := enc_counter cs + 1\<rparr>"
  by (auto simp: encrypt_frame_def Let_def split: sum.split)

lemma decrypt_frame_state:
  "enc_key (snd (decrypt_frame nc fr cs)) = enc_key cs" "enc_counter (snd (decrypt_frame nc fr cs)) = enc_counter cs"
  by (simp_all add: decrypt_frame_def Let_def)

lemma finalized_counter: "finalize_handshake nc payload h = (Inr (finish, cs), h') \<Longrightarrow> enc_counter cs = 0"
  by (auto simp: finalize_handshake_def Let_def split: sum.splits)

lemma counts_finalize:
  assumes "counts w"
  shows "counts (snd (finalize_shared nc payload w))"
proof (cases "finalize_handshake nc payload (handshake w)")
  case (Pair res h)
  show ?thesis
  proof (cases res)
    case (Inl e)
    then show ?thesis using assms Pair by (simp add: finalize_shared_def counts_def vectors_of_def)
  next
    case (Inr x)
    obtain finish cs where x: "x = (finish, cs)" by (cases x)
    let ?w = "snd (finalize_shared nc payload w)"
    have w: "cells ?w = cells w @ [cs]" "vectors_of r ?w = vectors_of r w" "used ?w = used w" for r
      using Pair Inr x by (simp_all add: finalize_shared_def vectors_of_def)
    have "enc_counter cs = 0" using finalized_counter Pair Inr x by blast
    moreover have "vectors_of (length (cells w)) w = []"
      using assms by (auto simp: counts_def vectors_of_def list_all_iff filter_empty_conv)
    ultimately show ?thesis
      using assms by (auto simp: counts_def w nth_append less_Suc_eq list_all_iff)
  qed
qed

lemma encrypt_shared_fields:
  "cells (snd (encrypt_shared nc (FrameCipher r) p w)) =
     (cells w)[r := (cells w ! r)\<lparr>enc_counter := enc_counter (cells w ! r) + 1\<rparr>]"
  "used (snd (encrypt_shared nc (FrameCipher r) p w)) =
     used w @ [(r, enc_key (cells w ! r), counter_to_iv (enc_counter (cells w ! r)))]"
  by (simp_all add: split_beta Let_def encrypt_frame_state)

lemma counts_encrypt:
  assumes "counts w" and "r < length (cells w)"
  shows "counts (snd (encrypt_shared nc (FrameCipher r) p w))"
proof -
  let ?w = "snd (encrypt_shared nc (FrameCipher r) p w)" and ?cs = "cells w ! r"
  note w = encrypt_shared_fields [of nc r p w]
  have v: "vectors_of s ?w = vectors_of s w @ (if s = r then [(enc_key ?cs, counter_to_iv (enc_counter ?cs))] else [])" for s
    by (simp add: vectors_of_def w(2) del: encrypt_shared.simps)
  have "enc_counter ?cs = int (length (vectors_of r w))" using assms by (simp add: counts_def)
  then show ?thesis
    using assms unfolding counts_def v by (auto simp: w nth_list_update simp del: encrypt_shared.simps)
qed

lemma counts_step: "noise_step nc w w' \<Longrightarrow> counts w \<Longrightarrow> counts w'"
proof (induction rule: noise_step.induct)
  case (finalizes w payload)
  then show ?case by (rule counts_finalize)
next
  case (encrypts r w p)
  then show ?case by (simp only: new_frame_cipher_def counts_encrypt)
next
  case (decrypts r w fr)
  then show ?case
    by (auto simp: counts_def vectors_of_def new_frame_cipher_def split_beta Let_def nth_list_update decrypt_frame_state)
qed (simp_all add: counts_def vectors_of_def)

lemma counts_reach: "noise_reach nc h w \<Longrightarrow> counts w"
proof (induction rule: noise_reach.induct)
  case new
  show ?case by (simp add: counts_def new_noise_world_def)
next
  case (step w w')
  then show ?case by (blast intro: counts_step)
qed

section \<open>A run\<close>

definition demo_handshake :: noise_handshake where
  "demo_handshake = new_noise_handshake toy_crypto ([7], [8]) ([9], []) None"

text \<open>The handshake finished \<open>k\<close> times, and a frame through each of two ciphers of the first state.\<close>

definition demo_noise :: "nat \<Rightarrow> noise_world" where
  "demo_noise k = ((\<lambda>w. snd (finalize_shared toy_crypto [5] w)) ^^ k) (new_noise_world demo_handshake)"

definition demo_frames :: noise_world where
  "demo_frames = snd (encrypt_shared toy_crypto (new_frame_cipher 0) [2]
     (snd (encrypt_shared toy_crypto (new_frame_cipher 0) [1] (demo_noise 1))))"
lemma finalize_shared_ok:
  assumes "gcm_laws nc" and "hkdf_laws nc"
  shows "\<exists>f. finalize_shared nc payload w = (Inr (f, length (cells w)), snd (finalize_shared nc payload w))"
    and "length (cells (snd (finalize_shared nc payload w))) = Suc (length (cells w))"
proof -
  let ?k = "hkdf nc (public_key (static_key_pair (handshake w))) 64 (Some (chaining_key (handshake w))) (Some (js ''Noise-Final''))"
  obtain c t where "aes_gcm_encrypt nc (subarray ?k 0 32) (counter_to_iv 0) payload None = Inr (c, t)"
    using gcm_roundtrip [OF assms(1) noise_dh_keys(1) [OF assms(2)] length_counter_to_iv] by metis
  then have fin: "finalize_shared nc payload w = (Inr (c @ t, length (cells w)), snd (finalize_shared nc payload w))"
    "length (cells (snd (finalize_shared nc payload w))) = Suc (length (cells w))"
    by (simp_all add: finalize_shared_def finalize_handshake_def Let_def)
  show "\<exists>f. finalize_shared nc payload w = (Inr (f, length (cells w)), snd (finalize_shared nc payload w))"
    using fin(1) by (rule exI)
  show "length (cells (snd (finalize_shared nc payload w))) = Suc (length (cells w))" by (rule fin(2))
qed

lemma demo_noise_Suc: "demo_noise (Suc k) = snd (finalize_shared toy_crypto [5] (demo_noise k))"
  by (simp add: demo_noise_def)

lemma demo_cells: "length (cells (demo_noise k)) = k"
  by (induction k) (simp_all add: demo_noise_Suc finalize_shared_ok(2) [OF toy_gcm_laws toy_hkdf_laws],
    simp add: demo_noise_def new_noise_world_def)

lemma demo_finalized: "\<exists>f. finalize_shared toy_crypto [5] (demo_noise k) = (Inr (f, k), demo_noise (Suc k))"
  using finalize_shared_ok(1) [OF toy_gcm_laws toy_hkdf_laws, of "[5]" "demo_noise k"]
  by (simp add: demo_cells demo_noise_Suc)

lemma demo_frames_reach: "noise_reach toy_crypto demo_handshake demo_frames"
proof -
  have 1: "noise_reach toy_crypto demo_handshake (demo_noise 1)"
    using noise_reach.step [OF noise_reach.new noise_step.finalizes] by (simp add: demo_noise_def)
  have "0 < length (cells (demo_noise 1))" by (simp add: demo_cells)
  from noise_reach.step [OF 1 noise_step.encrypts [OF this]] show ?thesis
    unfolding demo_frames_def by (rule noise_reach.step) (rule noise_step.encrypts,
      simp add: new_frame_cipher_def encrypt_shared_fields demo_cells del: encrypt_shared.simps)
qed

section \<open>Properties\<close>

text \<open>
  C17. However many ciphers are built from a cipher state and in whatever order they are used, with
  any frames received in between and any calls of the handshake, no initialization vector is used
  twice with one state, as long as it encrypts at most $2^{64}$ frames.
\<close>

theorem aliases_never_repeat_vector:
  assumes "noise_reach nc h w" and "r < length (cells w)"
    and "length (filter (\<lambda>u. fst u = r) (used w)) \<le> 2 ^ 64"
  shows "distinct (map (snd \<circ> snd) (filter (\<lambda>u. fst u = r) (used w)))"
proof -
  let ?n = "length (vectors_of r w)"
  have "vectors_of r w = map (\<lambda>i. (enc_key (cells w ! r), counter_to_iv (int i))) [0..<?n]"
    using counts_reach [OF assms(1)] assms(2) unfolding counts_def by blast
  from arg_cong [OF this, of "map snd"] have "map snd (vectors_of r w) = map (counter_to_iv \<circ> int) [0..<?n]"
    by (simp only: map_map comp_def snd_conv)
  moreover have "inj_on (counter_to_iv \<circ> int) {0..<?n}"
  proof (rule inj_onI)
    fix i j
    assume i: "i \<in> {0..<?n}" and j: "j \<in> {0..<?n}" and eq: "(counter_to_iv \<circ> int) i = (counter_to_iv \<circ> int) j"
    have n: "int ?n \<le> 2 ^ 64" using assms(3) by (simp add: vectors_of_def)
    have "int i < 2 ^ 64" using i n by (meson atLeastLessThan_iff less_le_trans of_nat_less_iff)
    moreover have "int j < 2 ^ 64" using j n by (meson atLeastLessThan_iff less_le_trans of_nat_less_iff)
    ultimately have "int i = int j" using eq by (intro counter_to_iv_inj) simp_all
    then show "i = j" by simp
  qed
  ultimately have "distinct (map snd (vectors_of r w))" by (simp add: distinct_map)
  then show ?thesis by (simp add: vectors_of_def comp_def)
qed

theorem aliases_never_repeat_vector_witness:
  "distinct (map (snd \<circ> snd) (filter (\<lambda>u. fst u = 0) (used demo_frames))) \<and> length (used demo_frames) = 2"
proof -
  have "used (demo_noise 1) = used (demo_noise 0)"
    by (simp add: demo_noise_Suc finalize_shared_def split: prod.split sum.split)
  then have len: "length (used demo_frames) = 2" "0 < length (cells demo_frames)"
    by (simp_all add: demo_frames_def new_frame_cipher_def encrypt_shared_fields demo_cells del: encrypt_shared.simps)
      (simp add: demo_noise_def new_noise_world_def)
  moreover have "length (filter (\<lambda>u. fst u = 0) (used demo_frames)) \<le> 2 ^ 64"
    using length_filter_le [of "\<lambda>u. fst u = 0" "used demo_frames"] len(1) by simp
  ultimately show ?thesis
    using aliases_never_repeat_vector [OF demo_frames_reach len(2)] len(1) by blast
qed

text \<open>
  C38. Finishing a handshake twice repeats a vector: \<^verbatim>\<open>finalizeHandshake\<close> does not look at \<^verbatim>\<open>isComplete\<close>, and a
  second call makes another state with the key of the first and its counters at 0. The first frames
  of a cipher built from either are encrypted with one key and one initialization vector.
\<close>

theorem finalize_twice_reuses_vector:
  assumes "finalize_shared nc payload w = (Inr (finish, r), w1)"
    and "finalize_shared nc payload' w1 = (Inr (finish', s), w2)"
  shows "used (snd (encrypt_shared nc (new_frame_cipher s) q (snd (encrypt_shared nc (new_frame_cipher r) p w2)))) =
    used w @ [(r, enc_key (cells w2 ! r), counter_to_iv 0), (s, enc_key (cells w2 ! r), counter_to_iv 0)] \<and> r \<noteq> s"
proof -
  obtain h cs where f: "finalize_handshake nc payload (handshake w) = (Inr (finish, cs), h)" "r = length (cells w)"
    "w1 = w\<lparr>handshake := h, handshake_ref := Some r, cells := cells w @ [cs]\<rparr>"
    using assms(1) by (auto simp: finalize_shared_def split: prod.splits sum.splits)
  obtain h' cs' where g: "finalize_handshake nc payload' h = (Inr (finish', cs'), h')" "s = Suc r"
    "w2 = w1\<lparr>handshake := h', handshake_ref := Some s, cells := cells w @ [cs, cs']\<rparr>"
    using assms(2) f(2) unfolding f(3) by (auto simp: finalize_shared_def split: prod.splits sum.splits)
  have same: "static_key_pair h = static_key_pair (handshake w)" "chaining_key h = chaining_key (handshake w)"
    using f(1) by (auto simp: finalize_handshake_def Let_def split: sum.splits)
  have "enc_counter cs = 0" "enc_counter cs' = 0" using f(1) g(1) finalized_counter by blast+
  moreover have "enc_key cs' = enc_key cs"
    using f(1) g(1) same by (auto simp: finalize_handshake_def Let_def split: sum.splits)
  ultimately show ?thesis
    by (simp add: new_frame_cipher_def split_beta Let_def g(3) f(2,3) g(2) nth_append)
qed

theorem finalize_twice_reuses_vector_witness:
  "\<exists>r s k w. map snd (used (snd (encrypt_shared toy_crypto (new_frame_cipher s) [2]
      (snd (encrypt_shared toy_crypto (new_frame_cipher r) [1] w))))) =
     map snd (used (demo_noise 0)) @ [(k, counter_to_iv 0), (k, counter_to_iv 0)] \<and> r \<noteq> s"
proof -
  obtain f f' where 1: "finalize_shared toy_crypto [5] (demo_noise 0) = (Inr (f, 0), demo_noise 1)"
    and 2: "finalize_shared toy_crypto [5] (demo_noise 1) = (Inr (f', 1), demo_noise 2)"
    using demo_finalized [of 0] demo_finalized [of 1] by (auto simp: numeral_2_eq_2)
  show ?thesis
    using arg_cong [OF conjunct1 [OF finalize_twice_reuses_vector [OF 1 2, of "[2]" "[1]"]], of "map snd"]
    by (intro exI [of _ 0] exI [of _ 1] exI [of _ "enc_key (cells (demo_noise 2) ! 0)"] exI [of _ "demo_noise 2"])
      (simp del: encrypt_shared.simps)
qed

end
