(* ===== verification/Session.thy ===== *)
theory Session
  imports Crypto Jid Complex_Main
begin

text \<open>
  Credentials and the device description (\<^verbatim>\<open>packages/wazeko-core/src/session.ts\<close> and
  \<^verbatim>\<open>device.ts\<close>). \<^verbatim>\<open>Math.random()\<close> and \<^verbatim>\<open>randomBytes\<close> are arguments. \<open>to_base64\<close> is
  \<^verbatim>\<open>Buffer.toString("base64")\<close>.
\<close>

definition base64_char :: "nat \<Rightarrow> cunit" where
  "base64_char n = cu (''ABCDEFGHIJKLMNOPQRSTUVWXYZabcdefghijklmnopqrstuvwxyz0123456789+/'' ! n)"

fun to_base64 :: "bytes \<Rightarrow> jstr" where
  "to_base64 (a # b # c # bs) =
     (let n = (unat a * 256 + unat b) * 256 + unat c
      in base64_char (n div 262144) # base64_char (n div 4096 mod 64) #
         base64_char (n div 64 mod 64) # base64_char (n mod 64) # to_base64 bs)"
| "to_base64 [a, b] =
     (let n = (unat a * 256 + unat b) * 4
      in [base64_char (n div 4096), base64_char (n div 64 mod 64), base64_char (n mod 64), cu CHR ''='' ])"
| "to_base64 [a] =
     (let n = unat a * 16
      in [base64_char (n div 64), base64_char (n mod 64), cu CHR ''='', cu CHR ''='' ])"
| "to_base64 [] = []"

record signed_pre_key =
  key_id :: nat
  key_pair_of :: key_pair
  signature :: bytes

record credentials =
  me :: "jid option"
  client_id :: jstr
  client_token :: "jstr option"
  server_token :: "jstr option"
  enc_key_bytes :: "bytes option"
  mac_key_bytes :: "bytes option"
  noise_key :: "key_pair option"
  identity_key :: "key_pair option"
  signed_pre_key_of :: "signed_pre_key option"
  registration_id :: int
  registered :: bool

definition random_registration_id :: "real \<Rightarrow> int" where
  "random_registration_id rnd = \<lfloor>rnd * 65535\<rfloor>"

definition init_credentials :: "bytes \<Rightarrow> real \<Rightarrow> credentials" where
  "init_credentials rnd16 rnd =
     \<lparr>me = None, client_id = to_base64 rnd16, client_token = None, server_token = None,
      enc_key_bytes = None, mac_key_bytes = None, noise_key = None, identity_key = None,
      signed_pre_key_of = None, registration_id = random_registration_id rnd, registered = False\<rparr>"

record device_identity =
  device_name :: jstr
  os_name :: jstr
  client_version :: "nat \<times> nat \<times> nat"
  device_id :: nat
  device_registration_id :: int

definition default_device_identity :: "real \<Rightarrow> device_identity" where
  "default_device_identity rnd =
     \<lparr>device_name = js ''Wazeko Client'', os_name = js ''Node.js / TypeScript'',
      client_version = (2, 3000, 1015901307), device_id = 0,
      device_registration_id = random_registration_id rnd\<rparr>"

lemma registration_id_range:
  assumes "0 \<le> rnd" and "rnd < 1"
  shows "registration_id (init_credentials bs rnd) \<in> {0 .. 65534}"
proof -
  have "rnd * 65535 < 65535" using assms(2) by simp
  then have "\<lfloor>rnd * 65535\<rfloor> < 65535" by linarith
  then show ?thesis using assms(1) by (simp add: init_credentials_def random_registration_id_def)
qed

end
