(* ===== verification/Signal.thy ===== *)
theory Signal
  imports Session Lockstep
begin

text \<open>
  Message sessions (\<^verbatim>\<open>packages/wazeko-core/src/signal.ts\<close>): the pre-key manager, the session
  with its hash chain of keys, and the store of sessions by address. The key generations
  and random bytes are arguments. A session of the store is the entry of its map, so what
  \<^verbatim>\<open>getOrCreateSession\<close> returns stays connected to the store through its key.
  The results: two sessions of one secret stay in step over any sequence of messages, and
  what the manager still knows after any number of rotations.
\<close>

record pre_key =
  pre_key_id :: nat
  pre_key_pair :: key_pair

record pre_key_bundle =
  bundle_registration_id :: nat
  bundle_identity_key :: bytes
  bundle_signed_pre_key :: "nat \<times> bytes \<times> bytes"
  bundle_pre_key :: "(nat \<times> bytes) option"

record pre_key_manager =
  pre_keys :: "(nat, key_pair) jsmap"
  signed_pre_keys :: "(nat, signed_pre_key) jsmap"
  current_signed_pre_key_id :: nat

definition new_pre_key_manager :: pre_key_manager where
  "new_pre_key_manager = \<lparr>pre_keys = [], signed_pre_keys = [], current_signed_pre_key_id = 1\<rparr>"

text \<open>\<open>ders\<close> is what the key generations of the call give, in order, one for each key.\<close>

fun generate_pre_keys :: "nat \<Rightarrow> (bytes \<times> bytes) list \<Rightarrow> pre_key_manager \<Rightarrow> pre_key list \<times> pre_key_manager" where
  "generate_pre_keys i [] m = ([], m)"
| "generate_pre_keys i (der # ders) m =
     (let kp = generate_key_pair der;
          m = m\<lparr>pre_keys := AList.update i kp (pre_keys m)\<rparr>;
          (ks, m) = generate_pre_keys (Suc i) ders m
      in (\<lparr>pre_key_id = i, pre_key_pair = kp\<rparr> # ks, m))"

definition generate_initial_pre_keys ::
    "(bytes \<times> bytes) list \<Rightarrow> pre_key_manager \<Rightarrow> pre_key list \<times> pre_key_manager" where
  "generate_initial_pre_keys ders m = generate_pre_keys 1 ders m"

definition generate_signed_pre_key ::
    "node_crypto \<Rightarrow> bytes \<times> bytes \<Rightarrow> key_pair \<Rightarrow> pre_key_manager \<Rightarrow> signed_pre_key \<times> pre_key_manager" where
  "generate_signed_pre_key nc der identityKeyPair m =
     (let keyId = current_signed_pre_key_id m;
          keyPair = generate_key_pair der;
          spk = \<lparr>key_id = keyId, key_pair_of = keyPair,
                 signature = hmac_sha256 nc (private_key identityKeyPair) (public_key keyPair)\<rparr>
      in (spk, m\<lparr>current_signed_pre_key_id := keyId + 1,
                 signed_pre_keys := AList.update keyId spk (signed_pre_keys m)\<rparr>))"

definition rotate_signed_pre_key ::
    "node_crypto \<Rightarrow> bytes \<times> bytes \<Rightarrow> key_pair \<Rightarrow> pre_key_manager \<Rightarrow> signed_pre_key \<times> pre_key_manager" where
  "rotate_signed_pre_key nc der identityKeyPair m = generate_signed_pre_key nc der identityKeyPair m"

definition get_pre_key :: "nat \<Rightarrow> pre_key_manager \<Rightarrow> key_pair option" where
  "get_pre_key keyId m = map_of (pre_keys m) keyId"

definition get_signed_pre_key :: "nat \<Rightarrow> pre_key_manager \<Rightarrow> signed_pre_key option" where
  "get_signed_pre_key keyId m = map_of (signed_pre_keys m) keyId"

section \<open>Sessions\<close>

datatype message_type = Msg | PkMsg

record signal_encrypted_message =
  encrypted_type :: message_type
  encrypted_registration_id :: nat
  packed_ciphertext :: bytes

record signal_session =
  shared_secret :: bytes
  root_key :: bytes
  chain_key :: bytes
  msg_sequence :: nat

definition new_signal_session :: "node_crypto \<Rightarrow> bytes \<Rightarrow> signal_session" where
  "new_signal_session nc sharedSecret =
     (let root = hkdf nc sharedSecret 32 (Some (replicate 32 0)) (Some (js ''Signal-Root''))
      in \<lparr>shared_secret = sharedSecret, root_key = root,
          chain_key = hkdf nc root 32 (Some (replicate 32 0)) (Some (js ''Signal-Chain'')),
          msg_sequence = 0\<rparr>)"

definition message_key :: "node_crypto \<Rightarrow> signal_session \<Rightarrow> bytes" where
  "message_key nc s =
     hkdf nc (chain_key s) 32 (Some (replicate 32 0)) (Some (js ''Signal-Msg-'' @ nat_to_js (msg_sequence s)))"

definition advance_chain :: "node_crypto \<Rightarrow> signal_session \<Rightarrow> signal_session" where
  "advance_chain nc s = s\<lparr>msg_sequence := msg_sequence s + 1, chain_key := sha256 nc (chain_key s)\<rparr>"

text \<open>\<open>iv\<close> is what \<^verbatim>\<open>randomBytes(16)\<close> gave; a throw leaves the session as it was.\<close>

definition session_encrypt ::
    "node_crypto \<Rightarrow> bytes \<times> bytes \<Rightarrow> signal_session \<Rightarrow> (js_error + signal_encrypted_message) \<times> signal_session" where
  "session_encrypt nc arg s =
     (let (plaintext, iv) = arg
      in case aes_cbc_encrypt nc (message_key nc s) iv plaintext of
           Inl e \<Rightarrow> (Inl e, s)
         | Inr ciphertext \<Rightarrow>
             let s = advance_chain nc s
             in (Inr \<lparr>encrypted_type = (if msg_sequence s = 1 then PkMsg else Msg),
                      encrypted_registration_id = 1000, packed_ciphertext = iv @ ciphertext\<rparr>, s))"

definition session_decrypt ::
    "node_crypto \<Rightarrow> signal_encrypted_message \<Rightarrow> signal_session \<Rightarrow> (js_error + bytes) \<times> signal_session" where
  "session_decrypt nc message s =
     (let iv = subarray (packed_ciphertext message) 0 16;
          ciphertext = subarray_from (packed_ciphertext message) 16
      in case aes_cbc_decrypt nc (message_key nc s) iv ciphertext of
           Inl e \<Rightarrow> (Inl e, s)
         | Inr plaintext \<Rightarrow> (Inr plaintext, advance_chain nc s))"

type_synonym signal_session_store = "(jstr, signal_session) jsmap"

definition get_or_create_session ::
    "node_crypto \<Rightarrow> bytes \<Rightarrow> jid + jstr \<Rightarrow> bytes option \<Rightarrow> signal_session_store \<Rightarrow>
     signal_session \<times> signal_session_store" where
  "get_or_create_session nc rnd remoteJid sharedSecret st =
     (let k = (case remoteJid of Inl j \<Rightarrow> jid_to_string j | Inr t \<Rightarrow> t)
      in case map_of st k of
           Some s \<Rightarrow> (s, st)
         | None \<Rightarrow>
             let s = new_signal_session nc (case sharedSecret of None \<Rightarrow> rnd | Some x \<Rightarrow> x)
             in (s, AList.update k s st))"

section \<open>Sessions in step\<close>

definition same_chain :: "signal_session \<Rightarrow> signal_session \<Rightarrow> bool" where
  "same_chain a b = (chain_key a = chain_key b \<and> msg_sequence a = msg_sequence b)"

lemma same_chain_key: "same_chain a b \<Longrightarrow> message_key nc a = message_key nc b"
  by (simp add: same_chain_def message_key_def)

lemma session_step:
  assumes "cbc_laws nc" and "hkdf_laws nc" and "same_chain a b" and "length iv = 16"
  shows "\<exists>w. session_encrypt nc (p, iv) a = (Inr w, advance_chain nc a) \<and>
     session_decrypt nc w b = (Inr p, advance_chain nc b)"
proof -
  have key: "length (message_key nc a) = 32" using assms(2) by (simp add: message_key_def length_hkdf)
  obtain c where c: "aes_cbc_encrypt nc (message_key nc a) iv p = Inr c"
      "aes_cbc_decrypt nc (message_key nc b) iv c = Inr p"
    using cbc_roundtrip [OF assms(1) key assms(4)] same_chain_key [OF assms(3)] by metis
  have iv: "subarray (iv @ c) 0 16 = iv" "subarray_from (iv @ c) 16 = c"
    using subarray_nat [of "iv @ c" 0 16] subarray_from_nat [of "iv @ c" 16] assms(4) by simp_all
  show ?thesis using c iv by (simp add: session_encrypt_def session_decrypt_def Let_def)
qed

interpretation sessions: lockstep "session_encrypt nc" "session_decrypt nc" fst "\<lambda>m. length (snd m) = 16"
    "\<lambda>a b. cbc_laws nc \<and> hkdf_laws nc \<and> same_chain a b" "advance_chain nc" "advance_chain nc"
  for nc
proof (unfold_locales, goal_cases)
  case (1 a b m)
  then show ?case using session_step [of nc a b "snd m" "fst m"] by simp
next
  case (2 a b)
  then show ?case by (simp add: same_chain_def advance_chain_def)
qed

text \<open>
  C14. Two sessions created from the same secret: for every sequence of messages (each with a
  16-byte random initialization vector), one encrypts them all without a throw, the other
  decrypts them in the same order to the same plaintexts, and afterwards both hold the same
  chain key and count, so the conversation can go on in either direction.
\<close>

theorem session_roundtrip:
  assumes "cbc_laws nc" and "hkdf_laws nc" and "list_all (\<lambda>m. length (snd m) = 16) msgs"
  shows "\<exists>ws a b. run_calls (session_encrypt nc) msgs (new_signal_session nc secret) = (map Inr ws, a) \<and>
     run_calls (session_decrypt nc) ws (new_signal_session nc secret) = (map (\<lambda>m. Inr (fst m)) msgs, b) \<and>
     chain_key a = chain_key b \<and> msg_sequence a = length msgs \<and> msg_sequence b = length msgs"
proof -
  have "msg_sequence ((advance_chain nc ^^ n) s) = msg_sequence s + n" for n s
    by (induction n) (simp_all add: advance_chain_def)
  moreover have "msg_sequence (new_signal_session nc secret) = 0"
    by (simp add: new_signal_session_def Let_def)
  ultimately show ?thesis
    using sessions.in_order [of nc "new_signal_session nc secret" "new_signal_session nc secret" msgs] assms
    by (auto simp: same_chain_def)
qed

theorem session_roundtrip_witness:
  "\<exists>ws a b. run_calls (session_encrypt toy_crypto) [([1, 2], replicate 16 0), ([3], replicate 16 9)]
       (new_signal_session toy_crypto [42]) = (map Inr ws, a) \<and>
     run_calls (session_decrypt toy_crypto) ws (new_signal_session toy_crypto [42]) = ([Inr [1, 2], Inr [3]], b)"
  using session_roundtrip [OF toy_cbc_laws toy_hkdf_laws,
      of "[([1, 2], replicate 16 0), ([3], replicate 16 9)]" "[42]"]
  by auto

section \<open>Pre-keys\<close>

fun rotations :: "node_crypto \<Rightarrow> key_pair \<Rightarrow> (bytes \<times> bytes) list \<Rightarrow> pre_key_manager \<Rightarrow>
    signed_pre_key list \<times> pre_key_manager" where
  "rotations nc identity [] m = ([], m)"
| "rotations nc identity (der # ders) m =
     (let (k, m) = rotate_signed_pre_key nc der identity m; (ks, m) = rotations nc identity ders m
      in (k # ks, m))"

lemma rotations_lookup:
  assumes "rotations nc identity ders m = (ks, m')"
  shows "current_signed_pre_key_id m' = current_signed_pre_key_id m + length ks \<and> length ks = length ders \<and>
     (\<forall>i < length ks. get_signed_pre_key (current_signed_pre_key_id m + i) m' = Some (ks ! i)) \<and>
     (\<forall>i < current_signed_pre_key_id m. get_signed_pre_key i m' = get_signed_pre_key i m)"
  using assms
proof (induction ders arbitrary: m ks)
  case Nil
  then show ?case by simp
next
  case (Cons der ders)
  obtain k m1 where k: "rotate_signed_pre_key nc der identity m = (k, m1)" by fastforce
  obtain ks1 where ks: "rotations nc identity ders m1 = (ks1, m')" "ks = k # ks1"
    using Cons.prems k by (auto split: prod.splits)
  have m1: "current_signed_pre_key_id m1 = Suc (current_signed_pre_key_id m)"
      "get_signed_pre_key (current_signed_pre_key_id m) m1 = Some k"
      "i \<noteq> current_signed_pre_key_id m \<Longrightarrow> get_signed_pre_key i m1 = get_signed_pre_key i m" for i
    using k by (auto simp: rotate_signed_pre_key_def generate_signed_pre_key_def get_signed_pre_key_def Let_def)
  note IH = Cons.IH [OF ks(1), unfolded m1(1)]
  have "get_signed_pre_key i m' = get_signed_pre_key i m" if "i < current_signed_pre_key_id m" for i
    using IH m1(3) [of i] that by simp
  moreover have "get_signed_pre_key (current_signed_pre_key_id m + i) m' = Some (ks ! i)"
    if "i < length ks" for i
    using IH m1(2) that by (cases i) (simp_all add: ks(2))
  ultimately show ?case using IH by (simp add: ks(2))
qed

text \<open>
  Rotating the signed pre-key any number of times hands out the next identifiers in
  order, and every key, the new ones and the ones from before, stays retrievable under its
  identifier.
\<close>

theorem rotation_keeps_keys:
  assumes "rotations nc identity ders m = (ks, m')"
  shows "map (\<lambda>i. get_signed_pre_key i m') [current_signed_pre_key_id m ..< current_signed_pre_key_id m']
       = map Some ks \<and> length ks = length ders \<and>
     (i < current_signed_pre_key_id m \<longrightarrow> get_signed_pre_key i m' = get_signed_pre_key i m)"
  using rotations_lookup [OF assms] by (auto intro: nth_equalityI)

theorem rotation_keeps_keys_witness:
  "map (\<lambda>i. get_signed_pre_key i (snd (rotations toy_crypto \<lparr>public_key = [], private_key = [1]\<rparr>
      [([1], [2]), ([3], [4])] new_pre_key_manager))) [1..<3] =
     map Some (fst (rotations toy_crypto \<lparr>public_key = [], private_key = [1]\<rparr> [([1], [2]), ([3], [4])] new_pre_key_manager))"
proof -
  let ?r = "rotations toy_crypto \<lparr>public_key = [], private_key = [1]\<rparr> [([1], [2]), ([3], [4])] new_pre_key_manager"
  have "current_signed_pre_key_id new_pre_key_manager = 1" "current_signed_pre_key_id (snd ?r) = 3"
    by code_simp+
  then show ?thesis
    using rotation_keeps_keys [OF surjective_pairing, of toy_crypto "\<lparr>public_key = [], private_key = [1]\<rparr>"
        "[([1], [2]), ([3], [4])]" new_pre_key_manager]
    by simp
qed

end
