(* ===== verification/Login_Codes.thy ===== *)
theory Login_Codes
  imports Message_Types Complex_Main
begin

text \<open>
  Pairing codes and QR codes (\<^verbatim>\<open>pairing.ts\<close> and \<^verbatim>\<open>qr.ts\<close> of \<^verbatim>\<open>packages/wazeko-auth/src\<close>). A
  manager is the event it holds, if any. The random numbers of a call are a sequence
  \<open>rnd\<close>; what is printed is the list of lines given to \<^verbatim>\<open>console.log\<close>, where the terminal
  drawing of a QR code is a parameter. The result is the format of a pairing code.
\<close>

type_synonym pairing_code_manager = "pairing_code_event option"
type_synonym qr_code_manager = "qr_code_event option"

definition charset :: jstr where
  "charset = js ''23456789ABCDEFGHJKLMNPQRSTUVWXYZ''"

definition pick_char :: "real \<Rightarrow> cunit" where
  "pick_char rnd = charset ! nat \<lfloor>rnd * real (length charset)\<rfloor>"

definition generate_code ::
    "(nat \<Rightarrow> real) \<Rightarrow> nat \<Rightarrow> pairing_code_manager \<Rightarrow> pairing_code_event \<times> pairing_code_manager" where
  "generate_code rnd expiresInSeconds m =
     (let p1 = map (\<lambda>i. pick_char (rnd (2 * i))) [0..<4];
          p2 = map (\<lambda>i. pick_char (rnd (2 * i + 1))) [0..<4];
          ev = \<lparr>code = p1 @ js ''-'' @ p2, expires_in_seconds = expiresInSeconds\<rparr>
      in (ev, Some ev))"

definition current_pairing_code :: "pairing_code_manager \<Rightarrow> pairing_code_event option" where
  "current_pairing_code m = m"

definition print_code :: "pairing_code_manager \<Rightarrow> jstr list" where
  "print_code m =
     (case m of
        None \<Rightarrow> []
      | Some ev \<Rightarrow>
          [10 # js ''=============================='',
           js ''  WHATSAPP PAIRING CODE: '' @ code ev,
           js ''  Expires in: '' @ nat_to_js (expires_in_seconds ev) @ js ''s'',
           js ''=============================='' @ [10]])"

definition update_qr :: "jstr \<Rightarrow> nat \<Rightarrow> nat \<Rightarrow> qr_code_manager \<Rightarrow> qr_code_event \<times> qr_code_manager" where
  "update_qr text attempt_no timeoutSeconds m =
     (let ev = \<lparr>raw = text, attempts = attempt_no, timeout_seconds = timeoutSeconds\<rparr> in (ev, Some ev))"

definition current_qr_code :: "qr_code_manager \<Rightarrow> qr_code_event option" where
  "current_qr_code m = m"

definition print_terminal :: "(bool \<Rightarrow> jstr \<Rightarrow> jstr) \<Rightarrow> bool \<Rightarrow> qr_code_manager \<Rightarrow> jstr list" where
  "print_terminal draw small m =
     (case m of
        None \<Rightarrow> []
      | Some ev \<Rightarrow>
          [10 # js ''=== SCAN WHATSAPP QR CODE (Attempt #'' @ nat_to_js (attempts ev) @ js '') ==='',
           draw small (raw ev),
           js ''==================================================='' @ [10]])"

lemma length_charset: "length charset = 32"
  by (simp add: charset_def js_def)

lemma pick_char_in:
  assumes "0 \<le> rnd" and "rnd < 1"
  shows "pick_char rnd \<in> set charset"
proof -
  have "rnd * 32 < 32" using assms(2) by simp
  then have "\<lfloor>rnd * 32\<rfloor> < 32" by linarith
  then show ?thesis using assms(1) by (simp add: pick_char_def length_charset nat_less_iff)
qed

text \<open>
  A pairing code is four characters, a dash and four characters, all eight from the
  character set without look-alikes, and the manager then holds the event it returned.
\<close>

lemma pairing_code_format:
  assumes "\<And>i. 0 \<le> rnd i \<and> rnd i < 1"
  shows "length (code (fst (generate_code rnd e m))) = 9 \<and>
     code (fst (generate_code rnd e m)) ! 4 = cu CHR ''-'' \<and>
     set (code (fst (generate_code rnd e m))) \<subseteq> insert (cu CHR ''-'') (set charset) \<and>
     current_pairing_code (snd (generate_code rnd e m)) = Some (fst (generate_code rnd e m))"
  using pick_char_in assms by (auto simp: current_pairing_code_def generate_code_def Let_def js_def nth_append)

end
