(* ===== verification/Event_Queue.thy ===== *)
theory Event_Queue
  imports Message_Types
begin

text \<open>
  The event queue behind \<^verbatim>\<open>client.events()\<close> (\<^verbatim>\<open>packages/wazeko/src/events.ts\<close>). A call of
  \<^verbatim>\<open>next\<close> that has to wait registers a waiter; here it is known by a number the caller
  picks. \<open>push\<close> and \<open>close\<close> return the waiters they resolved and with what. The results:
  buffer and waiters are never both in use, callers get the events in the order of
  pushing, and what \<^verbatim>\<open>close\<close> leaves for \<^verbatim>\<open>next\<close> and for the asynchronous iterator.
\<close>

record event_queue =
  queue :: "event list"
  waiters :: "nat list"
  closed :: bool

datatype next_result = Item event | Null | Waits

definition new_event_queue :: event_queue where
  "new_event_queue = \<lparr>queue = [], waiters = [], closed = False\<rparr>"

definition push :: "event \<Rightarrow> event_queue \<Rightarrow> (nat \<times> event) list \<times> event_queue" where
  "push ev q =
     (if closed q then ([], q)
      else case waiters q of
        w # ws \<Rightarrow> ([(w, ev)], q\<lparr>waiters := ws\<rparr>)
      | [] \<Rightarrow> ([], q\<lparr>queue := queue q @ [ev]\<rparr>))"

definition next_event :: "nat \<Rightarrow> event_queue \<Rightarrow> next_result \<times> event_queue" where
  "next_event w q =
     (case queue q of
        ev # evs \<Rightarrow> (Item ev, q\<lparr>queue := evs\<rparr>)
      | [] \<Rightarrow> if closed q then (Null, q) else (Waits, q\<lparr>waiters := waiters q @ [w]\<rparr>))"

definition close_queue :: "event_queue \<Rightarrow> (nat \<times> event) list \<times> event_queue" where
  "close_queue q =
     (map (\<lambda>w. (w, DisconnectEvent (js ''queue closed''))) (waiters q), q\<lparr>closed := True, waiters := []\<rparr>)"

text \<open>
  One round of the asynchronous iterator: \<^const>\<open>None\<close> when the loop ends, \<open>Some None\<close> while
  its \<^verbatim>\<open>next\<close> waits, \<open>Some (Some ev)\<close> when it yields at once.
\<close>

definition iterate :: "nat \<Rightarrow> event_queue \<Rightarrow> event option option \<times> event_queue" where
  "iterate w q =
     (if closed q then (None, q)
      else case next_event w q of
        (Item ev, q) \<Rightarrow> (Some (Some ev), q)
      | (Null, q) \<Rightarrow> (None, q)
      | (Waits, q) \<Rightarrow> (Some None, q))"

section \<open>Sequences of calls\<close>

text \<open>
  The calls made on a queue in the order they happen, and the log of what callers of
  \<^verbatim>\<open>next\<close> got, in the order they got it.
\<close>

datatype eq_call = Push event | Next nat | Close

type_synonym eq_log = "(nat \<times> event option) list"

fun eq_step :: "eq_call \<Rightarrow> eq_log \<times> event_queue \<Rightarrow> eq_log \<times> event_queue" where
  "eq_step (Push ev) (l, q) = (let (ds, q) = push ev q in (l @ map (apsnd Some) ds, q))"
| "eq_step (Next w) (l, q) =
     (case next_event w q of
        (Item ev, q) \<Rightarrow> (l @ [(w, Some ev)], q)
      | (Null, q) \<Rightarrow> (l @ [(w, None)], q)
      | (Waits, q) \<Rightarrow> (l, q))"
| "eq_step Close (l, q) = (let (ds, q) = close_queue q in (l @ map (apsnd Some) ds, q))"

definition eq_run :: "eq_call list \<Rightarrow> eq_log \<times> event_queue" where
  "eq_run cs = fold eq_step cs ([], new_event_queue)"

lemma eq_run_snoc: "eq_run (cs @ [c]) = eq_step c (eq_run cs)"
  by (simp add: eq_run_def)

fun pushed_by :: "eq_call \<Rightarrow> event list" where
  "pushed_by (Push ev) = [ev]"
| "pushed_by c = []"

fun called_by :: "eq_call \<Rightarrow> nat list" where
  "called_by (Next w) = [w]"
| "called_by c = []"

text \<open>Events pushed before the first \<^verbatim>\<open>close\<close>; all callers; callers before the first \<^verbatim>\<open>close\<close>.\<close>

definition pushed :: "eq_call list \<Rightarrow> event list" where
  "pushed cs = concat (map pushed_by (takeWhile (\<lambda>c. c \<noteq> Close) cs))"

definition callers :: "eq_call list \<Rightarrow> nat list" where
  "callers cs = concat (map called_by cs)"

definition early :: "eq_call list \<Rightarrow> nat" where
  "early cs = length (callers (takeWhile (\<lambda>c. c \<noteq> Close) cs))"

text \<open>What the \<open>i\<close>-th caller gets once the queue is closed.\<close>

definition answer :: "eq_call list \<Rightarrow> nat \<Rightarrow> event option" where
  "answer cs i =
     (if i < length (pushed cs) then Some (pushed cs ! i)
      else if i < early cs then Some (DisconnectEvent (js ''queue closed'')) else None)"

definition expected_log :: "eq_call list \<Rightarrow> eq_log" where
  "expected_log cs =
     (if Close \<in> set cs then map (\<lambda>i. (callers cs ! i, answer cs i)) [0..<length (callers cs)]
      else zip (callers cs) (map Some (pushed cs)))"

definition eq_inv :: "eq_call list \<Rightarrow> eq_log \<times> event_queue \<Rightarrow> bool" where
  "eq_inv cs lq =
     (case lq of (l, q) \<Rightarrow>
        closed q = (Close \<in> set cs) \<and> queue q = drop (length (callers cs)) (pushed cs) \<and>
        waiters q = (if closed q then [] else drop (length (pushed cs)) (callers cs)) \<and>
        l = expected_log cs)"

lemma takeWhile_snoc: "takeWhile P (xs @ [x]) = takeWhile P xs @ (if (\<forall>y \<in> set xs. P y) \<and> P x then [x] else [])"
  by (induction xs) auto

lemma calls_snoc:
  "pushed (cs @ [c]) = pushed cs @ (if Close \<in> set cs then [] else pushed_by c)"
  "callers (cs @ [c]) = callers cs @ called_by c"
  "early (cs @ [c]) = early cs + (if Close \<in> set cs then 0 else length (called_by c))"
  by (cases c; auto simp: pushed_def callers_def early_def takeWhile_snoc)+

lemma early_open: "Close \<notin> set cs \<Longrightarrow> early cs = length (callers cs)"
proof -
  assume "Close \<notin> set cs"
  then have "takeWhile (\<lambda>c. c \<noteq> Close) cs = cs" by (auto simp: takeWhile_eq_all_conv)
  then show ?thesis unfolding early_def by metis
qed

lemma early_le: "early cs \<le> length (callers cs)"
  by (induction cs rule: rev_induct) (simp add: early_def callers_def, simp add: calls_snoc)

lemma zip_snoc_left:
  "zip (xs @ [x]) ys = zip xs ys @ (if length xs < length ys then [(x, ys ! length xs)] else [])"
proof (induction xs arbitrary: ys)
  case (Cons a xs)
  then show ?case by (cases ys) auto
next
  case Nil
  then show ?case by (cases ys) auto
qed

lemma zip_snoc_right:
  "zip xs (ys @ [y]) = zip xs ys @ (if length ys < length xs then [(xs ! length ys, y)] else [])"
proof (induction xs arbitrary: ys)
  case (Cons x xs)
  then show ?case by (cases ys) auto
qed simp

lemma eq_inv_push:
  assumes "eq_inv cs (l, q)"
  shows "eq_inv (cs @ [Push ev]) (eq_step (Push ev) (l, q))"
proof (cases "closed q")
  case True
  then show ?thesis using assms
    by (auto simp: eq_inv_def push_def calls_snoc expected_log_def answer_def)
next
  case False
  with assms have q: "Close \<notin> set cs" "queue q = drop (length (callers cs)) (pushed cs)"
    "waiters q = drop (length (pushed cs)) (callers cs)" "l = zip (callers cs) (map Some (pushed cs))"
    by (auto simp: eq_inv_def expected_log_def)
  show ?thesis
  proof (cases "length (pushed cs) < length (callers cs)")
    case True
    then have "waiters q = callers cs ! length (pushed cs) # drop (Suc (length (pushed cs))) (callers cs)"
      by (simp add: q(3) Cons_nth_drop_Suc)
    with True False q(1,2,4) show ?thesis
      by (simp add: eq_inv_def push_def calls_snoc expected_log_def zip_snoc_right)
  next
    case no_waiter: False
    then have "waiters q = []" by (simp add: q(3))
    with False no_waiter q(1,2,4) show ?thesis
      by (simp add: eq_inv_def push_def calls_snoc expected_log_def zip_snoc_right)
  qed
qed

lemma expected_log_next:
  assumes "Close \<in> set cs"
  shows "expected_log (cs @ [Next w]) = expected_log cs @ [(w,
    if length (callers cs) < length (pushed cs) then Some (pushed cs ! length (callers cs)) else None)]"
proof -
  let ?k = "length (callers cs)"
  have "map (\<lambda>i. ((callers cs @ [w]) ! i, answer (cs @ [Next w]) i)) [0..<?k]
      = map (\<lambda>i. (callers cs ! i, answer cs i)) [0..<?k]"
    using assms by (intro map_cong) (auto simp: nth_append answer_def calls_snoc)
  moreover have "answer (cs @ [Next w]) ?k
      = (if ?k < length (pushed cs) then Some (pushed cs ! ?k) else None)"
    using assms early_le [of cs] by (auto simp: answer_def calls_snoc)
  ultimately show ?thesis using assms by (simp add: expected_log_def calls_snoc)
qed

lemma eq_inv_next:
  assumes "eq_inv cs (l, q)"
  shows "eq_inv (cs @ [Next w]) (eq_step (Next w) (l, q))"
proof (cases "length (callers cs) < length (pushed cs)")
  case True
  with assms have "queue q = pushed cs ! length (callers cs) # drop (Suc (length (callers cs))) (pushed cs)"
    by (simp add: eq_inv_def Cons_nth_drop_Suc)
  moreover have "closed q \<longleftrightarrow> Close \<in> set cs" "waiters q = []" "l = expected_log cs"
    using True assms by (auto simp: eq_inv_def)
  ultimately show ?thesis using True
    by (cases "Close \<in> set cs")
      (simp_all add: eq_inv_def next_event_def calls_snoc expected_log_next,
        simp add: expected_log_def calls_snoc zip_snoc_left)
next
  case False
  with assms have "queue q = []" by (simp add: eq_inv_def)
  moreover have "closed q \<longleftrightarrow> Close \<in> set cs" "l = expected_log cs"
    "waiters q = (if Close \<in> set cs then [] else drop (length (pushed cs)) (callers cs))"
    using assms by (auto simp: eq_inv_def)
  ultimately show ?thesis using False
    by (cases "Close \<in> set cs")
      (simp_all add: eq_inv_def next_event_def calls_snoc expected_log_next,
        simp add: expected_log_def calls_snoc zip_snoc_left)
qed

lemma eq_inv_close:
  assumes "eq_inv cs (l, q)"
  shows "eq_inv (cs @ [Close]) (eq_step Close (l, q))"
proof (cases "closed q")
  case True
  then show ?thesis using assms
    by (auto simp: eq_inv_def close_queue_def calls_snoc expected_log_def answer_def)
next
  case False
  with assms have q: "Close \<notin> set cs" "queue q = drop (length (callers cs)) (pushed cs)"
    "waiters q = drop (length (pushed cs)) (callers cs)" "l = zip (callers cs) (map Some (pushed cs))"
    by (auto simp: eq_inv_def expected_log_def)
  have "zip (callers cs) (map Some (pushed cs)) @
      map (\<lambda>w. (w, Some (DisconnectEvent (js ''queue closed'')))) (drop (length (pushed cs)) (callers cs))
    = map (\<lambda>i. (callers cs ! i, answer (cs @ [Close]) i)) [0..<length (callers cs)]"
    by (rule nth_equalityI)
      (auto simp: nth_append answer_def calls_snoc early_open [OF q(1)] min_def)
  with q show ?thesis
    by (simp add: eq_inv_def close_queue_def calls_snoc expected_log_def comp_def)
qed

lemma eq_inv_run: "eq_inv cs (eq_run cs)"
proof (induction cs rule: rev_induct)
  case Nil
  then show ?case
    by (simp add: eq_inv_def eq_run_def new_event_queue_def pushed_def callers_def expected_log_def)
next
  case (snoc c cs)
  obtain l q where lq: "eq_run cs = (l, q)" by (cases "eq_run cs")
  with snoc show ?case
    using eq_inv_push [of cs l q] eq_inv_next [of cs l q] eq_inv_close [of cs l q]
    by (cases c) (simp_all only: eq_run_snoc lq)
qed

text \<open>
  C20. Order of delivery: the callers of \<^verbatim>\<open>next\<close> are served in the order of their calls,
  the \<open>i\<close>-th one with the \<open>i\<close>-th event pushed before \<^verbatim>\<open>close\<close>; callers still waiting at
  \<^verbatim>\<open>close\<close> get the disconnect event, callers that find the closed queue drained get
  \<^verbatim>\<open>null\<close>, and nothing is lost, duplicated or reordered.
\<close>

theorem event_queue_order: "fst (eq_run cs) = expected_log cs"
  using eq_inv_run [of cs] by (cases "eq_run cs") (simp add: eq_inv_def)

text \<open>
  Buffered events and waiting callers never exist at the same time: the buffer holds
  exactly the events without a caller yet, the waiters are the callers without an event yet,
  and a closed queue has no waiter.
\<close>

theorem event_queue_inv:
  "(queue (snd (eq_run cs)) = [] \<or> waiters (snd (eq_run cs)) = []) \<and>
   closed (snd (eq_run cs)) = (Close \<in> set cs) \<and>
   queue (snd (eq_run cs)) = drop (length (callers cs)) (pushed cs) \<and>
   waiters (snd (eq_run cs)) = (if Close \<in> set cs then [] else drop (length (pushed cs)) (callers cs))"
  using eq_inv_run [of cs] by (cases "eq_run cs") (auto simp: eq_inv_def)

text \<open>
  The asynchronous iterator tests \<^verbatim>\<open>closed\<close> before it looks at the buffer: once the
  queue is closed it ends at once, and the events still buffered, which \<^verbatim>\<open>next\<close> would
  return, are never yielded.
\<close>

theorem iterator_drops_buffer:
  "iterate w (snd (close_queue q)) = (None, snd (close_queue q)) \<and>
   queue (snd (close_queue q)) = queue q \<and>
   (queue q = ev # evs \<longrightarrow> fst (next_event w (snd (close_queue q))) = Item ev)"
  by (simp add: iterate_def close_queue_def next_event_def)

theorem iterator_drops_buffer_witness:
  "\<exists>q. queue q = [DisconnectEvent (js ''bye'')] \<and>
     fst (iterate 0 (snd (close_queue q))) = None \<and>
     fst (next_event 0 (snd (close_queue q))) = Item (DisconnectEvent (js ''bye''))"
proof -
  let ?q = "snd (push (DisconnectEvent (js ''bye'')) new_event_queue)"
  have q: "queue ?q = [DisconnectEvent (js ''bye'')]" by (simp add: push_def new_event_queue_def)
  with iterator_drops_buffer [of 0 ?q] show ?thesis by (intro exI [of _ ?q]) simp
qed

end
