(* ===== verification/Client.thy ===== *)
theory Client
  imports Login_Codes Session Encoder Event_Queue Reconnect
begin

text \<open>
  The client object (\<^verbatim>\<open>config.ts\<close>, \<^verbatim>\<open>builder.ts\<close> and \<^verbatim>\<open>client.ts\<close> of \<^verbatim>\<open>packages/wazeko/src\<close>). The
  record holds the fields that its methods read or change, how many calls wait for the store, the
  state \<open>'p\<close> of its listeners (for the one the constructor installs that is the command registry), and
  logs. The listeners of an event run inside its emission, before the event is pushed to the event
  queue, and may call the client: they are a function on the whole client
  (no listener throws).
  What \<^verbatim>\<open>authStore.load()\<close> gives, random numbers and console output are arguments or left out. The pieces the constructor only
  wires together (queue, registry, logger, monitor) have theories of their own.
\<close>

section \<open>Configuration\<close>

datatype auth_method = QrMethod | PairingCodeMethod

record client_config =
  ws_url :: jstr
  auth_store_path :: "jstr option"
  auth_method_of :: auth_method
  pairing_phone_number :: "jstr option"
  connect_timeout_ms :: nat
  auto_reconnect :: bool
  print_qr :: bool
  device_of :: device_identity

definition DEFAULT_WA_WEB_WS_URL :: jstr where
  "DEFAULT_WA_WEB_WS_URL = js ''wss://web.whatsapp.com/ws/chat''"

definition default_client_config :: "real \<Rightarrow> client_config" where
  "default_client_config rnd =
     \<lparr>ws_url = DEFAULT_WA_WEB_WS_URL, auth_store_path = None, auth_method_of = QrMethod,
      pairing_phone_number = None, connect_timeout_ms = 30000, auto_reconnect = True, print_qr = True,
      device_of = default_device_identity rnd\<rparr>"

text \<open>The builder, with a custom store as an abstract value.\<close>

record 'st wazeko_builder =
  builder_config :: client_config
  custom_store :: "'st option"

definition new_wazeko_builder :: "real \<Rightarrow> 'st wazeko_builder" where
  "new_wazeko_builder rnd = \<lparr>builder_config = default_client_config rnd, custom_store = None\<rparr>"

definition with_auth_store :: "jstr \<Rightarrow> 'st wazeko_builder \<Rightarrow> 'st wazeko_builder" where
  "with_auth_store p b = b\<lparr>builder_config := (builder_config b)\<lparr>auth_store_path := Some p\<rparr>\<rparr>"

definition with_custom_auth_store :: "'st \<Rightarrow> 'st wazeko_builder \<Rightarrow> 'st wazeko_builder" where
  "with_custom_auth_store st b = b\<lparr>custom_store := Some st\<rparr>"

definition with_auth_method :: "auth_method \<Rightarrow> 'st wazeko_builder \<Rightarrow> 'st wazeko_builder" where
  "with_auth_method m b = b\<lparr>builder_config := (builder_config b)\<lparr>auth_method_of := m\<rparr>\<rparr>"

definition with_pairing_phone_number :: "jstr \<Rightarrow> 'st wazeko_builder \<Rightarrow> 'st wazeko_builder" where
  "with_pairing_phone_number phone b =
     b\<lparr>builder_config := (builder_config b)\<lparr>pairing_phone_number := Some phone, auth_method_of := PairingCodeMethod\<rparr>\<rparr>"

definition with_ws_url :: "jstr \<Rightarrow> 'st wazeko_builder \<Rightarrow> 'st wazeko_builder" where
  "with_ws_url url b = b\<lparr>builder_config := (builder_config b)\<lparr>ws_url := url\<rparr>\<rparr>"

definition with_auto_reconnect :: "bool \<Rightarrow> 'st wazeko_builder \<Rightarrow> 'st wazeko_builder" where
  "with_auto_reconnect enable b = b\<lparr>builder_config := (builder_config b)\<lparr>auto_reconnect := enable\<rparr>\<rparr>"

definition with_print_qr :: "bool \<Rightarrow> 'st wazeko_builder \<Rightarrow> 'st wazeko_builder" where
  "with_print_qr enable b = b\<lparr>builder_config := (builder_config b)\<lparr>print_qr := enable\<rparr>\<rparr>"

definition with_connect_timeout :: "nat \<Rightarrow> 'st wazeko_builder \<Rightarrow> 'st wazeko_builder" where
  "with_connect_timeout ms b = b\<lparr>builder_config := (builder_config b)\<lparr>connect_timeout_ms := ms\<rparr>\<rparr>"

definition with_device :: "device_identity \<Rightarrow> 'st wazeko_builder \<Rightarrow> 'st wazeko_builder" where
  "with_device d b = b\<lparr>builder_config := (builder_config b)\<lparr>device_of := d\<rparr>\<rparr>"

section \<open>The client\<close>

text \<open>Which store the constructor picks; the path of the empty text is no path.\<close>

datatype 'st chosen_store = CustomStore 'st | AtomicFileStoreAt jstr | MemoryStore

definition choose_store :: "client_config \<Rightarrow> 'st option \<Rightarrow> 'st chosen_store" where
  "choose_store c customStore =
     (case customStore of
        Some st \<Rightarrow> CustomStore st
      | None \<Rightarrow>
          (case auth_store_path c of
             None \<Rightarrow> MemoryStore
           | Some p \<Rightarrow> if p = [] then MemoryStore else AtomicFileStoreAt p))"

text \<open>
  The logs: \<open>emissions\<close>, the calls of \<^verbatim>\<open>emit\<close> in the order they begin; \<open>heard\<close>, what the listener
  registered last hears; \<open>encoded_nodes\<close>, the bytes of the nodes \<^verbatim>\<open>dispatchNode\<close> encoded;
  \<open>next_calls\<close> and \<open>next_answers\<close>, who called \<^verbatim>\<open>next\<close> of the event queue, and who got what from it.
\<close>

record 'p client =
  client_cfg :: client_config
  client_creds :: credentials
  conn_state :: connection_state
  event_q :: event_queue
  qr_mgr :: qr_code_manager
  pairing_mgr :: pairing_code_manager
  reconnect_mgr :: reconnect
  emissions :: "event list"
  heard :: "event list"
  encoded_nodes :: "bytes list"
  next_calls :: "nat list"
  next_answers :: eq_log
  loading :: nat
  plugin_state :: 'p

definition new_client :: "client_config \<Rightarrow> bytes \<Rightarrow> real \<Rightarrow> 'p \<Rightarrow> 'p client" where
  "new_client c rnd16 rnd p =
     \<lparr>client_cfg = c, client_creds = init_credentials rnd16 rnd, conn_state = Disconnected,
      event_q = new_event_queue, qr_mgr = None, pairing_mgr = None,
      reconnect_mgr = new_reconnect DEFAULT_BACKOFF_CONFIG, emissions = [], heard = [],
      encoded_nodes = [], next_calls = [], next_answers = [], loading = 0, plugin_state = p\<rparr>"

definition builder_build :: "'st wazeko_builder \<Rightarrow> bytes \<Rightarrow> real \<Rightarrow> 'p \<Rightarrow> 'st chosen_store \<times> 'p client" where
  "builder_build b rnd16 rnd p =
     (choose_store (builder_config b) (custom_store b), new_client (builder_config b) rnd16 rnd p)"

definition get_me :: "'p client \<Rightarrow> jid option" where
  "get_me c = me (client_creds c)"

definition get_connection_state :: "'p client \<Rightarrow> connection_state" where
  "get_connection_state c = conn_state c"

text \<open>
  What the listeners of an event do with the client, one after the other; \<open>quietly\<close>: the listener of
  the constructor alone, with a registry whose commands do not call the client at once.
\<close>

type_synonym 'p listeners = "event \<Rightarrow> 'p client \<Rightarrow> 'p client"

definition quietly :: "(message \<Rightarrow> 'p \<Rightarrow> 'p) \<Rightarrow> 'p listeners" where
  "quietly on_message ev c =
     (case ev of MessageReceived m \<Rightarrow> c\<lparr>plugin_state := on_message m (plugin_state c)\<rparr> | _ \<Rightarrow> c)"

definition push_event :: "event \<Rightarrow> 'p client \<Rightarrow> 'p client" where
  "push_event ev c =
     (let (resolved, q) = push ev (event_q c)
      in c\<lparr>event_q := q, next_answers := next_answers c @ map (apsnd Some) resolved\<rparr>)"

definition close_events :: "'p client \<Rightarrow> 'p client" where
  "close_events c =
     (let (resolved, q) = close_queue (event_q c)
      in c\<lparr>event_q := q, next_answers := next_answers c @ map (apsnd Some) resolved\<rparr>)"

text \<open>The emission begins; the listeners run, and the last of them hears the event; it is pushed.\<close>

definition begin_emit :: "event \<Rightarrow> 'p client \<Rightarrow> 'p client" where
  "begin_emit ev c = c\<lparr>emissions := emissions c @ [ev]\<rparr>"

definition end_emit :: "event \<Rightarrow> 'p client \<Rightarrow> 'p client" where
  "end_emit ev c = push_event ev (c\<lparr>heard := heard c @ [ev]\<rparr>)"

definition emit_event :: "'p listeners \<Rightarrow> event \<Rightarrow> 'p client \<Rightarrow> 'p client" where
  "emit_event listeners ev c = end_emit ev (listeners ev (begin_emit ev c))"

text \<open>A call of \<^verbatim>\<open>client.events().next()\<close>.\<close>

definition client_next :: "nat \<Rightarrow> 'p client \<Rightarrow> next_result \<times> 'p client" where
  "client_next who c =
     (let (res, q) = next_event who (event_q c)
      in (res, c\<lparr>event_q := q, next_calls := next_calls c @ [who],
            next_answers := next_answers c @
              (case res of Item ev \<Rightarrow> [(who, Some ev)] | Null \<Rightarrow> [(who, None)] | Waits \<Rightarrow> [])\<rparr>))"

definition set_state :: "'p listeners \<Rightarrow> connection_state \<Rightarrow> 'p client \<Rightarrow> 'p client" where
  "set_state listeners st c = emit_event listeners (ConnectionUpdate st) (c\<lparr>conn_state := st\<rparr>)"

text \<open>The random choices of a login: 16, 32 and 16 bytes of the challenge, and the code's draws.\<close>

definition qr_challenge :: "bytes \<times> bytes \<times> bytes \<Rightarrow> jstr" where
  "qr_challenge rs =
     js ''2@'' @ to_base64 (fst rs) @ js '','' @ to_base64 (fst (snd rs)) @ js '','' @ to_base64 (snd (snd rs))"

definition run_connection_lifecycle ::
    "'p listeners \<Rightarrow> bytes \<times> bytes \<times> bytes \<Rightarrow> (nat \<Rightarrow> real) \<Rightarrow> 'p client \<Rightarrow> 'p client" where
  "run_connection_lifecycle listeners rs draws c =
     (if registered (client_creds c) then
        let c = set_state listeners Connected c
        in (case me (client_creds c) of
              None \<Rightarrow> c
            | Some j \<Rightarrow> emit_event listeners (Authenticated j) c)
      else
        let c = set_state listeners Authenticating c
        in (case auth_method_of (client_cfg c) of
              QrMethod \<Rightarrow>
                let (ev, q) = update_qr (qr_challenge rs) (attempt (reconnect_mgr c) + 1) 60 (qr_mgr c)
                in emit_event listeners (Qr ev) (c\<lparr>qr_mgr := q\<rparr>)
            | PairingCodeMethod \<Rightarrow>
                let (ev, m) = generate_code draws 120 (pairing_mgr c)
                in emit_event listeners (PairingCode ev) (c\<lparr>pairing_mgr := m\<rparr>)))"

text \<open>
  \<^verbatim>\<open>connect\<close> suspends while the store loads, with \<open>loading\<close> the calls that do: its two parts, and the
  whole when nothing comes between them.
\<close>

definition connect_start :: "'p listeners \<Rightarrow> 'p client \<Rightarrow> 'p client" where
  "connect_start listeners c = (set_state listeners Connecting c)\<lparr>loading := Suc (loading c)\<rparr>"

definition connect_loaded ::
    "'p listeners \<Rightarrow> js_error + credentials option \<Rightarrow> bytes \<times> bytes \<times> bytes \<Rightarrow> (nat \<Rightarrow> real) \<Rightarrow>
     'p client \<Rightarrow> js_error option \<times> 'p client" where
  "connect_loaded listeners loaded rs draws c =
     (let c = c\<lparr>loading := loading c - 1\<rparr>
      in case loaded of
           Inl e \<Rightarrow> (Some e, c)
         | Inr saved \<Rightarrow>
             let c = (case saved of None \<Rightarrow> c | Some cr \<Rightarrow> c\<lparr>client_creds := cr\<rparr>)
             in (None, run_connection_lifecycle listeners rs draws c))"

definition connect ::
    "'p listeners \<Rightarrow> js_error + credentials option \<Rightarrow> bytes \<times> bytes \<times> bytes \<Rightarrow> (nat \<Rightarrow> real) \<Rightarrow>
     'p client \<Rightarrow> js_error option \<times> 'p client" where
  "connect listeners loaded rs draws c = connect_loaded listeners loaded rs draws (connect_start listeners c)"

lemmas connect_defs = connect_def connect_start_def connect_loaded_def

definition disconnect :: "'p listeners \<Rightarrow> jstr \<Rightarrow> 'p client \<Rightarrow> 'p client" where
  "disconnect listeners reason c =
     (let c = set_state listeners Disconnected c;
          c = emit_event listeners (DisconnectEvent reason) c
      in close_events c)"

definition log_node :: "bytes \<Rightarrow> 'p client \<Rightarrow> 'p client" where
  "log_node bs c = c\<lparr>encoded_nodes := encoded_nodes c @ [bs]\<rparr>"

definition dispatch_node ::
    "'p listeners \<Rightarrow> node \<Rightarrow> message option \<Rightarrow> 'p client \<Rightarrow> (enc_error + unit) \<times> 'p client" where
  "dispatch_node listeners n m c =
     (case encode n of
        Inl e \<Rightarrow> (Inl e, c)
      | Inr encoded \<Rightarrow>
          let c = log_node encoded c
          in (Inr (), case m of None \<Rightarrow> c | Some msg \<Rightarrow> emit_event listeners (MessageReceived msg) c))"

end
