(* ===== verification/Messaging.thy ===== *)
theory Messaging
  imports Client Js_Fs
begin

text \<open>
  Sending messages and group requests (\<^verbatim>\<open>messaging.ts\<close> and \<^verbatim>\<open>groups.ts\<close> of
  \<^verbatim>\<open>packages/wazeko/src\<close>). Every call builds a protocol node and passes it to
  \<^const>\<open>dispatch_node\<close>; the clock reading \<open>now\<close> (in milliseconds) and the random bytes are
  arguments. A JID argument is a JID or a text. Errors are those of parsing a JID and of
  encoding the node.
\<close>

lemma array_index_word: "\<not> is_digit (cu c) \<Longrightarrow> array_index (js (c # s)) = None"
  by (simp add: array_index_def js_def Let_def)

lemma obj_set_new:
  "k \<noteq> proto_key \<Longrightarrow> k \<notin> set (map fst ps) \<Longrightarrow> array_index k = None \<Longrightarrow> obj_set k v ps = ps @ [(k, v)]"
  by (simp add: obj_set_def)

section \<open>Messages\<close>

definition upper_hex :: "jstr \<Rightarrow> jstr" where
  "upper_hex = map (\<lambda>c. if 97 \<le> c then c - 32 else c)"

definition message_node :: "jstr \<Rightarrow> jid \<Rightarrow> node" where
  "message_node msgId toJid =
     build (attr (js ''type'') (js ''text'')
       (attr (js ''to'') (jid_to_string toJid) (attr (js ''id'') msgId (create (js ''message'')))))"

lemma message_node_eq:
  "message_node i j = Node (js ''message'')
     [(js ''id'', i), (js ''to'', jid_to_string j), (js ''type'', js ''text'')] CUndefined"
  by (simp add: message_node_def builder_defs obj_set_new proto_key_def array_index_word is_digit_def cu_def)

definition resolve_recipient :: "jid + jstr \<Rightarrow> jid" where
  "resolve_recipient recipient = (case recipient of Inl j \<Rightarrow> j | Inr t \<Rightarrow> jid_user t)"

definition new_message :: "bytes \<Rightarrow> int \<Rightarrow> jid \<Rightarrow> jid \<Rightarrow> message_content \<Rightarrow> message" where
  "new_message rnd8 now toJid meJid c =
     \<lparr>msg_id = js ''3EB0'' @ upper_hex (to_hex rnd8),
      source = \<lparr>chat = toJid, sender = meJid, is_from_me = True, is_group = (is_jid_group (Inl toJid) = Inr True)\<rparr>,
      msg_content = c, timestamp = now div 1000, msg_status = Pending\<rparr>"

definition send_message ::
    "'p listeners \<Rightarrow> bytes \<Rightarrow> int \<Rightarrow> jid + jstr \<Rightarrow> message_content \<Rightarrow> 'p client \<Rightarrow>
     (enc_error + message) \<times> 'p client" where
  "send_message listeners rnd8 now recipient c cl =
     (let toJid = resolve_recipient recipient;
          meJid = (case get_me cl of None \<Rightarrow> jid_user (js ''0'') | Some j \<Rightarrow> j);
          m = new_message rnd8 now toJid meJid c;
          (res, cl) = dispatch_node listeners (message_node (msg_id m) toJid) (Some m) cl
      in (map_sum id (\<lambda>_. m) res, cl))"

definition image_content :: "media_source \<Rightarrow> jstr option \<Rightarrow> jstr option \<Rightarrow> message_content" where
  "image_content img caption mimetype =
     Image img (Some (case mimetype of None \<Rightarrow> js ''image/jpeg'' | Some t \<Rightarrow> t)) caption"

definition send_image ::
    "'p listeners \<Rightarrow> bytes \<Rightarrow> int \<Rightarrow> jid + jstr \<Rightarrow> media_source \<Rightarrow> jstr option \<Rightarrow> jstr option \<Rightarrow>
     'p client \<Rightarrow> (enc_error + message) \<times> 'p client" where
  "send_image listeners rnd8 now recipient img caption mimetype =
     send_message listeners rnd8 now recipient (image_content img caption mimetype)"

fun quoted_text :: "message_content \<Rightarrow> jstr" where
  "quoted_text (Text t) = t"
| "quoted_text (Reply q qt t) = t"
| "quoted_text _ = js ''[Media]''"

definition reply_to ::
    "'p listeners \<Rightarrow> bytes \<Rightarrow> int \<Rightarrow> message \<Rightarrow> jstr \<Rightarrow> 'p client \<Rightarrow> (enc_error + message) \<times> 'p client" where
  "reply_to listeners rnd8 now original t =
     send_message listeners rnd8 now (Inl (chat (source original)))
       (Reply (msg_id original) (quoted_text (msg_content original)) t)"

section \<open>Groups\<close>

datatype group_error = JidError jid_error | EncodeError enc_error

definition resolve_jid :: "jid + jstr \<Rightarrow> group_error + jid" where
  "resolve_jid j =
     (case j of
        Inl j \<Rightarrow> Inr j
      | Inr t \<Rightarrow> if cu CHR ''@'' \<in> set t then map_sum JidError id (parse_jid t) else Inr (jid_group t))"

definition resolve_user_jid :: "jid + jstr \<Rightarrow> group_error + jid" where
  "resolve_user_jid j =
     (case j of
        Inl j \<Rightarrow> Inr j
      | Inr t \<Rightarrow> if cu CHR ''@'' \<in> set t then map_sum JidError id (parse_jid t) else Inr (jid_user t))"

definition bare_jid :: "jid \<Rightarrow> jstr" where
  "bare_jid j = user j @ js ''@'' @ server j"

definition group_iq :: "jstr \<Rightarrow> jstr \<Rightarrow> node list \<Rightarrow> node" where
  "group_iq kind recipient ns =
     build (content_nodes ns (attr (js ''to'') recipient (attr (js ''xmlns'') (js ''w:g2'')
       (attr (js ''type'') kind (create (js ''iq''))))))"

definition participant_node :: "jid \<Rightarrow> node" where
  "participant_node j = build (attr (js ''jid'') (bare_jid j) (create (js ''participant'')))"

text \<open>\<^verbatim>\<open>await this.client.dispatchNode(node)\<close> without a message, then a value.\<close>

definition request ::
    "'p listeners \<Rightarrow> node \<Rightarrow> 'a \<Rightarrow> 'p client \<Rightarrow> (group_error + 'a) \<times> 'p client" where
  "request listeners n v cl =
     (let (res, cl) = dispatch_node listeners n None cl in (map_sum EncodeError (\<lambda>_. v) res, cl))"

text \<open>Two stages of a call: a resolution that may throw, then the request.\<close>

definition resolving :: "group_error + 'b \<Rightarrow> ('b \<Rightarrow> 'p client \<Rightarrow> (group_error + 'a) \<times> 'p client) \<Rightarrow>
    'p client \<Rightarrow> (group_error + 'a) \<times> 'p client" where
  "resolving r f cl = (case r of Inl e \<Rightarrow> (Inl e, cl) | Inr x \<Rightarrow> f x cl)"

definition group_create ::
    "'p listeners \<Rightarrow> nat \<Rightarrow> int \<Rightarrow> jstr \<Rightarrow> (jid + jstr) list \<Rightarrow> 'p client \<Rightarrow>
     (group_error + group_metadata) \<times> 'p client" where
  "group_create listeners now1 now2 subj ps cl =
     resolving (forE resolve_user_jid ps) (\<lambda>js_ids cl.
       request listeners
         (group_iq (js ''set'') (js ''g.us'')
           [build (content_nodes (map participant_node js_ids) (attr (js ''subject'') subj (create (js ''create''))))])
         \<lparr>gm_id = jid_group (nat_to_js now1), subject = subj, description = None, gm_owner = get_me cl,
          creation_time = now2 div 1000,
          participants = (case get_me cl of None \<Rightarrow> [] | Some m \<Rightarrow> [\<lparr>gp_id = m, role = SuperAdmin\<rparr>]) @
            map (\<lambda>j. \<lparr>gp_id = j, role = Member\<rparr>) js_ids,
          restrict_info = False, announce = False\<rparr> cl) cl"

definition stub_metadata :: "jid \<Rightarrow> string \<Rightarrow> int \<Rightarrow> group_metadata" where
  "stub_metadata j subj now =
     \<lparr>gm_id = j, subject = js subj, description = None, gm_owner = None, creation_time = now div 1000,
      participants = [], restrict_info = False, announce = False\<rparr>"

definition group_info ::
    "'p listeners \<Rightarrow> int \<Rightarrow> jid + jstr \<Rightarrow> 'p client \<Rightarrow> (group_error + group_metadata) \<times> 'p client" where
  "group_info listeners now j =
     resolving (resolve_jid j) (\<lambda>g. request listeners
       (group_iq (js ''get'') (bare_jid g) [build (attr (js ''request'') (js ''interactive'') (create (js ''query'')))])
       (stub_metadata g ''Group'' now))"

definition update_subject ::
    "'p listeners \<Rightarrow> jid + jstr \<Rightarrow> jstr \<Rightarrow> 'p client \<Rightarrow> (group_error + unit) \<times> 'p client" where
  "update_subject listeners j subj =
     resolving (resolve_jid j) (\<lambda>g. request listeners
       (group_iq (js ''set'') (bare_jid g) [build (content_bytes (text_encode subj) (create (js ''subject'')))]) ())"

definition update_description ::
    "'p listeners \<Rightarrow> nat \<Rightarrow> jid + jstr \<Rightarrow> jstr \<Rightarrow> 'p client \<Rightarrow> (group_error + unit) \<times> 'p client" where
  "update_description listeners now j descr =
     resolving (resolve_jid j) (\<lambda>g. request listeners
       (group_iq (js ''set'') (bare_jid g)
         [build (content_bytes (text_encode descr) (attr (js ''id'') (nat_to_js now) (create (js ''description''))))]) ())"

text \<open>Adding, removing, promoting and demoting differ in the name of the inner node only.\<close>

definition change_participants ::
    "string \<Rightarrow> 'p listeners \<Rightarrow> jid + jstr \<Rightarrow> (jid + jstr) list \<Rightarrow> 'p client \<Rightarrow>
     (group_error + unit) \<times> 'p client" where
  "change_participants action listeners j ps =
     resolving (resolve_jid j) (\<lambda>g. resolving (forE resolve_user_jid ps) (\<lambda>us. request listeners
       (group_iq (js ''set'') (bare_jid g)
         [build (content_nodes (map participant_node us) (create (js action)))]) ()))"

definition add_participants ::
    "'p listeners \<Rightarrow> jid + jstr \<Rightarrow> (jid + jstr) list \<Rightarrow> 'p client \<Rightarrow> (group_error + unit) \<times> 'p client" where
  "add_participants = change_participants ''add''"

definition remove_participants ::
    "'p listeners \<Rightarrow> jid + jstr \<Rightarrow> (jid + jstr) list \<Rightarrow> 'p client \<Rightarrow> (group_error + unit) \<times> 'p client" where
  "remove_participants = change_participants ''remove''"

definition promote_participants ::
    "'p listeners \<Rightarrow> jid + jstr \<Rightarrow> (jid + jstr) list \<Rightarrow> 'p client \<Rightarrow> (group_error + unit) \<times> 'p client" where
  "promote_participants = change_participants ''promote''"

definition demote_participants ::
    "'p listeners \<Rightarrow> jid + jstr \<Rightarrow> (jid + jstr) list \<Rightarrow> 'p client \<Rightarrow> (group_error + unit) \<times> 'p client" where
  "demote_participants = change_participants ''demote''"

definition get_invite_code ::
    "'p listeners \<Rightarrow> jid + jstr \<Rightarrow> 'p client \<Rightarrow> (group_error + jstr) \<times> 'p client" where
  "get_invite_code listeners j =
     resolving (resolve_jid j) (\<lambda>g. request listeners
       (group_iq (js ''get'') (bare_jid g) [build (create (js ''invite''))]) (js ''INVITE_CODE_123456''))"

definition join_with_code ::
    "'p listeners \<Rightarrow> int \<Rightarrow> jstr \<Rightarrow> 'p client \<Rightarrow> (group_error + group_metadata) \<times> 'p client" where
  "join_with_code listeners now invite =
     request listeners
       (group_iq (js ''set'') (js ''g.us'') [build (attr (js ''code'') invite (create (js ''accept'')))])
       (stub_metadata (jid_group (js ''120363000000'')) ''Joined Group'' now)"

definition leave_group ::
    "'p listeners \<Rightarrow> jid + jstr \<Rightarrow> 'p client \<Rightarrow> (group_error + unit) \<times> 'p client" where
  "leave_group listeners j =
     resolving (resolve_jid j) (\<lambda>g. request listeners
       (group_iq (js ''set'') (bare_jid g)
         [build (content_nodes [build (attr (js ''id'') (bare_jid g) (create (js ''group'')))] (create (js ''leave'')))]) ())"

end
