(* ===== verification/Pipeline.thy ===== *)
theory Pipeline
  imports Errors
begin

text \<open>
  The middleware pipeline (\<^verbatim>\<open>packages/wazeko/src/plugins/middleware.ts\<close>). A middleware is
  code of the library's user, so it is any tree of what such code can do: change or read
  the world it works on, throw, return, or await \<^verbatim>\<open>next()\<close> and go on with its outcome.
  The runner is the code's, with its index against calling \<^verbatim>\<open>next\<close> twice. The world is a
  type parameter; \<^verbatim>\<open>next()\<close> is awaited where it is called, and a pipeline runs alone.
\<close>

datatype 'w middleware =
    MwReturn
  | MwThrow js_error
  | MwDo "'w \<Rightarrow> 'w" "'w middleware"
  | MwRead "'w \<Rightarrow> 'w middleware"
  | MwNext "js_error option \<Rightarrow> 'w middleware"

text \<open>The outcome of a call is \<^const>\<open>None\<close>, or the error it rejected with.\<close>

type_synonym 's step = "'s \<Rightarrow> js_error option \<times> 's"

text \<open>A middleware's body run with a given \<^verbatim>\<open>next\<close>, on the runner's index and the world.\<close>

primrec run_body :: "'w middleware \<Rightarrow> (int \<times> 'w) step \<Rightarrow> (int \<times> 'w) step" where
  "run_body MwReturn nxt s = (None, s)"
| "run_body (MwThrow e) nxt s = (Some e, s)"
| "run_body (MwDo f m) nxt s = run_body m nxt (fst s, f (snd s))"
| "run_body (MwRead f) nxt s = run_body (f (snd s)) nxt s"
| "run_body (MwNext k) nxt s = run_body (k (fst (nxt s))) nxt (snd (nxt s))"

definition next_twice :: js_error where
  "next_twice = PlatformError (js ''next() called multiple times in middleware'')"

text \<open>\<open>run_from ms i\<close> is \<^verbatim>\<open>runner(i)\<close> with \<open>ms\<close> the middlewares from position \<open>i\<close> on.\<close>

fun run_from :: "'w middleware list \<Rightarrow> nat \<Rightarrow> 'w step \<Rightarrow> (int \<times> 'w) step" where
  "run_from [] i target s =
     (if int i \<le> fst s then (Some next_twice, s)
      else (fst (target (snd s)), (int i, snd (target (snd s)))))"
| "run_from (m # ms) i target s =
     (if int i \<le> fst s then (Some next_twice, s)
      else run_body m (run_from ms (Suc i) target) (int i, snd s))"

definition execute_pipeline :: "'w middleware list \<Rightarrow> 'w step \<Rightarrow> 'w step" where
  "execute_pipeline ms target w = (let (r, s) = run_from ms 0 target (- 1, w) in (r, snd s))"

definition use_middleware :: "'w middleware \<Rightarrow> 'w middleware list \<Rightarrow> 'w middleware list" where
  "use_middleware m ms = ms @ [m]"

text \<open>\<^verbatim>\<open>await next()\<close> without a handler, the way most middlewares end.\<close>

definition await_next :: "'w middleware" where
  "await_next = MwNext (\<lambda>r. case r of None \<Rightarrow> MwReturn | Some e \<Rightarrow> MwThrow e)"

lemma run_await_next [simp]: "run_body await_next nxt s = nxt s"
  by (cases "nxt s") (auto simp: await_next_def split: option.splits)

section \<open>The handler runs at most once\<close>

text \<open>
  \<open>leaves q m\<close>: nothing the middleware does itself changes the quantity \<open>q\<close> of the world.
\<close>

primrec leaves :: "('w \<Rightarrow> nat) \<Rightarrow> 'w middleware \<Rightarrow> bool" where
  "leaves q MwReturn = True"
| "leaves q (MwThrow e) = True"
| "leaves q (MwDo f m) = ((\<forall>w. q (f w) = q w) \<and> leaves q m)"
| "leaves q (MwRead f) = (\<forall>w. leaves q (f w))"
| "leaves q (MwNext k) = (\<forall>r. leaves q (k r))"

text \<open>
  With \<open>p\<close> the position of the handler: the count, less one once the handler's position has
  been entered, does not change, and the index never goes back nor beyond \<open>p\<close>.
\<close>

definition balance :: "('w \<Rightarrow> nat) \<Rightarrow> int \<Rightarrow> int \<times> 'w \<Rightarrow> int" where
  "balance q p s = int (q (snd s)) - (if p \<le> fst s then 1 else 0)"

definition balanced :: "('w \<Rightarrow> nat) \<Rightarrow> int \<Rightarrow> (int \<times> 'w) step \<Rightarrow> bool" where
  "balanced q p f = (\<forall>s. balance q p (snd (f s)) = balance q p s)"

lemma run_body_balanced:
  assumes "leaves q m" and "balanced q p nxt"
  shows "balance q p (snd (run_body m nxt s)) = balance q p s"
  using assms(1)
proof (induction m arbitrary: s)
  case (MwNext k)
  have "balance q p (snd (nxt s)) = balance q p s" using assms(2) unfolding balanced_def by blast
  with MwNext show ?case by simp
qed (auto simp: balance_def)

lemma run_from_balanced:
  assumes "list_all (leaves q) ms" and "\<And>w. q (snd (target w)) = Suc (q w)"
  shows "balanced q (int (i + length ms)) (run_from ms i target)"
  using assms(1)
proof (induction ms arbitrary: i)
  case Nil
  show ?case by (simp add: balanced_def balance_def assms(2))
next
  case (Cons m ms)
  let ?p = "int (i + length (m # ms))"
  have "balanced q ?p (run_from ms (Suc i) target)"
    using Cons.IH [of "Suc i"] Cons.prems by simp
  with Cons.prems have body: "balance q ?p (snd (run_body m (run_from ms (Suc i) target) s)) = balance q ?p s" for s
    by (intro run_body_balanced) simp_all
  show ?case
    unfolding balanced_def
  proof
    fix s
    show "balance q ?p (snd (run_from (m # ms) i target s)) = balance q ?p s"
      using body [of "(int i, snd s)"] by (auto simp: balance_def)
  qed
qed

text \<open>
  C28. Whatever the middlewares do (return early, throw, swallow an error, call \<^verbatim>\<open>next\<close> again
  and again), one execution of a pipeline runs the handler at most once: a quantity of the
  world that only the handler changes, by one, has grown by one or not at all.
\<close>

theorem handler_at_most_once:
  assumes "list_all (leaves q) ms" and "\<And>w. q (snd (target w)) = Suc (q w)"
  shows "q (snd (execute_pipeline ms target w)) \<in> {q w, Suc (q w)}"
proof -
  have "balanced q (int (length ms)) (run_from ms 0 target)"
    using run_from_balanced [OF assms, of 0] by simp
  then have "balance q (int (length ms)) (snd (run_from ms 0 target (- 1, w))) = int (q w)"
    by (simp add: balanced_def balance_def)
  then show ?thesis
    by (auto simp: execute_pipeline_def split_beta Let_def balance_def split: if_splits)
qed

theorem handler_at_most_once_witness:
  "snd (execute_pipeline [MwNext (\<lambda>_. MwNext (\<lambda>_. MwReturn)), await_next] (\<lambda>n. (None, Suc n)) 0) \<in> {0, 1 :: nat}"
  using handler_at_most_once [of id "[MwNext (\<lambda>_. MwNext (\<lambda>_. MwReturn)), await_next]" "\<lambda>n. (None, Suc n)" 0]
  by (simp add: await_next_def split: option.split)

end
