(* ===== verification/Command_Registry.thy ===== *)
theory Command_Registry
  imports Pipeline Message_Types Complex_Main
begin

text \<open>
  Bot commands (\<^verbatim>\<open>plugins/types.ts\<close>, the built-in middlewares of \<^verbatim>\<open>plugins/middleware.ts\<close>, and
  \<^verbatim>\<open>plugins/command-loader.ts\<close>, all under \<^verbatim>\<open>packages/wazeko/src\<close>). A command's \<^verbatim>\<open>execute\<close> is
  an abstract value \<open>'x\<close> that the handler's parameter \<open>exec\<close> runs. The world of the pipeline is
  the context object with the registry; the registry record also holds what the closures
  and the event emitter keep: the cooldown times, the events emitted, the texts passed to
  \<^verbatim>\<open>ctx.reply\<close> and the error it rejects with, if it does, and the clock as the sequence of
  what \<^verbatim>\<open>Date.now()\<close> returns. \<open>lower\<close> stands for \<^verbatim>\<open>toLowerCase\<close>, \<open>resolve\<close> for \<^verbatim>\<open>path.resolve\<close>,
  and \<open>fixed1\<close> for \<^verbatim>\<open>toFixed(1)\<close>.
\<close>

section \<open>Data\<close>

record 'x command_definition =
  cmd_name :: jstr
  cmd_aliases :: "jstr list option"
  cmd_description :: "jstr option"
  cmd_category :: "jstr option"
  owner_only :: "bool option"
  admin_only :: "bool option"
  cooldown_seconds :: "rat option"
  cmd_execute :: 'x
  file_path :: "jstr option"

record 'x command_context =
  ctx_message :: message
  sender_jid :: jid
  chat_jid :: jid
  ctx_is_group :: bool
  is_admin :: "bool option"
  is_owner :: "bool option"
  command_name :: jstr
  ctx_args :: "jstr list"
  ctx_command :: "'x command_definition option"

datatype 'x registry_event =
    CommandRegistered "'x command_definition"
  | CommandUnregistered jstr
  | CommandExecuted jstr jstr int "js_error option"
  | ModuleLoaded jstr nat

text \<open>A prefix is a text, or a regular expression as the match it finds in a text.\<close>

datatype command_prefix = PrefixText jstr | PrefixRegExp "jstr \<Rightarrow> jstr option"

record 'x command_registry =
  commands :: "(jstr, 'x command_definition) jsmap"
  aliases :: "(jstr, jstr) jsmap"
  file_map :: "(jstr, jstr list) jsmap"
  cmd_prefix :: command_prefix
  owner_jids :: "jstr list"
  user_cooldowns :: "(jstr, int) jsmap"
  emitted :: "'x registry_event list"
  replies :: "jstr list"
  reply_failure :: "js_error option"
  clock :: "nat \<Rightarrow> int"
  ticks :: nat

type_synonym 'x world = "'x command_context \<times> 'x command_registry"

definition new_command_registry ::
    "command_prefix option \<Rightarrow> jstr list option \<Rightarrow> js_error option \<Rightarrow> (nat \<Rightarrow> int) \<Rightarrow> 'x command_registry" where
  "new_command_registry p owners failure c =
     \<lparr>commands = [], aliases = [], file_map = [],
      cmd_prefix = (case p of None \<Rightarrow> PrefixText (js ''!'') | Some q \<Rightarrow> q),
      owner_jids = (case owners of None \<Rightarrow> [] | Some l \<Rightarrow> l),
      user_cooldowns = [], emitted = [], replies = [], reply_failure = failure, clock = c, ticks = 0\<rparr>"

definition emit :: "'x registry_event \<Rightarrow> 'x command_registry \<Rightarrow> 'x command_registry" where
  "emit e r = r\<lparr>emitted := emitted r @ [e]\<rparr>"

definition date_now :: "'x command_registry \<Rightarrow> int" where
  "date_now r = clock r (ticks r)"

definition tick :: "'x command_registry \<Rightarrow> 'x command_registry" where
  "tick r = r\<lparr>ticks := Suc (ticks r)\<rparr>"

section \<open>The built-in middlewares\<close>

definition log_reply :: "jstr \<Rightarrow> 'x command_registry \<Rightarrow> 'x command_registry" where
  "log_reply t r = r\<lparr>replies := replies r @ [t]\<rparr>"

text \<open>\<^verbatim>\<open>await ctx.reply(text); return;\<close>\<close>

definition reply_and_return :: "jstr \<Rightarrow> 'x world middleware" where
  "reply_and_return t =
     MwDo (map_prod id (log_reply t))
       (MwRead (\<lambda>w. case reply_failure (snd w) of None \<Rightarrow> MwReturn | Some e \<Rightarrow> MwThrow e))"

definition truthy :: "bool option \<Rightarrow> bool" where
  "truthy b = (b = Some True)"

definition admin_text :: jstr where
  "admin_text = 0x274C # js '' Perintah ini hanya dapat digunakan oleh Admin Grup.''"

definition owner_text :: jstr where
  "owner_text = 0x274C # js '' Perintah ini hanya dapat digunakan oleh Bot Owner.''"

definition cooldown_text :: "(rat \<Rightarrow> jstr) \<Rightarrow> rat \<Rightarrow> jstr" where
  "cooldown_text fixed1 remaining =
     0x23F3 # js '' Mohon tunggu '' @ fixed1 remaining @ js '' detik sebelum menggunakan perintah ini lagi.''"

definition create_admin_guard :: "'x world middleware" where
  "create_admin_guard = MwRead (\<lambda>w.
     let ctx = fst w; cmd = ctx_command ctx
     in if truthy (Option.bind cmd admin_only) \<and> \<not> truthy (is_admin ctx) \<and> \<not> truthy (is_owner ctx)
        then reply_and_return admin_text
        else if truthy (Option.bind cmd owner_only) \<and> \<not> truthy (is_owner ctx)
        then reply_and_return owner_text
        else await_next)"

definition cooldown_of :: "'x command_context \<Rightarrow> rat" where
  "cooldown_of ctx = (case Option.bind (ctx_command ctx) cooldown_seconds of None \<Rightarrow> 0 | Some c \<Rightarrow> c)"

definition cooldown_key :: "'x command_context \<Rightarrow> jstr" where
  "cooldown_key ctx = user (sender_jid ctx) @ js '':'' @
     (case ctx_command ctx of None \<Rightarrow> js ''undefined'' | Some c \<Rightarrow> cmd_name c)"

definition elapsed_seconds :: "'x command_context \<Rightarrow> 'x command_registry \<Rightarrow> rat" where
  "elapsed_seconds ctx r =
     (let lastTime = (case map_of (user_cooldowns r) (cooldown_key ctx) of None \<Rightarrow> 0 | Some t \<Rightarrow> t)
      in rat_of_int (date_now r - lastTime) / 1000)"

definition set_cooldown :: "'x command_context \<Rightarrow> 'x command_registry \<Rightarrow> 'x command_registry" where
  "set_cooldown ctx r =
     tick (r\<lparr>user_cooldowns := AList.update (cooldown_key ctx) (date_now r) (user_cooldowns r)\<rparr>)"

definition create_cooldown_guard :: "(rat \<Rightarrow> jstr) \<Rightarrow> 'x world middleware" where
  "create_cooldown_guard fixed1 = MwRead (\<lambda>w.
     let (ctx, r) = w; cooldownSec = cooldown_of ctx; elapsed = elapsed_seconds ctx r
     in if 0 < cooldownSec then
          MwDo (map_prod id tick)
            (if elapsed < cooldownSec
             then reply_and_return (cooldown_text fixed1 (cooldownSec - elapsed))
             else MwDo (\<lambda>(ctx, r). (ctx, set_cooldown ctx r)) await_next)
        else await_next)"

definition create_execution_logger ::
    "('x command_context \<Rightarrow> int \<Rightarrow> js_error option \<Rightarrow> 'x command_registry \<Rightarrow> 'x command_registry) option
      \<Rightarrow> 'x world middleware" where
  "create_execution_logger onLog = MwRead (\<lambda>w.
     let start = date_now (snd w)
     in MwDo (map_prod id tick) (MwNext (\<lambda>res. MwRead (\<lambda>w.
          let duration = date_now (snd w) - start
          in MwDo (\<lambda>(ctx, r). (ctx, case onLog of None \<Rightarrow> tick r | Some f \<Rightarrow> f ctx duration res (tick r)))
               (case res of None \<Rightarrow> MwReturn | Some e \<Rightarrow> MwThrow e)))))"

text \<open>The pipeline the constructor sets up; \<^verbatim>\<open>getPipeline().use\<close> adds to it.\<close>

definition emit_executed ::
    "'x command_context \<Rightarrow> int \<Rightarrow> js_error option \<Rightarrow> 'x command_registry \<Rightarrow> 'x command_registry" where
  "emit_executed ctx duration err =
     emit (CommandExecuted (command_name ctx) (user (sender_jid ctx)) duration err)"

definition default_pipeline :: "(rat \<Rightarrow> jstr) \<Rightarrow> 'x world middleware list" where
  "default_pipeline fixed1 =
     [create_execution_logger (Some emit_executed), create_admin_guard, create_cooldown_guard fixed1]"

section \<open>Registration\<close>

definition register ::
    "(jstr \<Rightarrow> jstr) \<Rightarrow> (jstr \<Rightarrow> jstr) \<Rightarrow> 'x command_definition \<Rightarrow> 'x command_registry \<Rightarrow> 'x command_registry" where
  "register lower resolve command r =
     (let name = lower (cmd_name command);
          r = r\<lparr>commands := AList.update name command (commands r)\<rparr>;
          r = (case cmd_aliases command of
                 None \<Rightarrow> r
               | Some as \<Rightarrow> fold (\<lambda>a r. r\<lparr>aliases := AList.update (lower a) name (aliases r)\<rparr>) as r);
          r = (case file_path command of
                 None \<Rightarrow> r
               | Some p \<Rightarrow>
                   if p = [] then r
                   else let q = resolve p; existing = (case map_of (file_map r) q of None \<Rightarrow> [] | Some l \<Rightarrow> l)
                     in r\<lparr>file_map := AList.update q (existing @ [name]) (file_map r)\<rparr>)
      in emit (CommandRegistered command) r)"

definition unregister ::
    "(jstr \<Rightarrow> jstr) \<Rightarrow> (jstr \<Rightarrow> jstr) \<Rightarrow> jstr \<Rightarrow> 'x command_registry \<Rightarrow> bool \<times> 'x command_registry" where
  "unregister lower resolve name r =
     (let lw = lower name
      in case map_of (commands r) lw of
           None \<Rightarrow> (False, r)
         | Some command \<Rightarrow>
             let r = r\<lparr>commands := AList.delete lw (commands r)\<rparr>;
                 r = (case cmd_aliases command of
                        None \<Rightarrow> r
                      | Some as \<Rightarrow> fold (\<lambda>a r. r\<lparr>aliases := AList.delete (lower a) (aliases r)\<rparr>) as r);
                 r = (case file_path command of
                        None \<Rightarrow> r
                      | Some p \<Rightarrow>
                          if p = [] then r
                          else case map_of (file_map r) (resolve p) of
                                 None \<Rightarrow> r
                               | Some l \<Rightarrow> r\<lparr>file_map := AList.update (resolve p) (filter (\<lambda>n. n \<noteq> lw) l) (file_map r)\<rparr>)
             in (True, emit (CommandUnregistered lw) r))"

definition get_command :: "(jstr \<Rightarrow> jstr) \<Rightarrow> jstr \<Rightarrow> 'x command_registry \<Rightarrow> 'x command_definition option" where
  "get_command lower query r =
     (let lw = lower query
      in case map_of (commands r) lw of
           Some c \<Rightarrow> Some c
         | None \<Rightarrow>
             (case map_of (aliases r) lw of
                None \<Rightarrow> None
              | Some n \<Rightarrow> if n = [] then None else map_of (commands r) n))"

definition list_commands :: "'x command_registry \<Rightarrow> 'x command_definition list" where
  "list_commands r = map snd (commands r)"

text \<open>
  A module's exports \<^verbatim>\<open>default\<close>, \<^verbatim>\<open>command\<close> and \<^verbatim>\<open>commands\<close>: falsy, an array, or one value; an
  entry that is no object with a function \<^verbatim>\<open>execute\<close> is \<^const>\<open>None\<close>.
\<close>

datatype 'x module_export =
    FalsyExport
  | ArrayExport "'x command_definition option list"
  | SingleExport "'x command_definition option"

definition load_item ::
    "(jstr \<Rightarrow> jstr) \<Rightarrow> (jstr \<Rightarrow> jstr) \<Rightarrow> jstr \<Rightarrow> 'x command_definition option \<Rightarrow>
     'x command_definition list \<times> 'x command_registry \<Rightarrow> 'x command_definition list \<times> 'x command_registry" where
  "load_item lower resolve absolutePath item acc =
     (case item of
        None \<Rightarrow> acc
      | Some c \<Rightarrow>
          if cmd_name c = [] then acc
          else let c = c\<lparr>file_path := Some absolutePath\<rparr>
            in (fst acc @ [c], register lower resolve c (snd acc)))"

definition load_module ::
    "(jstr \<Rightarrow> jstr) \<Rightarrow> (jstr \<Rightarrow> jstr) \<Rightarrow> jstr \<Rightarrow> js_error + 'x module_export list \<Rightarrow> 'x command_registry \<Rightarrow>
     (js_error + 'x command_definition list) \<times> 'x command_registry" where
  "load_module lower resolve filePath imported r =
     (let absolutePath = resolve filePath;
          r = (case map_of (file_map r) absolutePath of
                 None \<Rightarrow> r
               | Some names \<Rightarrow> fold (\<lambda>n r. snd (unregister lower resolve n r)) names r)
      in case imported of
           Inl e \<Rightarrow> (Inl e, r)
         | Inr exports \<Rightarrow>
             let items = concat (map (\<lambda>x. case x of FalsyExport \<Rightarrow> [] | ArrayExport l \<Rightarrow> l
                   | SingleExport i \<Rightarrow> [i]) exports);
                 (loaded, r) = fold (load_item lower resolve absolutePath) items ([], r)
             in (Inr loaded, emit (ModuleLoaded absolutePath (length loaded)) r))"

section \<open>Incoming messages\<close>

fun extract_message_text :: "message_content \<Rightarrow> jstr" where
  "extract_message_text (Text t) = t"
| "extract_message_text (Image m mime (Some c)) = c"
| "extract_message_text (Video m mime (Some c)) = c"
| "extract_message_text (Reply q qt t) = t"
| "extract_message_text _ = []"

text \<open>\<^verbatim>\<open>s.split(/\s+/)\<close>.\<close>

function split_spaces :: "jstr \<Rightarrow> jstr list" where
  "split_spaces s =
     (let w = takeWhile (\<lambda>c. \<not> is_space c) s; rest = dropWhile (\<lambda>c. \<not> is_space c) s
      in if rest = [] then [w] else w # split_spaces (dropWhile is_space rest))"
  by pat_completeness auto

lemma split_spaces_shorter:
  assumes "rest = dropWhile (\<lambda>c. \<not> is_space c) s" and "rest \<noteq> []"
  shows "length (dropWhile is_space rest) < length s"
proof -
  have "is_space (hd rest)" using hd_dropWhile [of "\<lambda>c. \<not> is_space c" s] assms by simp
  with assms(2) have "length (dropWhile is_space rest) < length rest"
    by (cases rest) (auto simp: le_imp_less_Suc length_dropWhile_le)
  then show ?thesis
    using length_dropWhile_le [of "\<lambda>c. \<not> is_space c" s] unfolding assms(1) by (rule less_le_trans)
qed

termination split_spaces
  by (relation "measure length") (rule wf_measure, unfold in_measure, rule split_spaces_shorter)

declare split_spaces.simps [simp del]

lemma split_spaces_word: "list_all (\<lambda>c. \<not> is_space c) w \<Longrightarrow> split_spaces w = [w]"
  by (subst split_spaces.simps) (simp add: Let_def list_all_iff takeWhile_eq_all_conv [THEN iffD2] dropWhile_eq_Nil_conv)

lemma split_spaces_next:
  assumes "list_all (\<lambda>c. \<not> is_space c) w" and "is_space c"
  shows "split_spaces (w @ c # s) = w # split_spaces (dropWhile is_space s)"
  by (subst split_spaces.simps) (use assms in \<open>simp add: Let_def list_all_iff takeWhile_append dropWhile_append\<close>)

definition starts_with :: "jstr \<Rightarrow> jstr \<Rightarrow> bool" where
  "starts_with p s = (take (length p) s = p)"

definition strip_prefix :: "command_prefix \<Rightarrow> jstr \<Rightarrow> jstr option" where
  "strip_prefix p t =
     (case p of
        PrefixText q \<Rightarrow> if starts_with q t then Some (drop (length q) t) else None
      | PrefixRegExp f \<Rightarrow> (case f t of None \<Rightarrow> None | Some m \<Rightarrow> Some (drop (length m) t)))"

text \<open>The command line of a text: the name (lower case) and the arguments, if it is one.\<close>

definition parse_command :: "(jstr \<Rightarrow> jstr) \<Rightarrow> command_prefix \<Rightarrow> jstr \<Rightarrow> (jstr \<times> jstr list) option" where
  "parse_command lower p t =
     (if t = [] then None
      else case strip_prefix p t of
             None \<Rightarrow> None
           | Some stripped \<Rightarrow>
               let parts = split_spaces (trim stripped); commandName = lower (hd parts)
               in if commandName = [] then None else Some (commandName, tl parts))"

definition make_context ::
    "'x command_registry \<Rightarrow> message \<Rightarrow> 'x command_definition \<Rightarrow> jstr \<Rightarrow> jstr list \<Rightarrow> 'x command_context" where
  "make_context r m command commandName as =
     \<lparr>ctx_message = m, sender_jid = sender (source m), chat_jid = chat (source m),
      ctx_is_group = is_group (source m), is_admin = Some False,
      is_owner = Some (user (sender (source m)) \<in> set (owner_jids r)), command_name = commandName,
      ctx_args = as, ctx_command = Some command\<rparr>"

definition handle_message ::
    "(jstr \<Rightarrow> jstr) \<Rightarrow> 'x world middleware list \<Rightarrow> ('x \<Rightarrow> 'x world step) \<Rightarrow> message \<Rightarrow>
     'x command_registry \<Rightarrow> (js_error + bool) \<times> 'x command_registry" where
  "handle_message lower ms exec m r =
     (case parse_command lower (cmd_prefix r) (extract_message_text (msg_content m)) of
        None \<Rightarrow> (Inr False, r)
      | Some (commandName, as) \<Rightarrow>
          (case get_command lower commandName r of
             None \<Rightarrow> (Inr False, r)
           | Some command \<Rightarrow>
               let (res, w) = execute_pipeline ms (exec (cmd_execute command))
                     (make_context r m command commandName as, r)
               in (case res of None \<Rightarrow> Inr True | Some e \<Rightarrow> Inl e, snd w)))"

end
