(* ===== verification/Command_Properties.thy ===== *)
theory Command_Properties
  imports Command_Registry
begin

text \<open>
  What the command registry promises: which command a query finds after a registration, when
  the built-in guards refuse a command and that its handler then does not run, and two
  behaviours of unregistering and reloading that lose commands.
\<close>

section \<open>The built-in guards\<close>

text \<open>The text a command is refused with, if it is; the logger has read the clock once.\<close>

definition refusal :: "(rat \<Rightarrow> jstr) \<Rightarrow> 'x command_context \<Rightarrow> 'x command_registry \<Rightarrow> jstr option" where
  "refusal fixed1 ctx r =
     (if truthy (Option.bind (ctx_command ctx) admin_only) \<and> \<not> truthy (is_admin ctx) \<and> \<not> truthy (is_owner ctx)
      then Some admin_text
      else if truthy (Option.bind (ctx_command ctx) owner_only) \<and> \<not> truthy (is_owner ctx)
      then Some owner_text
      else if 0 < cooldown_of ctx \<and> elapsed_seconds ctx (tick r) < cooldown_of ctx
      then Some (cooldown_text fixed1 (cooldown_of ctx - elapsed_seconds ctx (tick r)))
      else None)"

definition refused_registry :: "jstr \<Rightarrow> nat \<Rightarrow> 'x command_registry \<Rightarrow> 'x command_registry" where
  "refused_registry t k r = r\<lparr>replies := replies r @ [t], ticks := ticks r + k\<rparr>"

lemma run_reply:
  "run_body (reply_and_return t) nxt (i, (ctx, r)) = (reply_failure r, (i, (ctx, log_reply t r)))"
  by (simp add: reply_and_return_def log_reply_def split: option.split)

lemma run_admin_guard:
  "run_body create_admin_guard nxt (i, (ctx, r)) =
     (if truthy (Option.bind (ctx_command ctx) admin_only) \<and> \<not> truthy (is_admin ctx) \<and> \<not> truthy (is_owner ctx)
      then (reply_failure r, (i, (ctx, log_reply admin_text r)))
      else if truthy (Option.bind (ctx_command ctx) owner_only) \<and> \<not> truthy (is_owner ctx)
      then (reply_failure r, (i, (ctx, log_reply owner_text r)))
      else nxt (i, (ctx, r)))"
  by (simp add: create_admin_guard_def Let_def run_reply)

lemma run_cooldown_guard:
  "run_body (create_cooldown_guard fixed1) nxt (i, (ctx, r)) =
     (if 0 < cooldown_of ctx then
        if elapsed_seconds ctx r < cooldown_of ctx
        then (reply_failure r, (i, (ctx, log_reply (cooldown_text fixed1 (cooldown_of ctx - elapsed_seconds ctx r)) (tick r))))
        else nxt (i, (ctx, set_cooldown ctx (tick r)))
      else nxt (i, (ctx, r)))"
  by (simp add: create_cooldown_guard_def Let_def run_reply tick_def)

lemma run_logger:
  "run_body (create_execution_logger (Some f)) nxt (i, (ctx, r)) =
     (let (res, (j, (ctx', r'))) = nxt (i, (ctx, tick r))
      in (res, (j, (ctx', f ctx' (date_now r' - date_now r) res (tick r')))))"
  by (simp add: create_execution_logger_def Let_def split_beta split: option.split)

lemma guards_refuse:
  assumes "refusal fixed1 ctx r = Some t"
  obtains j k where
    "run_body create_admin_guard
       (run_from (create_cooldown_guard fixed1 # extra) 2 target) (1, (ctx, tick r)) =
     (reply_failure r, (j, (ctx, refused_registry t k r)))"
proof -
  have eqs: "log_reply u (tick r) = refused_registry u 1 r"
      "log_reply u (tick (tick r)) = refused_registry u 2 r" for u
    by (simp_all add: log_reply_def tick_def refused_registry_def)
  show thesis
    using assms that
    by (auto simp: run_admin_guard run_cooldown_guard refusal_def eqs eqs(1) [simplified tick_def]
        split: if_splits) (simp_all add: tick_def)
qed

lemma default_refuses:
  assumes "refusal fixed1 ctx r = Some t"
  shows "\<exists>d k. execute_pipeline (default_pipeline fixed1 @ extra) target (ctx, r) =
     (reply_failure r, (ctx, emit_executed ctx d (reply_failure r) (refused_registry t k r)))"
proof -
  obtain j k where run: "run_body create_admin_guard
       (run_from (create_cooldown_guard fixed1 # extra) 2 target) (1, (ctx, tick r)) =
     (reply_failure r, (j, (ctx, refused_registry t k r)))"
    using guards_refuse [OF assms] by blast
  have "tick (refused_registry t k r) = refused_registry t (Suc k) r"
    by (simp add: tick_def refused_registry_def)
  with run show ?thesis
    by (auto simp: execute_pipeline_def default_pipeline_def run_logger numeral_2_eq_2 Let_def)
qed

lemma default_admits:
  assumes "refusal fixed1 ctx r = None"
  shows "execute_pipeline (default_pipeline fixed1) target (ctx, r) =
     (let (res, (ctx', r')) = target (ctx, if 0 < cooldown_of ctx then set_cooldown ctx (tick (tick r)) else tick r)
      in (res, (ctx', emit_executed ctx' (date_now r' - date_now r) res (tick r'))))"
proof -
  have "run_from (default_pipeline fixed1) 0 target (- 1, (ctx, r)) =
      (let (res, (j, (ctx', r'))) = run_body create_admin_guard
             (run_from [create_cooldown_guard fixed1] 2 target) (1, (ctx, tick r))
       in (res, (j, (ctx', emit_executed ctx' (date_now r' - date_now r) res (tick r')))))"
    by (simp add: default_pipeline_def run_logger numeral_2_eq_2)
  moreover have "run_body create_admin_guard (run_from [create_cooldown_guard fixed1] 2 target) (1, (ctx, tick r)) =
      (let w = (ctx, if 0 < cooldown_of ctx then set_cooldown ctx (tick (tick r)) else tick r)
       in (fst (target w), (3, snd (target w))))"
    using assms by (auto simp: refusal_def run_admin_guard run_cooldown_guard Let_def split: if_splits)
  ultimately show ?thesis
    by (simp add: execute_pipeline_def split_beta Let_def)
qed

text \<open>A command, a registry with an owner and a message, to evaluate on.\<close>

definition sample_command :: "string \<Rightarrow> nat command_definition" where
  "sample_command nm =
     \<lparr>cmd_name = js nm, cmd_aliases = Some [js ''x''], cmd_description = None, cmd_category = None,
      owner_only = Some (nm = ''st''), admin_only = None, cooldown_seconds = Some 5, cmd_execute = 0,
      file_path = None\<rparr>"

definition sample_registry :: "nat command_registry" where
  "sample_registry = register id id (sample_command ''pi'') (register id id (sample_command ''st'')
     (new_command_registry None (Some [js ''62811'']) None (\<lambda>n. 60000 + int n)))"

definition sample_message :: "string \<Rightarrow> message" where
  "sample_message t =
     \<lparr>msg_id = js ''m1'', source = \<lparr>chat = jid_user (js ''62822''), sender = jid_user (js ''62822''),
        is_from_me = False, is_group = False\<rparr>, msg_content = Text (js t), timestamp = 0, msg_status = Pending\<rparr>"

lemma sample_fields:
  "cmd_prefix sample_registry = PrefixText (js ''!'')" "owner_jids sample_registry = [js ''62811'']"
  "reply_failure sample_registry = None" "user_cooldowns sample_registry = []"
  "clock sample_registry = (\<lambda>n. 60000 + int n)" "ticks sample_registry = 0"
  by (simp_all add: sample_registry_def new_command_registry_def register_def emit_def sample_command_def Let_def)

lemma sample_line:
  "split_spaces (trim (js ''st a'')) = [js ''st'', js ''a'']" "split_spaces (trim (js ''pi'')) = [js ''pi'']"
proof -
  have sp: "\<not> is_space (cu CHR ''s'')" "\<not> is_space (cu CHR ''t'')" "\<not> is_space (cu CHR ''a'')"
      "\<not> is_space (cu CHR ''p'')" "\<not> is_space (cu CHR ''i'')" "is_space (cu CHR '' '')"
    by (simp_all add: is_space_def cu_def)
  have "trim (js ''st a'') = js ''st'' @ cu CHR '' '' # js ''a''" "trim (js ''pi'') = js ''pi''"
    by (simp_all add: trim_def js_def sp)
  then show "split_spaces (trim (js ''st a'')) = [js ''st'', js ''a'']" "split_spaces (trim (js ''pi'')) = [js ''pi'']"
    using split_spaces_next [of "js ''st''" "cu CHR '' ''" "js ''a''"] split_spaces_word [of "js ''a''"]
      split_spaces_word [of "js ''pi''"]
    by (simp_all add: js_def sp)
qed

lemma sample_parses:
  "parse_command id (cmd_prefix sample_registry) (extract_message_text (msg_content (sample_message ''!st a''))) =
     Some (js ''st'', [js ''a''])"
  "parse_command id (cmd_prefix sample_registry) (extract_message_text (msg_content (sample_message ''!pi''))) =
     Some (js ''pi'', [])"
  using sample_line
  by (simp_all add: sample_fields sample_message_def parse_command_def strip_prefix_def starts_with_def js_def)

lemma sample_lookup:
  "get_command id (js ''st'') sample_registry = Some (sample_command ''st'')"
  "get_command id (js ''pi'') sample_registry = Some (sample_command ''pi'')"
  by (simp_all add: get_command_def sample_registry_def new_command_registry_def register_def emit_def
      sample_command_def Let_def)

text \<open>
  C26. The authorization of commands: for a command marked owner-only or admin-only and a
  sender who is not a configured owner, the message is answered with a refusal and the
  command's code does not run, whatever middlewares were added after the built-in ones and
  whatever the command does; nothing but the reply, the clock and the executed event changes.
  Group administrators are refused too, because the handler always sets \<open>is_admin\<close> to false.
\<close>

theorem restricted_commands_refused:
  assumes "parse_command lower (cmd_prefix r) (extract_message_text (msg_content m)) = Some (n, as)"
    and "get_command lower n r = Some c"
    and "owner_only c = Some True \<or> admin_only c = Some True"
    and "user (sender (source m)) \<notin> set (owner_jids r)"
  shows "\<exists>t d k. t \<in> {admin_text, owner_text} \<and>
     handle_message lower (default_pipeline fixed1 @ extra) exec m r =
       (case reply_failure r of None \<Rightarrow> Inr True | Some e \<Rightarrow> Inl e,
        emit (CommandExecuted n (user (sender (source m))) d (reply_failure r)) (refused_registry t k r))"
proof -
  let ?ctx = "make_context r m c n as"
  have ctx: "ctx_command ?ctx = Some c" "is_admin ?ctx = Some False" "is_owner ?ctx = Some False"
    using assms(4) by (simp_all add: make_context_def)
  have "\<exists>t. t \<in> {admin_text, owner_text} \<and> refusal fixed1 ?ctx r = Some t"
    using assms(3) by (cases "admin_only c = Some True") (auto simp: refusal_def ctx truthy_def)
  then obtain t where "t \<in> {admin_text, owner_text}" and "refusal fixed1 ?ctx r = Some t" by blast
  moreover from default_refuses [OF this(2), of extra "exec (cmd_execute c)"]
  obtain d k where "execute_pipeline (default_pipeline fixed1 @ extra) (exec (cmd_execute c)) (?ctx, r) =
     (reply_failure r, (?ctx, emit_executed ?ctx d (reply_failure r) (refused_registry t k r)))" by blast
  ultimately show ?thesis
    using assms(1,2)
    by (intro exI [of _ t] exI [of _ d] exI [of _ k])
      (simp add: handle_message_def emit_executed_def make_context_def split: option.split)
qed

theorem restricted_commands_refused_witness:
  "\<exists>t d k. t \<in> {admin_text, owner_text} \<and>
     handle_message id (default_pipeline (\<lambda>_. [])) (\<lambda>_ w. (None, w)) (sample_message ''!st a'') sample_registry =
       (Inr True, emit (CommandExecuted (js ''st'') (js ''62822'') d None) (refused_registry t k sample_registry))"
proof -
  have "user (sender (source (sample_message ''!st a''))) = js ''62822''" by code_simp
  then show ?thesis
    using restricted_commands_refused [OF sample_parses(1) sample_lookup(1), of "\<lambda>_. []" "[]" "\<lambda>_ w. (None, w)"]
    by (simp add: sample_command_def sample_fields)
qed

lemma handle_admitted:
  assumes "parse_command lower (cmd_prefix r) (extract_message_text (msg_content m)) = Some (n, as)"
    and "get_command lower n r = Some c" and "refusal fixed1 (make_context r m c n as) r = None"
  shows "handle_message lower (default_pipeline fixed1) exec m r =
     (let ctx = make_context r m c n as;
          (res, (ctx', r')) = exec (cmd_execute c)
            (ctx, if 0 < cooldown_of ctx then set_cooldown ctx (tick (tick r)) else tick r)
      in (case res of None \<Rightarrow> Inr True | Some e \<Rightarrow> Inl e,
          emit_executed ctx' (date_now r' - date_now r) res (tick r')))"
  using assms(1,2) default_admits [OF assms(3)]
  by (simp add: handle_message_def Let_def split_beta)

text \<open>
  A command that no guard refuses runs exactly once, on a world in which its cooldown (if
  it has one) has just been started; its outcome is the outcome of the message, and one
  executed event with the measured duration is emitted after it.
\<close>

theorem admitted_command_runs:
  assumes "parse_command lower (cmd_prefix r) (extract_message_text (msg_content m)) = Some (n, as)"
    and "get_command lower n r = Some c" and "refusal fixed1 (make_context r m c n as) r = None"
  shows "handle_message lower (default_pipeline fixed1) exec m r =
     (let ctx = make_context r m c n as;
          (res, (ctx', r')) = exec (cmd_execute c)
            (ctx, if 0 < cooldown_of ctx then set_cooldown ctx (tick (tick r)) else tick r)
      in (case res of None \<Rightarrow> Inr True | Some e \<Rightarrow> Inl e,
          emit_executed ctx' (date_now r' - date_now r) res (tick r')))"
  using assms by (rule handle_admitted)

theorem admitted_command_runs_witness:
  "fst (handle_message id (default_pipeline (\<lambda>_. [])) (\<lambda>_ (c, r). (None, (c, log_reply (js ''pong'') r)))
     (sample_message ''!pi'') sample_registry) = Inr True"
proof -
  have "refusal (\<lambda>_. []) (make_context sample_registry (sample_message ''!pi'') (sample_command ''pi'') (js ''pi'') [])
      sample_registry = None"
    by (simp add: refusal_def make_context_def truthy_def sample_command_def cooldown_of_def elapsed_seconds_def
        date_now_def tick_def sample_fields)
  from admitted_command_runs [OF sample_parses(2) sample_lookup(2) this] show ?thesis
    by (simp add: Let_def split_beta)
qed

section \<open>Registration and lookup\<close>

lemma fold_aliases:
  "map_of (aliases (fold (\<lambda>a r. r\<lparr>aliases := AList.update (lower a) name (aliases r)\<rparr>) as r)) x =
     (if x \<in> lower ` set as then Some name else map_of (aliases r) x)"
  "commands (fold (\<lambda>a r. r\<lparr>aliases := AList.update (lower a) name (aliases r)\<rparr>) as r) = commands r"
  "cmd_prefix (fold (\<lambda>a r. r\<lparr>aliases := AList.update (lower a) name (aliases r)\<rparr>) as r) = cmd_prefix r"
  by (induction as arbitrary: r) (auto simp: update_conv')

lemma fold_unalias:
  "map_of (aliases (fold (\<lambda>a r. r\<lparr>aliases := AList.delete (lower a) (aliases r)\<rparr>) as r)) x =
     (if x \<in> lower ` set as then None else map_of (aliases r) x)"
  "commands (fold (\<lambda>a r. r\<lparr>aliases := AList.delete (lower a) (aliases r)\<rparr>) as r) = commands r"
  by (induction as arbitrary: r) (auto simp: delete_conv')

definition alias_keys :: "(jstr \<Rightarrow> jstr) \<Rightarrow> 'x command_definition \<Rightarrow> jstr set" where
  "alias_keys lower c = lower ` set (case cmd_aliases c of None \<Rightarrow> [] | Some as \<Rightarrow> as)"

lemma register_maps:
  "map_of (commands (register lower resolve c r)) = (map_of (commands r))(lower (cmd_name c) \<mapsto> c)"
  "map_of (aliases (register lower resolve c r)) x =
     (if x \<in> alias_keys lower c then Some (lower (cmd_name c)) else map_of (aliases r) x)"
  by (simp_all add: register_def emit_def Let_def fold_aliases alias_keys_def split: option.split)

lemma unregister_maps:
  assumes "map_of (commands r) (lower q) = Some c"
  shows "map_of (commands (snd (unregister lower resolve q r))) = (map_of (commands r))(lower q := None)"
    and "map_of (aliases (snd (unregister lower resolve q r))) x =
      (if x \<in> alias_keys lower c then None else map_of (aliases r) x)"
  using assms by (simp_all add: unregister_def emit_def Let_def fold_unalias alias_keys_def split: option.split)

lemma unregister_unknown:
  "map_of (commands r) (lower q) = None \<Longrightarrow> unregister lower resolve q r = (False, r)"
  by (simp add: unregister_def Let_def)

text \<open>
  Lookup after a registration, for every query: a name or a fresh alias of the new command
  finds it, a name that another command has goes on finding that one before any alias, an
  alias that pointed to the registered name finds the new command, and every other query
  is answered as before.
\<close>

theorem get_command_register:
  "get_command lower q (register lower resolve c r) =
     (let x = lower q; name = lower (cmd_name c)
      in if x = name then Some c
         else case map_of (commands r) x of
                Some d \<Rightarrow> Some d
              | None \<Rightarrow>
                  (case if x \<in> alias_keys lower c then Some name else map_of (aliases r) x of
                     None \<Rightarrow> None
                   | Some n \<Rightarrow> if n = [] then None else if n = name then Some c else map_of (commands r) n))"
  by (simp add: get_command_def register_maps Let_def split: option.split)

text \<open>
  Unregistering a command takes its aliases away from other commands: when two commands
  declare the same alias, the alias finds the one registered last, and unregistering the
  other one leaves it finding nothing although its owner is still registered.
\<close>

theorem unregister_takes_alias:
  assumes "a \<in> alias_keys lower c" and "a \<in> alias_keys lower d" and "lower q = a"
    and "lower (cmd_name c) \<noteq> lower (cmd_name d)" and "lower (cmd_name d) \<noteq> []"
    and "map_of (commands r) a = None" and "a \<noteq> lower (cmd_name c)" and "a \<noteq> lower (cmd_name d)"
  shows "get_command lower q (register lower resolve d (register lower resolve c r)) = Some d \<and>
     (let r' = snd (unregister lower resolve (cmd_name c) (register lower resolve d (register lower resolve c r)))
      in get_command lower q r' = None \<and> map_of (commands r') (lower (cmd_name d)) = Some d)"
proof -
  let ?r = "register lower resolve d (register lower resolve c r)"
  have "map_of (commands ?r) (lower (cmd_name c)) = Some c" using assms(4) by (simp add: register_maps)
  note maps = unregister_maps [where lower = lower and q = "cmd_name c" and resolve = resolve, OF this]
  show ?thesis
    using assms by (simp add: get_command_def register_maps maps Let_def)
qed

theorem unregister_takes_alias_witness:
  "get_command id (js ''x'') sample_registry = Some (sample_command ''pi'') \<and>
     get_command id (js ''x'') (snd (unregister id id (js ''st'') sample_registry)) = None"
  using unregister_takes_alias [of "js ''x''" id "sample_command ''st''" "sample_command ''pi''" "js ''x''"
      "new_command_registry None (Some [js ''62811'']) None (\<lambda>n. 60000 + int n)" id]
  by (simp add: alias_keys_def sample_command_def sample_registry_def new_command_registry_def Let_def)

section \<open>Reloading a module\<close>

lemma unregister_keeps_absent:
  "map_of (commands r) x = None \<Longrightarrow> map_of (commands (snd (unregister lower resolve q r))) x = None"
  by (cases "map_of (commands r) (lower q)") (simp_all add: unregister_unknown unregister_maps(1))

lemma fold_unregister:
  "n \<in> set names \<or> map_of (commands r) (lower n) = None \<Longrightarrow>
     map_of (commands (fold (\<lambda>n r. snd (unregister lower resolve n r)) names r)) (lower n) = None"
proof (induction names arbitrary: r)
  case Nil
  then show ?case by simp
next
  case (Cons q names)
  have "map_of (commands (snd (unregister lower resolve q r))) (lower n) = None"
    if "n = q \<or> map_of (commands r) (lower n) = None"
    using that unregister_keeps_absent [of r "lower n" lower resolve q]
    by (cases "map_of (commands r) (lower q)") (auto simp: unregister_unknown unregister_maps(1))
  with Cons show ?case by auto
qed

text \<open>
  A reload is not atomic: the commands recorded for the file are unregistered before the
  new module is imported, so when the import fails the error is passed on and every one
  of them is gone.
\<close>

theorem failed_reload_drops_commands:
  assumes "map_of (file_map r) (resolve p) = Some names" and "n \<in> set names"
  shows "fst (load_module lower resolve p (Inl e) r) = Inl e \<and>
     map_of (commands (snd (load_module lower resolve p (Inl e) r))) (lower n) = None"
  using assms by (simp add: load_module_def Let_def fold_unregister)

theorem failed_reload_drops_commands_witness:
  "fst (load_module id id (js ''f'') (Inl next_twice) (sample_registry\<lparr>file_map := [(js ''f'', [js ''pi''])]\<rparr>)) = Inl next_twice \<and>
     map_of (commands (snd (load_module id id (js ''f'') (Inl next_twice)
       (sample_registry\<lparr>file_map := [(js ''f'', [js ''pi''])]\<rparr>)))) (js ''pi'') = None"
  using failed_reload_drops_commands [of "sample_registry\<lparr>file_map := [(js ''f'', [js ''pi''])]\<rparr>" id "js ''f''"
      "[js ''pi'']" "js ''pi''" id next_twice]
  by simp

end
