(* ===== verification/Client_Properties.thy ===== *)
theory Client_Properties
  imports Messaging Command_Properties
begin

text \<open>
  What a user of the client observes: the events of a connection, that the connection state
  is the last one announced, what happens to the event queue after a disconnect, that a store
  which answers late undoes a disconnect, that a login never completes by itself, and what
  sending a message does, together with the command registry that listens to it.
\<close>

section \<open>Events\<close>

lemma quietly_fields [simp]:
  "emissions (quietly om ev c) = emissions c" "heard (quietly om ev c) = heard c"
  "encoded_nodes (quietly om ev c) = encoded_nodes c"
  "conn_state (quietly om ev c) = conn_state c" "client_creds (quietly om ev c) = client_creds c"
  "client_cfg (quietly om ev c) = client_cfg c" "reconnect_mgr (quietly om ev c) = reconnect_mgr c"
  "qr_mgr (quietly om ev c) = qr_mgr c" "pairing_mgr (quietly om ev c) = pairing_mgr c"
  "event_q (quietly om ev c) = event_q c" "loading (quietly om ev c) = loading c"
  "next_calls (quietly om ev c) = next_calls c" "next_answers (quietly om ev c) = next_answers c"
  by (simp_all add: quietly_def split: event.split)

lemma begin_emit_fields [simp]:
  "emissions (begin_emit ev c) = emissions c @ [ev]" "heard (begin_emit ev c) = heard c"
  "encoded_nodes (begin_emit ev c) = encoded_nodes c"
  "conn_state (begin_emit ev c) = conn_state c" "client_creds (begin_emit ev c) = client_creds c"
  "client_cfg (begin_emit ev c) = client_cfg c" "reconnect_mgr (begin_emit ev c) = reconnect_mgr c"
  "qr_mgr (begin_emit ev c) = qr_mgr c" "pairing_mgr (begin_emit ev c) = pairing_mgr c"
  "event_q (begin_emit ev c) = event_q c" "loading (begin_emit ev c) = loading c"
  "next_calls (begin_emit ev c) = next_calls c" "next_answers (begin_emit ev c) = next_answers c"
  "plugin_state (begin_emit ev c) = plugin_state c"
  by (simp_all add: begin_emit_def)

lemma end_emit_fields [simp]:
  "emissions (end_emit ev c) = emissions c" "heard (end_emit ev c) = heard c @ [ev]"
  "encoded_nodes (end_emit ev c) = encoded_nodes c"
  "conn_state (end_emit ev c) = conn_state c" "client_creds (end_emit ev c) = client_creds c"
  "client_cfg (end_emit ev c) = client_cfg c" "reconnect_mgr (end_emit ev c) = reconnect_mgr c"
  "qr_mgr (end_emit ev c) = qr_mgr c" "pairing_mgr (end_emit ev c) = pairing_mgr c"
  "event_q (end_emit ev c) = snd (push ev (event_q c))" "loading (end_emit ev c) = loading c"
  "next_calls (end_emit ev c) = next_calls c" "plugin_state (end_emit ev c) = plugin_state c"
  "next_answers (end_emit ev c) = next_answers c @ map (apsnd Some) (fst (push ev (event_q c)))"
  by (simp_all add: end_emit_def push_event_def split_beta)

lemma close_events_fields [simp]:
  "emissions (close_events c) = emissions c" "heard (close_events c) = heard c"
  "encoded_nodes (close_events c) = encoded_nodes c"
  "conn_state (close_events c) = conn_state c" "client_creds (close_events c) = client_creds c"
  "client_cfg (close_events c) = client_cfg c" "reconnect_mgr (close_events c) = reconnect_mgr c"
  "qr_mgr (close_events c) = qr_mgr c" "pairing_mgr (close_events c) = pairing_mgr c"
  "event_q (close_events c) = snd (close_queue (event_q c))" "loading (close_events c) = loading c"
  "next_calls (close_events c) = next_calls c" "plugin_state (close_events c) = plugin_state c"
  "next_answers (close_events c) = next_answers c @ map (apsnd Some) (fst (close_queue (event_q c)))"
  by (simp_all add: close_events_def split_beta)

lemma emit_event_fields [simp]:
  "emissions (emit_event (quietly om) ev c) = emissions c @ [ev]"
  "conn_state (emit_event (quietly om) ev c) = conn_state c"
  "client_creds (emit_event (quietly om) ev c) = client_creds c"
  "client_cfg (emit_event (quietly om) ev c) = client_cfg c"
  "reconnect_mgr (emit_event (quietly om) ev c) = reconnect_mgr c"
  "qr_mgr (emit_event (quietly om) ev c) = qr_mgr c"
  "pairing_mgr (emit_event (quietly om) ev c) = pairing_mgr c"
  "event_q (emit_event (quietly om) ev c) = snd (push ev (event_q c))"
  "loading (emit_event (quietly om) ev c) = loading c"
  "encoded_nodes (emit_event (quietly om) ev c) = encoded_nodes c"
  by (simp_all add: emit_event_def)

lemma emit_quietly_plugins:
  "plugin_state (emit_event (quietly om) (MessageReceived m) c) = om m (plugin_state c)"
  by (simp add: emit_event_def quietly_def)

lemma log_node_fields [simp]:
  "emissions (log_node bs c) = emissions c" "heard (log_node bs c) = heard c"
  "encoded_nodes (log_node bs c) = encoded_nodes c @ [bs]"
  "conn_state (log_node bs c) = conn_state c" "client_creds (log_node bs c) = client_creds c"
  "client_cfg (log_node bs c) = client_cfg c" "reconnect_mgr (log_node bs c) = reconnect_mgr c"
  "qr_mgr (log_node bs c) = qr_mgr c" "pairing_mgr (log_node bs c) = pairing_mgr c"
  "event_q (log_node bs c) = event_q c" "loading (log_node bs c) = loading c"
  "next_calls (log_node bs c) = next_calls c" "next_answers (log_node bs c) = next_answers c"
  "plugin_state (log_node bs c) = plugin_state c"
  by (simp_all add: log_node_def)

lemma set_state_fields [simp]:
  "emissions (set_state (quietly om) st c) = emissions c @ [ConnectionUpdate st]"
  "conn_state (set_state (quietly om) st c) = st"
  "client_creds (set_state (quietly om) st c) = client_creds c"
  "client_cfg (set_state (quietly om) st c) = client_cfg c"
  "reconnect_mgr (set_state (quietly om) st c) = reconnect_mgr c"
  "qr_mgr (set_state (quietly om) st c) = qr_mgr c"
  "pairing_mgr (set_state (quietly om) st c) = pairing_mgr c"
  "event_q (set_state (quietly om) st c) = snd (push (ConnectionUpdate st) (event_q c))"
  "loading (set_state (quietly om) st c) = loading c"
  "encoded_nodes (set_state (quietly om) st c) = encoded_nodes c"
  by (simp_all add: set_state_def)

text \<open>The events of a connection, given what the store held.\<close>

definition login_events ::
    "credentials \<Rightarrow> bytes \<times> bytes \<times> bytes \<Rightarrow> (nat \<Rightarrow> real) \<Rightarrow> 'p client \<Rightarrow> event list" where
  "login_events cr rs draws c =
     (if registered cr then ConnectionUpdate Connected # (case me cr of None \<Rightarrow> [] | Some j \<Rightarrow> [Authenticated j])
      else [ConnectionUpdate Authenticating,
            case auth_method_of (client_cfg c) of
              QrMethod \<Rightarrow> Qr \<lparr>raw = qr_challenge rs, attempts = attempt (reconnect_mgr c) + 1, timeout_seconds = 60\<rparr>
            | PairingCodeMethod \<Rightarrow> PairingCode (fst (generate_code draws 120 (pairing_mgr c)))])"

text \<open>
  The events of a connection: first that the client connects; when the store fails, no
  more; otherwise, with the stored credentials or else the client's own, either that it is
  connected and, if the account is known, authenticated, or that it authenticates and the
  QR or pairing code of the configured method. The state is the last one announced.
\<close>

theorem connect_events:
  "emissions (snd (connect (quietly om) loaded rs draws c)) = emissions c @ ConnectionUpdate Connecting #
     (case loaded of
        Inl e \<Rightarrow> []
      | Inr saved \<Rightarrow> login_events (case saved of None \<Rightarrow> client_creds c | Some cr \<Rightarrow> cr) rs draws c) \<and>
   conn_state (snd (connect (quietly om) loaded rs draws c)) =
     (case loaded of
        Inl e \<Rightarrow> Connecting
      | Inr saved \<Rightarrow>
          if registered (case saved of None \<Rightarrow> client_creds c | Some cr \<Rightarrow> cr) then Connected else Authenticating)"
  by (auto simp: connect_defs run_connection_lifecycle_def login_events_def update_qr_def Let_def split_beta
      split: sum.split option.split auth_method.split)

section \<open>Clients over time\<close>

text \<open>
  The clients a program can come to, by any calls with any arguments; other calls may come
  between the two parts of \<^verbatim>\<open>connect\<close>.
\<close>

inductive reaches :: "'p listeners \<Rightarrow> 'p client \<Rightarrow> 'p client \<Rightarrow> bool" for om c where
  start: "reaches om c c"
| connecting: "reaches om c d \<Longrightarrow> reaches om c (connect_start om d)"
| loaded: "reaches om c d \<Longrightarrow> 0 < loading d \<Longrightarrow> reaches om c (snd (connect_loaded om res rs draws d))"
| disconnected: "reaches om c d \<Longrightarrow> reaches om c (disconnect om reason d)"
| dispatched: "reaches om c d \<Longrightarrow> reaches om c (snd (dispatch_node om n m d))"

lemma reaches_connect: "reaches (quietly om) c d \<Longrightarrow> reaches (quietly om) c (snd (connect (quietly om) res rs draws d))"
  unfolding connect_def by (intro reaches.loaded reaches.connecting) (simp_all add: connect_start_def)

definition announced :: "connection_state \<Rightarrow> event list \<Rightarrow> connection_state" where
  "announced st evs = fold (\<lambda>ev st. case ev of ConnectionUpdate st' \<Rightarrow> st' | _ \<Rightarrow> st) evs st"

lemma announced_append: "announced st (xs @ ys) = announced (announced st xs) ys"
  by (simp add: announced_def)

lemma announced_simps [simp]:
  "announced st [] = st"
  "announced st (ConnectionUpdate st' # evs) = announced st' evs"
  "announced st (Authenticated j # evs) = announced st evs"
  "announced st (Qr q # evs) = announced st evs"
  "announced st (PairingCode p # evs) = announced st evs"
  "announced st (MessageReceived m # evs) = announced st evs"
  "announced st (DisconnectEvent r # evs) = announced st evs"
  by (simp_all add: announced_def)

lemma disconnect_fields:
  "emissions (disconnect (quietly om) reason c) = emissions c @ [ConnectionUpdate Disconnected, DisconnectEvent reason]"
  "conn_state (disconnect (quietly om) reason c) = Disconnected"
  "closed (event_q (disconnect (quietly om) reason c))" "loading (disconnect (quietly om) reason c) = loading c"
  by (simp_all add: disconnect_def Let_def close_queue_def)

lemma dispatch_fields:
  "conn_state (snd (dispatch_node (quietly om) n m c)) = conn_state c"
  "announced st (emissions (snd (dispatch_node (quietly om) n m c))) = announced st (emissions c)"
  by (auto simp: dispatch_node_def Let_def announced_append split: sum.split option.split)

lemma announced_reach:
  assumes "reaches (quietly om) (new_client cfg rnd16 rnd p) c"
  shows "conn_state c = announced Disconnected (emissions c)"
  using assms
proof induction
  case start
  then show ?case by (simp add: new_client_def)
next
  case (connecting d)
  then show ?case by (simp add: connect_start_def announced_append)
next
  case (loaded d res rs draws)
  then show ?case
    by (auto simp: connect_defs run_connection_lifecycle_def update_qr_def Let_def split_beta announced_append
        split: sum.split option.split auth_method.split)
next
  case (disconnected d reason)
  then show ?case by (simp add: disconnect_fields announced_append)
next
  case (dispatched d n m)
  then show ?case by (simp add: dispatch_fields)
qed

text \<open>
  Whatever is called on a new client, in any order, its connection state is the state of
  the last connection update it emitted, and before the first one it is disconnected.
\<close>

theorem state_is_announced:
  assumes "reaches (quietly om) (new_client cfg rnd16 rnd p) c"
  shows "conn_state c = announced Disconnected (emissions c)"
  using assms by (rule announced_reach)

theorem state_is_announced_witness:
  "conn_state (disconnect (quietly (\<lambda>_ p. p)) [] (new_client (default_client_config 0) [] 0 ())) =
     announced Disconnected (emissions (disconnect (quietly (\<lambda>_ p. p)) [] (new_client (default_client_config 0) [] 0 ())))"
  by (rule state_is_announced [OF disconnected [OF start]])

lemma push_closed: "closed q \<Longrightarrow> push ev q = ([], q)"
  by (simp add: push_def)

definition frozen :: "event list \<Rightarrow> 'p client \<Rightarrow> bool" where
  "frozen evs c = (closed (event_q c) \<and> queue (event_q c) = evs)"

lemma frozen_emit: "frozen evs c \<Longrightarrow> frozen evs (emit_event (quietly om) ev c)"
  by (simp add: frozen_def push_closed)

lemma frozen_set_state: "frozen evs c \<Longrightarrow> frozen evs (set_state (quietly om) st c)"
  by (simp add: frozen_def push_closed)

lemma frozen_disconnect: "frozen evs c \<Longrightarrow> frozen evs (disconnect (quietly om) reason c)"
  by (simp add: frozen_def disconnect_def Let_def push_closed close_queue_def)

lemma frozen_connect:
  "frozen evs c \<Longrightarrow> frozen evs (connect_start (quietly om) c)"
  "frozen evs c \<Longrightarrow> frozen evs (snd (connect_loaded (quietly om) loaded rs draws c))"
  "frozen evs c \<Longrightarrow> frozen evs (snd (connect (quietly om) loaded rs draws c))"
  by (simp_all add: frozen_def connect_defs run_connection_lifecycle_def Let_def split_beta push_closed
      split: sum.split option.split auth_method.split)

lemma frozen_dispatch: "frozen evs c \<Longrightarrow> frozen evs (snd (dispatch_node (quietly om) n m c))"
  by (auto simp: dispatch_node_def Let_def frozen_def push_closed split: sum.split option.split)

lemma frozen_reaches: "reaches (quietly om) c d \<Longrightarrow> frozen evs c \<Longrightarrow> frozen evs d"
  by (induction rule: reaches.induct) (simp_all add: frozen_connect frozen_disconnect frozen_dispatch)

text \<open>
  The event queue of a client does not survive a disconnect: after the first one, whatever
  is called (connecting again included), its buffer stays exactly what it was and nothing is
  pushed to it any more, although the emitter goes on begin_emit: every call appends to what
  was emitted.
\<close>

theorem no_events_after_disconnect:
  assumes "reaches (quietly om) (disconnect (quietly om) reason c) d"
  shows "closed (event_q d) \<and> queue (event_q d) = queue (event_q (disconnect (quietly om) reason c)) \<and>
     queue (event_q (snd (connect (quietly om) loaded rs draws d))) = queue (event_q d) \<and>
     emissions (snd (connect (quietly om) loaded rs draws d)) \<noteq> emissions d"
proof -
  have "frozen (queue (event_q (disconnect (quietly om) reason c))) (disconnect (quietly om) reason c)"
    by (simp add: frozen_def disconnect_fields)
  with assms have d: "frozen (queue (event_q (disconnect (quietly om) reason c))) d" by (rule frozen_reaches)
  then have "frozen (queue (event_q (disconnect (quietly om) reason c))) (snd (connect (quietly om) loaded rs draws d))"
    by (rule frozen_connect)
  moreover have "length (emissions d) < length (emissions (snd (connect (quietly om) loaded rs draws d)))"
    by (simp add: connect_defs run_connection_lifecycle_def Let_def split_beta
        split: sum.split option.split auth_method.split)
  ultimately show ?thesis using d by (auto simp: frozen_def)
qed

theorem no_events_after_disconnect_witness:
  "queue (event_q (snd (connect (quietly (\<lambda>_ p. p)) (Inr None) ([], [], []) (\<lambda>_. 0)
      (disconnect (quietly (\<lambda>_ p. p)) [] (new_client (default_client_config 0) [] 0 ()))))) =
     [ConnectionUpdate Disconnected, DisconnectEvent []]"
  using no_events_after_disconnect [OF start, of "\<lambda>_ p. p" "[]" "new_client (default_client_config 0) [] 0 ()"]
  by (simp add: disconnect_def set_state_def emit_event_def new_client_def push_def close_queue_def
      new_event_queue_def Let_def)

text \<open>
  A disconnect while \<^verbatim>\<open>connect\<close> waits for its store does not last: when the credentials of a registered
  account arrive, the client announces that it is connected, although it was told to
  disconnect and its event queue is closed for good.
\<close>

theorem load_undoes_disconnect:
  assumes "reaches (quietly om) (new_client cfg rnd16 rnd p) c" and "registered cr"
  shows "let c1 = disconnect (quietly om) reason (connect_start (quietly om) c); c2 = snd (connect_loaded (quietly om) (Inr (Some cr)) rs draws c1)
     in reaches (quietly om) (new_client cfg rnd16 rnd p) c2 \<and> conn_state c1 = Disconnected \<and> conn_state c2 = Connected \<and>
        ConnectionUpdate Connected \<in> set (drop (length (emissions c1)) (emissions c2)) \<and> closed (event_q c2)"
proof -
  let ?c1 = "disconnect (quietly om) reason (connect_start (quietly om) c)"
  have "loading ?c1 = Suc (loading c)" by (simp add: connect_start_def disconnect_fields)
  then have "reaches (quietly om) (new_client cfg rnd16 rnd p) (snd (connect_loaded (quietly om) (Inr (Some cr)) rs draws ?c1))"
    using assms(1) by (intro reaches.loaded reaches.disconnected reaches.connecting) simp_all
  moreover have "closed (event_q (snd (connect_loaded (quietly om) (Inr (Some cr)) rs draws ?c1)))"
    using frozen_connect(2) [of "queue (event_q ?c1)" ?c1] by (simp add: frozen_def disconnect_fields)
  moreover have "conn_state (snd (connect_loaded (quietly om) (Inr (Some cr)) rs draws ?c1)) = Connected \<and>
      (\<exists>evs. emissions (snd (connect_loaded (quietly om) (Inr (Some cr)) rs draws ?c1)) = emissions ?c1 @ ConnectionUpdate Connected # evs)"
    using assms(2) by (simp add: connect_loaded_def run_connection_lifecycle_def Let_def split: option.split)
  ultimately show ?thesis by (auto simp: Let_def disconnect_fields)
qed

theorem load_undoes_disconnect_witness:
  "\<exists>cr. registered cr \<and> conn_state (snd (connect_loaded (quietly (\<lambda>_ p. p)) (Inr (Some cr)) ([], [], []) (\<lambda>_. 0)
     (disconnect (quietly (\<lambda>_ p. p)) [] (connect_start (quietly (\<lambda>_ p. p)) (new_client (default_client_config 0) [] 0 (0 :: nat)))))) = Connected"
proof -
  let ?cr = "(init_credentials [] 0)\<lparr>registered := True\<rparr>"
  have cr: "registered ?cr" by simp
  show ?thesis
    using load_undoes_disconnect [where reason = "[]" and rs = "([], [], [])" and draws = "\<lambda>_. 0", OF reaches.start cr,
        of "\<lambda>_ p. p" "default_client_config 0" "[]" 0 "0 :: nat"]
    unfolding Let_def by (intro exI [of _ ?cr]) simp
qed

text \<open>
  The same runs on one store: nothing that the client does changes what its store loads, because it
  never saves.
\<close>

inductive runs_on ::
    "'p listeners \<Rightarrow> js_error + credentials option \<Rightarrow> 'p client \<Rightarrow> 'p client \<Rightarrow> bool" for om res c where
  start: "runs_on om res c c"
| connecting: "runs_on om res c d \<Longrightarrow> runs_on om res c (connect_start om d)"
| loaded: "runs_on om res c d \<Longrightarrow> 0 < loading d \<Longrightarrow> runs_on om res c (snd (connect_loaded om res rs draws d))"
| disconnected: "runs_on om res c d \<Longrightarrow> runs_on om res c (disconnect om reason d)"
| dispatched: "runs_on om res c d \<Longrightarrow> runs_on om res c (snd (dispatch_node om n m d))"

definition logged_out :: "'p client \<Rightarrow> bool" where
  "logged_out c = (\<not> registered (client_creds c) \<and> ConnectionUpdate Connected \<notin> set (emissions c) \<and>
     (\<forall>j. Authenticated j \<notin> set (emissions c)))"

lemma logged_out_loaded:
  assumes "logged_out c" and "\<And>cr. res = Inr (Some cr) \<Longrightarrow> \<not> registered cr"
  shows "logged_out (snd (connect_loaded (quietly om) res rs draws c))"
  using assms
  by (auto simp: logged_out_def connect_loaded_def run_connection_lifecycle_def Let_def split_beta
      split: sum.split option.split auth_method.split)

lemma disconnect_creds: "client_creds (disconnect (quietly om) reason c) = client_creds c"
  by (simp add: disconnect_def Let_def split_beta)

text \<open>
  A login never completes: on a store that does not hold a registered account already, whatever is
  called, the client never announces that it is connected or authenticated, however often its
  QR code is scanned or its pairing code entered.
\<close>

theorem login_never_completes:
  assumes "runs_on (quietly om) res (new_client cfg rnd16 rnd p) c" and "\<And>cr. res = Inr (Some cr) \<Longrightarrow> \<not> registered cr"
  shows "ConnectionUpdate Connected \<notin> set (emissions c) \<and> (\<forall>j. Authenticated j \<notin> set (emissions c))"
proof -
  have "logged_out c"
    using assms(1)
  proof induction
    case start
    then show ?case by (simp add: logged_out_def new_client_def init_credentials_def)
  next
    case (loaded d rs draws)
    then show ?case using assms(2) by (intro logged_out_loaded)
  next
    case (disconnected d reason)
    then show ?case by (auto simp: logged_out_def disconnect_fields disconnect_creds)
  next
    case (dispatched d n m)
    then show ?case by (auto simp: logged_out_def dispatch_node_def Let_def split: sum.split option.split)
  qed (auto simp: logged_out_def connect_start_def)
  then show ?thesis by (simp add: logged_out_def)
qed

theorem login_never_completes_witness:
  "ConnectionUpdate Connected \<notin> set (emissions (snd (connect (quietly (\<lambda>_ p. p)) (Inr None) ([], [], []) (\<lambda>_. 0)
     (new_client (default_client_config 0) [] 0 (0 :: nat)))))"
proof -
  have "runs_on (quietly (\<lambda>_ p. p)) (Inr None) (new_client (default_client_config 0) [] 0 (0 :: nat))
      (snd (connect (quietly (\<lambda>_ p. p)) (Inr None) ([], [], []) (\<lambda>_. 0) (new_client (default_client_config 0) [] 0 0)))"
    unfolding connect_def by (intro runs_on.loaded runs_on.connecting runs_on.start) (simp add: connect_start_def)
  from login_never_completes [OF this] show ?thesis by simp
qed

section \<open>Sending a message\<close>

lemma encode_message_node:
  assumes "string_fits i" and "string_fits (js ''message'')" and "string_fits (js ''id'')"
    and "string_fits (js ''to'')" and "string_fits (js ''type'')" and "string_fits (js ''text'')"
  shows "(\<exists>bs. encode (message_node i j) = Inr bs) \<longleftrightarrow> string_fits (jid_to_string j)"
  using assms succeeds_write_node [of "message_node i j"]
  by (simp add: message_node_eq encode_def succeeds_def)

lemma string_fits_short: "3 * length t \<le> 65535 \<Longrightarrow> string_fits t"
  using length_text_encode [of t] by (simp add: string_fits_def)

lemma encode_new_message_node:
  assumes "length rnd8 = 8"
  shows "(\<exists>bs. encode (message_node (msg_id (new_message rnd8 now k l c)) j) = Inr bs) \<longleftrightarrow>
     string_fits (jid_to_string j)"
  by (rule encode_message_node; rule string_fits_short)
    (simp_all add: new_message_def upper_hex_def length_to_hex assms js_def)

lemma send_message_fits:
  assumes "length rnd8 = 8" and "string_fits (jid_to_string (resolve_recipient recipient))"
  shows "\<exists>bs. send_message om rnd8 now recipient c cl =
     (let m = new_message rnd8 now (resolve_recipient recipient)
            (case get_me cl of None \<Rightarrow> jid_user (js ''0'') | Some j \<Rightarrow> j) c
      in (Inr m, emit_event om (MessageReceived m) (log_node bs cl)))"
  using encode_new_message_node [OF assms(1), of now "resolve_recipient recipient"
      "case get_me cl of None \<Rightarrow> jid_user (js ''0'') | Some j \<Rightarrow> j" c "resolve_recipient recipient"] assms(2)
  by (auto simp: send_message_def dispatch_node_def Let_def split: sum.split)

text \<open>
  Sending a message, exactly, whatever the listeners do: when the recipient's address fits the
  format (as every address of at most 65535 bytes does) the call encodes the message's node and
  returns the message, after it emitted it as a received message; otherwise it throws and
  nothing has happened. The content is in the event only: the node holds an identifier and the
  address.
\<close>

theorem send_message_spec:
  assumes "length rnd8 = 8"
  shows "let j = resolve_recipient recipient;
          m = new_message rnd8 now j (case get_me cl of None \<Rightarrow> jid_user (js ''0'') | Some j \<Rightarrow> j) c;
          r = send_message om rnd8 now recipient c cl
      in if string_fits (jid_to_string j)
         then \<exists>bs. encode (message_node (msg_id m) j) = Inr bs \<and>
           r = (Inr m, emit_event om (MessageReceived m) (log_node bs cl))
         else isl (fst r) \<and> snd r = cl"
  using encode_new_message_node [OF assms, of now "resolve_recipient recipient"
      "case get_me cl of None \<Rightarrow> jid_user (js ''0'') | Some j \<Rightarrow> j" c "resolve_recipient recipient"]
  by (auto simp: send_message_def dispatch_node_def Let_def split: sum.split)

theorem send_message_spec_witness:
  "isl (fst (send_message (quietly (\<lambda>_ p. p)) (replicate 8 255) 1700000000123 (Inr (js ''62 811''))
     (Text (js ''hi'')) (new_client (default_client_config 0) [] 0 ()))) = False"
proof -
  have "string_fits (jid_to_string (resolve_recipient (Inr (js ''62 811''))))"
    by (rule string_fits_short)
      (simp add: resolve_recipient_def jid_user_def jid_to_string_def js_def is_digit_def cu_def)
  then show ?thesis
    using send_message_spec [of "replicate 8 255" "Inr (js ''62 811'')" 1700000000123
        "new_client (default_client_config 0) [] 0 ()" "Text (js ''hi'')" "quietly (\<lambda>_ p. p)"]
    by (auto simp: Let_def)
qed

text \<open>
  A recipient given as text is always a person: whatever the text, a group's address
  included, the message goes to the user whose number is the text's digits, and is not
  marked as a group message, while the group operations resolve the same text to the
  group it names.
\<close>

theorem text_recipient_is_user:
  "chat (source (new_message rnd8 now (resolve_recipient (Inr t)) s c)) = jid_user t \<and>
   server (chat (source (new_message rnd8 now (resolve_recipient (Inr t)) s c))) = js ''s.whatsapp.net'' \<and>
   \<not> is_group (source (new_message rnd8 now (resolve_recipient (Inr t)) s c)) \<and>
   resolve_jid (Inr (js ''123-456@g.us'')) = Inr (jid_group (js ''123-456'')) \<and>
   resolve_recipient (Inr (js ''123-456@g.us'')) = jid_user (js ''123456'')"
proof -
  have "parse_jid (js ''123-456@g.us'') = Inr (jid_group (js ''123-456''))"
    by code_simp
  then show ?thesis
    by (simp add: new_message_def resolve_recipient_def jid_user_def is_jid_group_def resolve_jid_def)
      (simp add: js_def is_digit_def cu_def)
qed

text \<open>
  The client reacts to what it sends: when a sent text is a command of the registry that
  listens to it and no guard refuses it, the command runs on the client's own message
  before the send returns.
\<close>

theorem own_message_runs_command:
  fixes cl :: "'x command_registry client"
  assumes "length rnd8 = 8" and "string_fits (jid_to_string (resolve_recipient recipient))"
    and "meJid = (case get_me cl of None \<Rightarrow> jid_user (js ''0'') | Some j \<Rightarrow> j)"
    and "m = new_message rnd8 now (resolve_recipient recipient) meJid (Text t)"
    and "parse_command lower (cmd_prefix (plugin_state cl)) t = Some (n, as)"
    and "get_command lower n (plugin_state cl) = Some cmd"
    and "refusal fixed1 (make_context (plugin_state cl) m cmd n as) (plugin_state cl) = None"
  shows "is_from_me (source m) \<and>
     (let listener = (\<lambda>m r. snd (handle_message lower (default_pipeline fixed1) exec m r));
          (res, cl') = send_message (quietly listener) rnd8 now recipient (Text t) cl;
          r = plugin_state cl; ctx = make_context r m cmd n as;
          (out, (ctx', r')) = exec (cmd_execute cmd)
            (ctx, if 0 < cooldown_of ctx then set_cooldown ctx (tick (tick r)) else tick r)
      in res = Inr m \<and> plugin_state cl' = emit_executed ctx' (date_now r' - date_now r) out (tick r'))"
proof -
  have "msg_content m = Text t" by (simp add: assms(4) new_message_def)
  then have parse: "parse_command lower (cmd_prefix (plugin_state cl)) (extract_message_text (msg_content m)) = Some (n, as)"
    using assms(5) by simp
  note handled = handle_admitted [OF parse assms(6,7), of exec]
  let ?om = "quietly (\<lambda>m r. snd (handle_message lower (default_pipeline fixed1) exec m r))"
  obtain bs where "send_message ?om rnd8 now recipient (Text t) cl = (Inr m, emit_event ?om (MessageReceived m) (log_node bs cl))"
    using send_message_fits [OF assms(1,2), of ?om now "Text t" cl] assms(3,4) by (auto simp: Let_def)
  then show ?thesis
    using handled assms(4) by (simp add: Let_def split_beta emit_quietly_plugins new_message_def)
qed

theorem own_message_runs_command_witness:
  "\<exists>cl'. send_message (quietly (\<lambda>m r. snd (handle_message id (default_pipeline (\<lambda>_. [])) (\<lambda>_ (c, r). (None, (c, log_reply (js ''pong'') r))) m r)))
       (replicate 8 0) 1700000000123 (Inr (js ''62'')) (Text (js ''!pi''))
       (new_client (default_client_config 0) [] 0 sample_registry) =
     (Inr (new_message (replicate 8 0) 1700000000123 (jid_user (js ''62'')) (jid_user (js ''0'')) (Text (js ''!pi''))), cl') \<and>
     replies (plugin_state cl') = [js ''pong'']"
proof -
  let ?cl = "new_client (default_client_config 0) [] 0 sample_registry"
  let ?m = "new_message (replicate 8 0) 1700000000123 (jid_user (js ''62'')) (jid_user (js ''0'')) (Text (js ''!pi''))"
  let ?exec = "\<lambda>_ :: nat. \<lambda>(c, r). (None, (c, log_reply (js ''pong'') r)) :: js_error option \<times> nat world"
  have fits: "string_fits (jid_to_string (resolve_recipient (Inr (js ''62''))))"
    by (rule string_fits_short)
      (simp add: resolve_recipient_def jid_user_def jid_to_string_def js_def is_digit_def cu_def)
  have cl: "plugin_state ?cl = sample_registry" "get_me ?cl = None"
    by (simp_all add: new_client_def get_me_def init_credentials_def)
  have parse: "parse_command id (cmd_prefix (plugin_state ?cl)) (js ''!pi'') = Some (js ''pi'', [])"
    using sample_parses(2) by (simp add: cl sample_message_def)
  have lookup: "get_command id (js ''pi'') (plugin_state ?cl) = Some (sample_command ''pi'')"
    by (simp only: cl sample_lookup)
  have ok: "refusal (\<lambda>_. []) (make_context (plugin_state ?cl) ?m (sample_command ''pi'') (js ''pi'') []) (plugin_state ?cl) = None"
    by (simp add: refusal_def make_context_def truthy_def sample_command_def cooldown_of_def elapsed_seconds_def
        date_now_def tick_def sample_fields cl)
  have "replies sample_registry = []"
    by (simp add: sample_registry_def new_command_registry_def register_def emit_def sample_command_def Let_def)
  then show ?thesis
    using own_message_runs_command [OF _ fits _ _ parse lookup ok, of "replicate 8 0" "jid_user (js ''0'')" 1700000000123 ?exec]
    by (simp add: cl split_beta Let_def resolve_recipient_def emit_executed_def emit_def tick_def set_cooldown_def log_reply_def
        prod_eq_iff)
qed

end
