(* ===== verification/Group_Properties.thy ===== *)
theory Group_Properties
  imports Client_Properties Codec
begin

text \<open>
  What the group operations put on the wire: the request as a tree, when it can be sent, and
  what its receiver decodes. The four operations on participants share one lemma.
\<close>

definition change_request :: "string \<Rightarrow> jstr \<Rightarrow> jstr list \<Rightarrow> node" where
  "change_request action address members =
     Node (js ''iq'') [(js ''type'', js ''set''), (js ''xmlns'', js ''w:g2''), (js ''to'', address)]
       (CNodes [Node (js action) []
         (CNodes (map (\<lambda>a. Node (js ''participant'') [(js ''jid'', a)] CUndefined) members))])"

lemma participant_node_eq: "participant_node j = Node (js ''participant'') [(js ''jid'', bare_jid j)] CUndefined"
  by (simp add: participant_node_def builder_defs obj_set_new proto_key_def array_index_word is_digit_def cu_def)

lemma group_iq_eq:
  "group_iq kind address ns =
     Node (js ''iq'') [(js ''type'', kind), (js ''xmlns'', js ''w:g2''), (js ''to'', address)] (CNodes ns)"
  by (simp add: group_iq_def builder_defs obj_set_new proto_key_def array_index_word is_digit_def cu_def)

lemma change_request_eq:
  "group_iq (js ''set'') (bare_jid g) [build (content_nodes (map participant_node us) (create (js action)))] =
     change_request action (bare_jid g) (map bare_jid us)"
  by (simp add: group_iq_eq change_request_def builder_defs participant_node_eq)

lemma change_request_wire:
  assumes "length action \<le> 1000" and "codable address" and "list_all codable members"
  shows "node_ok (change_request action address members)" and "node_depth (change_request action address members) \<le> 3"
    and "normal (change_request action address members) = change_request action address members"
    and "encodable (change_request action address members) \<longleftrightarrow>
      string_fits address \<and> list_all string_fits members \<and> length members < 65536"
proof -
  have words: "string_fits (js ''iq'')" "string_fits (js ''type'')" "string_fits (js ''set'')" "string_fits (js ''xmlns'')"
      "string_fits (js ''w:g2'')" "string_fits (js ''to'')" "string_fits (js ''participant'')" "string_fits (js ''jid'')"
      "string_fits (js action)"
    by (rule string_fits_short; use assms(1) in \<open>simp add: js_def\<close>)+
  have key: "obj_ok [(js ''jid'', a)]" for a :: jstr
    by (simp add: obj_ok_def proto_key_def)
  have keys: "obj_ok [(js ''type'', a), (js ''xmlns'', b), (js ''to'', c)]" for a b c :: jstr
    by (simp add: obj_ok_def proto_key_def array_index_word is_digit_def cu_def)
  show "node_ok (change_request action address members)"
    using assms by (simp add: change_request_def key keys list_all_iff)
  show "node_depth (change_request action address members) \<le> 3"
    by (simp add: change_request_def numeral_eq_Suc foldr_max_le)
  show "normal (change_request action address members) = change_request action address members"
    by (simp add: change_request_def)
  show "encodable (change_request action address members) \<longleftrightarrow>
      string_fits address \<and> list_all string_fits members \<and> length members < 65536"
    by (auto simp: change_request_def words list_all_iff)
qed

lemma change_participants_resolved:
  assumes "resolve_jid j = Inr g" and "forE resolve_user_jid ps = Inr us"
  shows "change_participants action om j ps cl =
     (case encode (change_request action (bare_jid g) (map bare_jid us)) of
        Inl e \<Rightarrow> (Inl (EncodeError e), cl) | Inr bs \<Rightarrow> (Inr (), log_node bs cl))"
  using assms
  by (simp add: change_participants_def resolving_def request_def change_request_eq dispatch_node_def Let_def split: sum.split)

text \<open>
  C29. Adding, removing, promoting and demoting participants, for addresses that resolve: the call
  succeeds exactly when the addresses fit the format and there are fewer than 65536 of them.
  Then it has encoded one node, and the bytes of that node decode, with a stack of three calls,
  to the request that names the group, the action of the call and the participants in the order
  given; nothing else in the client changes. Otherwise the call throws and nothing has happened.
\<close>

theorem participants_on_the_wire:
  assumes "resolve_jid j = Inr g" and "forE resolve_user_jid ps = Inr us"
    and "codable (bare_jid g)" and "list_all (\<lambda>u. codable (bare_jid u)) us"
    and "(operation, action) \<in> {(add_participants om, ''add''), (remove_participants om, ''remove''),
      (promote_participants om, ''promote''), (demote_participants om, ''demote'')}"
  shows "if string_fits (bare_jid g) \<and> list_all (\<lambda>u. string_fits (bare_jid u)) us \<and> length us < 65536
     then \<exists>bs. operation j ps cl = (Inr (), cl\<lparr>encoded_nodes := encoded_nodes cl @ [bs]\<rparr>) \<and>
       decode 3 bs = Inr (Node (js ''iq'')
         [(js ''type'', js ''set''), (js ''xmlns'', js ''w:g2''), (js ''to'', bare_jid g)]
         (CNodes [Node (js action) []
           (CNodes (map (\<lambda>u. Node (js ''participant'') [(js ''jid'', bare_jid u)] CUndefined) us))]))
     else isl (fst (operation j ps cl)) \<and> snd (operation j ps cl) = cl"
proof -
  let ?n = "change_request action (bare_jid g) (map bare_jid us)"
  have op: "operation j ps cl = change_participants action om j ps cl"
    using assms(5) by (auto simp: add_participants_def remove_participants_def promote_participants_def demote_participants_def)
  have "length action \<le> 1000" using assms(5) by auto
  note wire = change_request_wire [OF this assms(3), of "map bare_jid us"]
  have codables: "list_all codable (map bare_jid us)" using assms(4) by (simp add: list_all_iff)
  have sent: "(\<exists>bs. encode ?n = Inr bs) \<longleftrightarrow> encodable ?n"
    unfolding succeeds_write_node [symmetric] succeeds_def encode_def ..
  have decodes: "decode 3 bs = Inr ?n" if "encode ?n = Inr bs" for bs
    using decode_encoded [OF wire(1,2) [OF codables] that, of "[]"] wire(3) [OF codables] by simp
  show ?thesis
    unfolding op change_participants_resolved [OF assms(1,2)] log_node_def [symmetric]
    using sent decodes wire(4) [OF codables]
    by (auto simp: list_all_iff change_request_def comp_def split: sum.split)
qed

theorem participants_on_the_wire_witness:
  "\<exists>bs. promote_participants (quietly (\<lambda>_ p. p)) (Inl \<lparr>user = js ''7'', server = js ''g.us'', agent = None, device = None\<rparr>)
     [Inl \<lparr>user = js ''8'', server = js ''g.us'', agent = None, device = None\<rparr>] (new_client (default_client_config 0) [] 0 ()) =
     (Inr (), (new_client (default_client_config 0) [] 0 ())\<lparr>encoded_nodes := [bs]\<rparr>) \<and>
   decode 3 bs = Inr (change_request ''promote'' (js ''7@g.us'') [js ''8@g.us''])"
proof -
  let ?g = "\<lparr>user = js ''7'', server = js ''g.us'', agent = None, device = None\<rparr> :: jid"
  let ?u = "\<lparr>user = js ''8'', server = js ''g.us'', agent = None, device = None\<rparr> :: jid"
  have g: "bare_jid ?g = js ''7@g.us''" "bare_jid ?u = js ''8@g.us''" by (simp_all add: bare_jid_def js_def)
  have "string_fits (js ''7@g.us'')" "string_fits (js ''8@g.us'')"
    by (rule string_fits_short; simp add: js_def)+
  then show ?thesis
    using participants_on_the_wire [of "Inl ?g" ?g "[Inl ?u]" "[?u]" "promote_participants (quietly (\<lambda>_ p. p))" "''promote''"
        "quietly (\<lambda>_ p. p)" "new_client (default_client_config 0) [] 0 ()"]
    by (simp add: resolve_jid_def resolve_user_jid_def g change_request_def new_client_def)
qed

end
