(* ===== verification/Js_Json.thy ===== *)
theory Js_Json
  imports Js_Number
begin

text \<open>
  JSON: \<^verbatim>\<open>JSON.stringify\<close> with and without indentation, and \<^verbatim>\<open>JSON.parse\<close> as a lexer and a
  parser that consumes one token at a time. A number is kept as its literal. A value may
  hold a \<^verbatim>\<open>Uint8Array\<close>, which is printed as the object of its indices and never comes out
  of the parser. The main result is that parsing what was printed gives the value with
  its byte arrays turned into such objects, and that the text has no lone surrogate.
\<close>

datatype json = JNull | JBool bool | JNum jstr | JStr jstr | JArr "json list"
  | JObj "(jstr \<times> json) list" | JBytes bytes

section \<open>Printing\<close>

definition hex4 :: "cunit \<Rightarrow> jstr" where
  "hex4 c =
     (let n = unat c in map hex_digit [n div 4096 mod 16, n div 256 mod 16, n div 16 mod 16, n mod 16])"

definition escape_u :: "cunit \<Rightarrow> jstr" where
  "escape_u c = cu CHR 0x5C # cu CHR ''u'' # hex4 c"

definition escape_char :: "cunit \<Rightarrow> jstr" where
  "escape_char c =
     (if c = 0x22 then [0x5C, 0x22] else if c = 0x5C then [0x5C, 0x5C]
      else if c = 8 then [0x5C, 0x62] else if c = 12 then [0x5C, 0x66]
      else if c = 10 then [0x5C, 0x6E] else if c = 13 then [0x5C, 0x72]
      else if c = 9 then [0x5C, 0x74] else if c < 32 then escape_u c else [c])"

fun quote_body :: "jstr \<Rightarrow> jstr" where
  "quote_body [] = []"
| "quote_body [c] = (if is_high c \<or> is_low c then escape_u c else escape_char c)"
| "quote_body (c # d # s) =
     (if is_high c \<and> is_low d then c # d # quote_body s
      else (if is_high c \<or> is_low c then escape_u c else escape_char c) @ quote_body (d # s))"

definition quote :: "jstr \<Rightarrow> jstr" where
  "quote s = 0x22 # quote_body s @ [0x22]"

fun join :: "jstr \<Rightarrow> jstr list \<Rightarrow> jstr" where
  "join sep [] = []"
| "join sep [x] = x"
| "join sep (x # y # xs) = x @ sep @ join sep (y # xs)"

text \<open>The entries of a \<^verbatim>\<open>Uint8Array\<close>, in the order of the indices.\<close>

definition byte_entries :: "bytes \<Rightarrow> (jstr \<times> json) list" where
  "byte_entries bs = map (\<lambda>(i, b). (nat_to_js i, JNum (nat_to_js (unat b)))) (enumerate 0 bs)"

definition nl :: "jstr \<Rightarrow> jstr \<Rightarrow> jstr" where
  "nl gap ind = (if gap = [] then [] else 10 # ind)"

definition wrap :: "jstr \<Rightarrow> jstr \<Rightarrow> cunit \<Rightarrow> cunit \<Rightarrow> jstr list \<Rightarrow> jstr" where
  "wrap gap ind l r items =
     (if items = [] then [l, r]
      else [l] @ nl gap (ind @ gap) @ join (0x2C # nl gap (ind @ gap)) items @ nl gap ind @ [r])"

definition entry :: "jstr \<Rightarrow> jstr \<Rightarrow> jstr \<Rightarrow> jstr" where
  "entry gap k v = quote k @ [0x3A] @ (if gap = [] then [] else [32]) @ v"

text \<open>\<open>gap\<close> is the indentation of one level, \<open>ind\<close> that of the level the value is on.\<close>

fun print_json :: "jstr \<Rightarrow> jstr \<Rightarrow> json \<Rightarrow> jstr" where
  "print_json gap ind JNull = js ''null''"
| "print_json gap ind (JBool b) = (if b then js ''true'' else js ''false'')"
| "print_json gap ind (JNum n) = n"
| "print_json gap ind (JStr s) = quote s"
| "print_json gap ind (JArr vs) = wrap gap ind 0x5B 0x5D (map (print_json gap (ind @ gap)) vs)"
| "print_json gap ind (JObj ps) =
     wrap gap ind 0x7B 0x7D (map (\<lambda>p. entry gap (fst p) (print_json gap (ind @ gap) (snd p))) ps)"
| "print_json gap ind (JBytes bs) =
     wrap gap ind 0x7B 0x7D (map (\<lambda>(i, b). entry gap (nat_to_js i) (nat_to_js (unat b))) (enumerate 0 bs))"

definition stringify :: "nat \<Rightarrow> json \<Rightarrow> jstr" where
  "stringify indent v = print_json (replicate indent 32) [] v"

section \<open>Parsing\<close>

datatype jtok = TLBrace | TRBrace | TLBrack | TRBrack | TColon | TComma | TTrue | TFalse | TNull
  | TStr jstr | TNum jstr

definition hex_value :: "cunit \<Rightarrow> cunit option" where
  "hex_value c =
     (if 48 \<le> c \<and> c \<le> 57 then Some (c - 48)
      else if 97 \<le> c \<and> c \<le> 102 then Some (c - 87)
      else if 65 \<le> c \<and> c \<le> 70 then Some (c - 55) else None)"

definition unhex4 :: "cunit \<Rightarrow> cunit \<Rightarrow> cunit \<Rightarrow> cunit \<Rightarrow> cunit option" where
  "unhex4 a b c d =
     (case (hex_value a, hex_value b, hex_value c, hex_value d) of
        (Some w, Some x, Some y, Some z) \<Rightarrow> Some (((w * 16 + x) * 16 + y) * 16 + z)
      | _ \<Rightarrow> None)"

definition unescape :: "cunit \<Rightarrow> cunit option" where
  "unescape e =
     map_of [(0x22, 0x22), (0x5C, 0x5C), (0x2F, 0x2F), (0x62, 8), (0x66, 12), (0x6E, 10), (0x72, 13), (0x74, 9)] e"

text \<open>The rest of a string literal after its opening quote: the text and what follows it.\<close>

fun lex_string :: "jstr \<Rightarrow> (jstr \<times> jstr) option" where
  "lex_string [] = None"
| "lex_string (c # s) =
     (if c = 0x22 then Some ([], s)
      else if c < 32 then None
      else if c = 0x5C then
        (case s of
           [] \<Rightarrow> None
         | e # s' \<Rightarrow>
             if e = 0x75 then
               (case s' of
                  w # x # y # z # s'' \<Rightarrow>
                    (case unhex4 w x y z of
                       None \<Rightarrow> None
                     | Some u \<Rightarrow> map_option (apfst (Cons u)) (lex_string s''))
                | _ \<Rightarrow> None)
             else (case unescape e of
                     None \<Rightarrow> None
                   | Some u \<Rightarrow> map_option (apfst (Cons u)) (lex_string s')))
      else map_option (apfst (Cons c)) (lex_string s))"

definition num_char :: "cunit \<Rightarrow> bool" where
  "num_char c = (is_digit c \<or> c \<in> {0x2B, 0x2D, 0x2E, 0x45, 0x65})"

definition digits1 :: "jstr \<Rightarrow> bool" where
  "digits1 s = (s \<noteq> [] \<and> list_all is_digit s)"

text \<open>The grammar of a number: sign, integer part, fraction, exponent.\<close>

definition valid_exponent :: "jstr \<Rightarrow> bool" where
  "valid_exponent s =
     (s = [] \<or> (hd s \<in> {0x45, 0x65} \<and>
        digits1 (case tl s of [] \<Rightarrow> [] | c # t \<Rightarrow> if c \<in> {0x2B, 0x2D} then t else c # t)))"

definition valid_number :: "jstr \<Rightarrow> bool" where
  "valid_number s =
     (let s = (case s of [] \<Rightarrow> [] | c # t \<Rightarrow> if c = 0x2D then t else c # t);
          ip = takeWhile is_digit s; s = dropWhile is_digit s
      in ip \<noteq> [] \<and> (hd ip = 48 \<longrightarrow> tl ip = []) \<and>
         (case s of
            [] \<Rightarrow> True
          | c # t \<Rightarrow>
              if c = 0x2E then takeWhile is_digit t \<noteq> [] \<and> valid_exponent (dropWhile is_digit t)
              else valid_exponent (c # t)))"

definition json_space :: "cunit \<Rightarrow> bool" where
  "json_space c = (c \<in> {9, 10, 13, 32})"

definition punctuation :: "cunit \<Rightarrow> jtok option" where
  "punctuation c = map_of [(0x7B, TLBrace), (0x7D, TRBrace), (0x5B, TLBrack), (0x5D, TRBrack),
     (0x3A, TColon), (0x2C, TComma)] c"

definition keyword :: "jstr \<Rightarrow> (jtok \<times> jstr) option" where
  "keyword s =
     (if take 4 s = js ''true'' then Some (TTrue, drop 4 s)
      else if take 5 s = js ''false'' then Some (TFalse, drop 5 s)
      else if take 4 s = js ''null'' then Some (TNull, drop 4 s) else None)"

text \<open>The first token of a text that starts with no white space, and what follows it.\<close>

definition lex_token :: "jstr \<Rightarrow> (jtok \<times> jstr) option" where
  "lex_token s =
     (case punctuation (hd s) of
        Some t \<Rightarrow> Some (t, tl s)
      | None \<Rightarrow>
          if hd s = 0x22 then map_option (apfst TStr) (lex_string (tl s))
          else if num_char (hd s) then
            (if valid_number (takeWhile num_char s)
             then Some (TNum (takeWhile num_char s), dropWhile num_char s) else None)
          else keyword s)"

lemma lex_string_shorter: "lex_string s = Some (t, r) \<Longrightarrow> length r < length s"
proof (induction s arbitrary: t r rule: length_induct)
  case (1 s)
  have IH: "length r < length u" if "lex_string u = Some (t, r)" "length u < length s" for u t r
    using 1(1) that by blast
  show ?case
  proof (cases s)
    case Nil
    with 1(2) show ?thesis by simp
  next
    case (Cons c u)
    note s = Cons
    consider "c = 0x22" | "c \<noteq> 0x22" "c = 0x5C" | "c \<noteq> 0x22" "c \<noteq> 0x5C" by blast
    then show ?thesis
    proof cases
      case 1
      with \<open>lex_string s = Some (t, r)\<close> s show ?thesis by simp
    next
      case 2
      then obtain e u' where u: "u = e # u'" using \<open>lex_string s = Some (t, r)\<close> s by (cases u) auto
      show ?thesis
      proof (cases "e = 0x75")
        case True
        then obtain w x y z v a where "u' = w # x # y # z # v" "lex_string v = Some (a, r)"
          using \<open>lex_string s = Some (t, r)\<close> s u 2 by (auto split: list.splits option.splits)
        with IH [of v a r] s u show ?thesis by simp
      next
        case False
        then obtain a where "lex_string u' = Some (a, r)"
          using \<open>lex_string s = Some (t, r)\<close> s u 2 by (auto split: option.splits)
        with IH [of u' a r] s u show ?thesis by simp
      qed
    next
      case 3
      then obtain a where "lex_string u = Some (a, r)"
        using \<open>lex_string s = Some (t, r)\<close> s by (auto split: if_splits)
      with IH [of u a r] s show ?thesis by simp
    qed
  qed
qed

lemma length_dropWhile_Cons: "P c \<Longrightarrow> length (dropWhile P (c # s)) < Suc (length s)"
  by (simp add: le_imp_less_Suc length_dropWhile_le)

lemma keyword_shorter: "keyword s = Some (t, r) \<Longrightarrow> s \<noteq> [] \<Longrightarrow> length r < length s"
  by (auto simp: keyword_def split: if_splits)

lemma lex_token_shorter:
  assumes "lex_token s = Some (t, r)" and "s \<noteq> []"
  shows "length r < length s"
proof -
  obtain c u where s: "s = c # u" using assms(2) by (cases s) auto
  consider tok where "punctuation c = Some tok" | "punctuation c = None" "c = 0x22"
    | "punctuation c = None" "c \<noteq> 0x22" "num_char c" | "punctuation c = None" "c \<noteq> 0x22" "\<not> num_char c"
    by (cases "punctuation c"; cases "c = 0x22"; cases "num_char c") auto
  then show ?thesis
  proof cases
    case 1
    with assms(1) s show ?thesis by (simp add: lex_token_def)
  next
    case 2
    with assms(1) s obtain a where "lex_string u = Some (a, r)" by (auto simp: lex_token_def)
    with lex_string_shorter [OF this] s show ?thesis by simp
  next
    case 3
    with assms(1) s length_dropWhile_Cons [of num_char c u] show ?thesis
      by (auto simp: lex_token_def split: if_splits)
  next
    case 4
    with assms(1) s have "keyword s = Some (t, r)" by (simp add: lex_token_def)
    then show ?thesis using keyword_shorter assms(2) by blast
  qed
qed

function lex_json :: "jstr \<Rightarrow> jtok list option" where
  "lex_json s =
     (let s = dropWhile json_space s
      in if s = [] then Some []
         else case lex_token s of
                None \<Rightarrow> None
              | Some (t, r) \<Rightarrow> map_option (Cons t) (lex_json r))"
  by pat_completeness auto

lemma lex_shorter:
  assumes "u = dropWhile json_space s" and "u \<noteq> []" and "lex_token u = Some p" and "(t, r) = p"
  shows "length r < length s"
  using lex_token_shorter [of u t r] assms length_dropWhile_le [of json_space s] by simp

termination lex_json
  by (relation "measure length") (rule wf_measure, unfold in_measure, rule lex_shorter)

declare lex_json.simps [simp del]

section \<open>The parser\<close>

text \<open>
  The open arrays and objects around a position, innermost first, with what they hold so
  far, and what the parser expects next.
\<close>

datatype frame = InArr "json list" | InObj "(jstr \<times> json) list" jstr

datatype parser_state =
    WantValue "frame list"
  | ArrStart "frame list"
  | AfterArr "json list" "frame list"
  | ObjStart "frame list"
  | WantKey "(jstr \<times> json) list" "frame list"
  | WantColon "(jstr \<times> json) list" jstr "frame list"
  | AfterObj "(jstr \<times> json) list" "frame list"
  | Done json

fun complete :: "json \<Rightarrow> frame list \<Rightarrow> parser_state" where
  "complete v [] = Done v"
| "complete v (InArr vs # st) = AfterArr (vs @ [v]) st"
| "complete v (InObj ps k # st) = AfterObj (ps @ [(k, v)]) st"

fun start_value :: "jtok \<Rightarrow> frame list \<Rightarrow> parser_state option" where
  "start_value TNull st = Some (complete JNull st)"
| "start_value TTrue st = Some (complete (JBool True) st)"
| "start_value TFalse st = Some (complete (JBool False) st)"
| "start_value (TNum n) st = Some (complete (JNum n) st)"
| "start_value (TStr s) st = Some (complete (JStr s) st)"
| "start_value TLBrack st = Some (ArrStart st)"
| "start_value TLBrace st = Some (ObjStart st)"
| "start_value _ st = None"

fun parse_step :: "jtok \<Rightarrow> parser_state \<Rightarrow> parser_state option" where
  "parse_step t (WantValue st) = start_value t st"
| "parse_step t (ArrStart st) = (if t = TRBrack then Some (complete (JArr []) st) else start_value t (InArr [] # st))"
| "parse_step t (AfterArr vs st) =
     (if t = TComma then Some (WantValue (InArr vs # st))
      else if t = TRBrack then Some (complete (JArr vs) st) else None)"
| "parse_step (TStr k) (ObjStart st) = Some (WantColon [] k st)"
| "parse_step TRBrace (ObjStart st) = Some (complete (JObj []) st)"
| "parse_step (TStr k) (WantKey ps st) = Some (WantColon ps k st)"
| "parse_step TColon (WantColon ps k st) = Some (WantValue (InObj ps k # st))"
| "parse_step t (AfterObj ps st) =
     (if t = TComma then Some (WantKey ps st)
      else if t = TRBrace then Some (complete (JObj ps) st) else None)"
| "parse_step _ _ = None"

fun parse_run :: "jtok list \<Rightarrow> parser_state \<Rightarrow> parser_state option" where
  "parse_run [] st = Some st"
| "parse_run (t # ts) st = Option.bind (parse_step t st) (parse_run ts)"

text \<open>\<^verbatim>\<open>JSON.parse\<close>; \<^const>\<open>None\<close> for a \<^verbatim>\<open>SyntaxError\<close>.\<close>

definition parse_json :: "jstr \<Rightarrow> json option" where
  "parse_json s =
     Option.bind (lex_json s) (\<lambda>ts. case parse_run ts (WantValue []) of Some (Done v) \<Rightarrow> Some v | _ \<Rightarrow> None)"

text \<open>The value of a property of an object; a repeated name has its last value.\<close>

definition json_get :: "jstr \<Rightarrow> json \<Rightarrow> json option" where
  "json_get k v = (case v of JObj ps \<Rightarrow> map_of (rev ps) k | _ \<Rightarrow> None)"

section \<open>The tokens of a value\<close>

text \<open>Byte arrays turned into objects.\<close>

fun plain :: "json \<Rightarrow> json" where
  "plain (JArr vs) = JArr (map plain vs)"
| "plain (JObj ps) = JObj (map (\<lambda>p. (fst p, plain (snd p))) ps)"
| "plain (JBytes bs) = JObj (byte_entries bs)"
| "plain v = v"

fun comma_separated :: "jtok list list \<Rightarrow> jtok list" where
  "comma_separated [] = []"
| "comma_separated [x] = x"
| "comma_separated (x # y # xs) = x @ TComma # comma_separated (y # xs)"

fun tokens_of :: "json \<Rightarrow> jtok list" where
  "tokens_of JNull = [TNull]"
| "tokens_of (JBool b) = [if b then TTrue else TFalse]"
| "tokens_of (JNum n) = [TNum n]"
| "tokens_of (JStr s) = [TStr s]"
| "tokens_of (JArr vs) = TLBrack # comma_separated (map tokens_of vs) @ [TRBrack]"
| "tokens_of (JObj ps) =
     TLBrace # comma_separated (map (\<lambda>p. TStr (fst p) # TColon # tokens_of (snd p)) ps) @ [TRBrace]"
| "tokens_of (JBytes bs) =
     TLBrace # comma_separated (map (\<lambda>(i, b). [TStr (nat_to_js i), TColon, TNum (nat_to_js (unat b))])
       (enumerate 0 bs)) @ [TRBrace]"

lemma parse_run_append: "parse_run (ts @ us) st = Option.bind (parse_run ts st) (parse_run us)"
  by (induction ts arbitrary: st) (auto split: bind_splits)

lemma tokens_plain: "tokens_of (plain v) = tokens_of v"
proof (induction v)
  case (JArr vs)
  then have "map tokens_of (map plain vs) = map tokens_of vs" by simp
  then show ?case by (simp only: plain.simps tokens_of.simps)
next
  case (JObj ps)
  then have "map (\<lambda>p. TStr (fst p) # TColon # tokens_of (snd p)) (map (\<lambda>p. (fst p, plain (snd p))) ps) =
      map (\<lambda>p. TStr (fst p) # TColon # tokens_of (snd p)) ps"
    by fastforce
  then show ?case by (simp only: plain.simps tokens_of.simps)
next
  case (JBytes bs)
  then show ?case by (simp add: byte_entries_def o_def case_prod_unfold)
qed simp_all

text \<open>No byte array inside.\<close>

fun byte_free :: "json \<Rightarrow> bool" where
  "byte_free (JArr vs) = list_all byte_free vs"
| "byte_free (JObj ps) = list_all (\<lambda>p. byte_free (snd p)) ps"
| "byte_free (JBytes bs) = False"
| "byte_free v = True"

lemma byte_free_plain: "byte_free (plain v)"
  by (induction v) (auto simp: list_all_iff byte_entries_def)

lemma plain_id: "byte_free v \<Longrightarrow> plain v = v"
  by (induction v) (auto simp: list_all_iff intro!: map_idI)

lemma parse_elements:
  assumes "\<And>v st. v \<in> set vs \<Longrightarrow> parse_run (tokens_of v) (WantValue st) = Some (complete v st)" and "vs \<noteq> []"
  shows "parse_run (comma_separated (map tokens_of vs)) (WantValue (InArr us # st)) = Some (AfterArr (us @ vs) st)"
  using assms
proof (induction vs arbitrary: us rule: induct_list012)
  case (3 v w vs)
  have "parse_run (comma_separated (map tokens_of (w # vs))) (WantValue (InArr (us @ [v]) # st)) =
      Some (AfterArr ((us @ [v]) @ w # vs) st)"
    using 3(2) [of "us @ [v]"] 3(3) by simp
  then show ?case using 3(3) [of v] by (simp add: parse_run_append)
qed simp_all

lemma parse_entries:
  assumes "\<And>p st. p \<in> set ps \<Longrightarrow> parse_run (tokens_of (snd p)) (WantValue st) = Some (complete (snd p) st)"
    and "ps \<noteq> []"
  shows "parse_run (comma_separated (map (\<lambda>p. TStr (fst p) # TColon # tokens_of (snd p)) ps)) (WantKey qs st) =
     Some (AfterObj (qs @ ps) st)"
  using assms
proof (induction ps arbitrary: qs rule: induct_list012)
  case (3 p q ps)
  have "parse_run (comma_separated (map (\<lambda>p. TStr (fst p) # TColon # tokens_of (snd p)) (q # ps)))
      (WantKey (qs @ [p]) st) = Some (AfterObj ((qs @ [p]) @ q # ps) st)"
    using 3(2) [of "qs @ [p]"] 3(3) by simp
  then show ?case using 3(3) [of p] by (simp add: parse_run_append)
qed simp_all

text \<open>A non-empty array or object is entered as its later elements are.\<close>

lemma parse_run_start:
  "parse_run (comma_separated (t # ts)) (WantValue (InArr [] # st)) = Some s \<Longrightarrow> t \<noteq> [] \<Longrightarrow> hd t \<noteq> TRBrack \<Longrightarrow>
     parse_run (comma_separated (t # ts)) (ArrStart st) = Some s"
  by (cases t; cases ts) auto

lemma tokens_start: "tokens_of v \<noteq> [] \<and> hd (tokens_of v) \<noteq> TRBrack"
  by (cases v) auto

lemma parse_tokens_of:
  assumes "byte_free v"
  shows "parse_run (tokens_of v) (WantValue st) = Some (complete v st)"
  using assms
proof (induction v arbitrary: st)
  case (JArr vs)
  show ?case
  proof (cases vs)
    case Nil
    then show ?thesis by simp
  next
    case (Cons v ws)
    have "parse_run (tokens_of v) (WantValue st) = Some (complete v st)" if "v \<in> set vs" for v st
      using JArr that by (simp add: list_all_iff)
    then have "parse_run (comma_separated (map tokens_of vs)) (WantValue (InArr [] # st)) = Some (AfterArr vs st)"
      using parse_elements [of vs "[]" st] Cons by simp
    then have "parse_run (comma_separated (map tokens_of vs)) (ArrStart st) = Some (AfterArr vs st)"
      using parse_run_start tokens_start Cons by simp
    then show ?thesis by (simp add: parse_run_append)
  qed
next
  case (JObj ps)
  show ?case
  proof (cases ps)
    case Nil
    then show ?thesis by simp
  next
    case (Cons p qs)
    have "parse_run (tokens_of (snd q)) (WantValue st) = Some (complete (snd q) st)" if "q \<in> set ps" for q st
      using JObj that by (cases q) (auto simp: list_all_iff)
    then have "parse_run (comma_separated (map (\<lambda>p. TStr (fst p) # TColon # tokens_of (snd p)) ps)) (WantKey [] st) =
        Some (AfterObj ps st)"
      using parse_entries [of ps "[]" st] Cons by simp
    moreover have "parse_run (comma_separated (map (\<lambda>p. TStr (fst p) # TColon # tokens_of (snd p)) ps)) (WantKey [] st) =
        parse_run (comma_separated (map (\<lambda>p. TStr (fst p) # TColon # tokens_of (snd p)) ps)) (ObjStart st)"
      using Cons by (cases qs) simp_all
    ultimately show ?thesis by (simp add: parse_run_append)
  qed
qed simp_all

lemma parse_tokens_plain: "parse_run (tokens_of v) (WantValue []) = Some (Done (plain v))"
  using parse_tokens_of [OF byte_free_plain, of v "[]"] by (simp add: tokens_plain)

section \<open>The text of a value lexes to its tokens\<close>

text \<open>
  \<open>lexes s ts\<close>: in front of anything the text gives the tokens; \<open>lexes_sep\<close>: in front of
  anything that cannot go on with a number.
\<close>

definition lexes :: "jstr \<Rightarrow> jtok list \<Rightarrow> bool" where
  "lexes s ts = (\<forall>r. lex_json (s @ r) = map_option ((@) ts) (lex_json r))"

definition separated :: "jstr \<Rightarrow> bool" where
  "separated r = (r = [] \<or> \<not> num_char (hd r))"

definition lexes_sep :: "jstr \<Rightarrow> jtok list \<Rightarrow> bool" where
  "lexes_sep s ts = (\<forall>r. separated r \<longrightarrow> lex_json (s @ r) = map_option ((@) ts) (lex_json r))"

lemma map_option_append:
  "map_option ((@) []) z = z" "map_option ((@) [t]) z = map_option ((#) t) z"
  "map_option ((@) (ts @ us)) z = map_option (\<lambda>x. ts @ us @ x) z"
  by (cases z; simp)+

lemma lexes_append: "lexes a ts \<Longrightarrow> lexes b us \<Longrightarrow> lexes (a @ b) (ts @ us)"
  by (simp add: lexes_def option.map_comp o_def map_option_append)

lemma lexes_append_sep: "lexes a ts \<Longrightarrow> lexes_sep b us \<Longrightarrow> lexes_sep (a @ b) (ts @ us)"
  by (simp add: lexes_def lexes_sep_def option.map_comp o_def map_option_append)

lemma lexes_sep_append:
  "lexes_sep a ts \<Longrightarrow> lexes b us \<Longrightarrow> b \<noteq> [] \<Longrightarrow> \<not> num_char (hd b) \<Longrightarrow> lexes (a @ b) (ts @ us)"
  by (simp add: lexes_def lexes_sep_def separated_def option.map_comp o_def hd_append map_option_append)

lemma lexes_is_sep: "lexes s ts \<Longrightarrow> lexes_sep s ts"
  by (simp add: lexes_def lexes_sep_def)

lemma lexes_Nil: "lexes [] []"
  by (simp add: lexes_def map_option_append)

lemma lex_Nil [simp]: "lex_json [] = Some []"
  by (simp add: lex_json.simps)

lemma lex_skip: "json_space c \<Longrightarrow> lex_json (c # s) = lex_json s"
  by (subst (1 2) lex_json.simps) simp

lemma lex_next:
  "s \<noteq> [] \<Longrightarrow> \<not> json_space (hd s) \<Longrightarrow> lex_token s = Some (t, r) \<Longrightarrow> lex_json s = map_option (Cons t) (lex_json r)"
  by (subst lex_json.simps) (cases s, simp_all)

lemma lexes_spaces: "list_all json_space s \<Longrightarrow> lexes s []"
  by (induction s) (auto simp: lexes_def lex_skip map_option_append)

lemma lexes_punctuation:
  assumes "punctuation c = Some t"
  shows "lexes [c] [t]"
proof -
  have "\<not> json_space c" using assms by (auto simp: punctuation_def json_space_def split: if_splits)
  then show ?thesis
    using assms lex_next [of "c # _"] by (auto simp: lexes_def lex_token_def map_option_append)
qed

lemma lexes_keyword:
  "lexes (js ''true'') [TTrue]" "lexes (js ''false'') [TFalse]" "lexes (js ''null'') [TNull]"
  by (auto simp: lexes_def lex_token_def js_def cu_def json_space_def punctuation_def num_char_def is_digit_def
      keyword_def map_option_append intro!: lex_next [THEN trans])

subsection \<open>Strings\<close>

lemma hex_value_digit: "d < 16 \<Longrightarrow> hex_value (hex_digit d) = Some (of_nat d)"
proof -
  have "list_all (\<lambda>d. hex_value (hex_digit d) = Some (of_nat d)) [0..<16]" by code_simp
  then show "d < 16 \<Longrightarrow> hex_value (hex_digit d) = Some (of_nat d)" by (simp add: list_all_iff)
qed

lemma nibbles:
  assumes "n < (65536 :: nat)"
  shows "((n div 4096 mod 16 * 16 + n div 256 mod 16) * 16 + n div 16 mod 16) * 16 + n mod 16 = n"
proof -
  define a b d where "a = n div 16" and "b = a div 16" and "d = b div 16"
  have n: "n = 16 * a + n mod 16" "a = 16 * b + a mod 16" "b = 16 * d + b mod 16"
    by (simp_all add: a_def b_def d_def)
  have "n div 256 = b" using div_mult2_eq [of n 16 16] by (simp add: a_def b_def)
  moreover have d: "n div 4096 = d"
    using div_mult2_eq [of n 16 256] div_mult2_eq [of "n div 16" 16 16] by (simp add: a_def b_def d_def)
  moreover have "n div 4096 < 16" using assms by (simp add: less_mult_imp_div_less)
  with d have "d < 16" by simp
  ultimately show ?thesis using n by (simp add: a_def [symmetric])
qed

lemma unhex4_hex4: "hex4 c = [w, x, y, z] \<Longrightarrow> unhex4 w x y z = Some c"
proof -
  assume h: "hex4 c = [w, x, y, z]"
  let ?n = "unat c"
  have ds: "hex_value w = Some (of_nat (?n div 4096 mod 16))" "hex_value x = Some (of_nat (?n div 256 mod 16))"
      "hex_value y = Some (of_nat (?n div 16 mod 16))" "hex_value z = Some (of_nat (?n mod 16))"
    using h by (auto simp: hex4_def hex_value_digit Let_def)
  have "?n < 65536" using unsigned_less [of c] by simp
  from nibbles [OF this] have "of_nat (((?n div 4096 mod 16 * 16 + ?n div 256 mod 16) * 16 + ?n div 16 mod 16) * 16 + ?n mod 16) = c"
    by (simp only:) simp
  then show ?thesis by (simp only: unhex4_def ds of_nat_add of_nat_mult of_nat_numeral option.case prod.case)
qed

lemma lex_escape_u: "lex_string (escape_u c @ r) = map_option (apfst (Cons c)) (lex_string r)"
proof -
  obtain w x y z where "hex4 c = [w, x, y, z]" by (simp add: hex4_def Let_def)
  then show ?thesis by (simp add: escape_u_def unhex4_hex4 cu_def)
qed

lemma lex_escape_char:
  "\<not> is_high c \<and> \<not> is_low c \<Longrightarrow> lex_string (escape_char c @ r) = map_option (apfst (Cons c)) (lex_string r)"
  by (auto simp: escape_char_def lex_escape_u unescape_def)

lemma surrogate_big: "is_high c \<or> is_low c \<Longrightarrow> c \<noteq> 0x22 \<and> c \<noteq> 0x5C \<and> \<not> c < 32"
proof -
  assume "is_high c \<or> is_low c"
  then have "0xD800 \<le> unat c" using unat_high [of c] unat_low [of c] by auto
  then show ?thesis by (auto simp: word_less_nat_alt)
qed

lemma lex_quote_body: "lex_string (quote_body s @ 0x22 # r) = Some (s, r)"
proof (induction s rule: quote_body.induct)
  case (2 c)
  then show ?case by (simp add: lex_escape_u lex_escape_char)
next
  case (3 c d s)
  show ?case
  proof (cases "is_high c \<and> is_low d")
    case True
    with 3(1) [OF True] surrogate_big [of c] surrogate_big [of d] show ?thesis by simp
  next
    case False
    with 3(2) [OF False] show ?thesis by (auto simp: lex_escape_u lex_escape_char)
  qed
qed simp

lemma lexes_quote: "lexes (quote s) [TStr s]"
proof -
  have "lex_token (quote s @ r) = Some (TStr s, r)" for r
    by (simp add: lex_token_def quote_def punctuation_def lex_quote_body)
  then show ?thesis
    unfolding lexes_def map_option_append by (intro allI lex_next) (simp_all add: quote_def json_space_def)
qed

subsection \<open>Numbers\<close>

definition number_ok :: "jstr \<Rightarrow> bool" where
  "number_ok n = (list_all num_char n \<and> valid_number n)"

lemma num_char_facts: "num_char c \<Longrightarrow> \<not> json_space c \<and> punctuation c = None \<and> c \<noteq> 0x22"
  by (auto simp: num_char_def json_space_def punctuation_def is_digit_def)

lemma takeWhile_separated:
  assumes "list_all num_char n" and "separated r"
  shows "takeWhile num_char (n @ r) = n" and "dropWhile num_char (n @ r) = r"
  using assms by (induction n) (cases r; simp add: separated_def)+

lemma lexes_number:
  assumes "number_ok n"
  shows "lexes_sep n [TNum n]"
proof -
  have n: "list_all num_char n" "valid_number n" using assms by (simp_all add: number_ok_def)
  then obtain c u where "n = c # u" by (cases n) (auto simp: valid_number_def)
  then have facts: "n \<noteq> []" "\<not> json_space (hd n)" "punctuation (hd n) = None" "hd n \<noteq> 0x22" "num_char (hd n)"
    using n(1) num_char_facts [of c] by auto
  have "lex_token (n @ r) = Some (TNum n, r)" if "separated r" for r
    using facts n takeWhile_separated [OF n(1) that] by (simp add: lex_token_def)
  then show ?thesis
    unfolding lexes_sep_def map_option_append using facts by (intro allI impI lex_next) simp_all
qed

lemma hd_digits: "hd (digits n) = 0 \<Longrightarrow> n = 0"
proof (induction n rule: digits.induct)
  case (1 n)
  then show ?case by (cases "n < 10") (auto simp: digits_ge hd_append)
qed

lemma nat_to_js_zero: "hd (nat_to_js n) = 48 \<Longrightarrow> nat_to_js n = [48]"
proof -
  assume h: "hd (nat_to_js n) = 48"
  have "hd (nat_to_js n) = digit_cu (hd (digits n))" by (simp add: nat_to_js_def hd_map)
  then have "unat (digit_cu (hd (digits n))) = 48" using h by simp
  moreover have "hd (digits n) < 10" by (rule digits_bound [where n = n]) simp
  ultimately have "hd (digits n) = 0" by (simp add: unat_digit_cu)
  then have "n = 0" by (rule hd_digits)
  then show ?thesis by (simp add: nat_to_js_def digit_cu_def)
qed

lemma digits_number_ok:
  assumes "list_all is_digit s" and "s \<noteq> []" and "hd s = 48 \<longrightarrow> tl s = []"
  shows "number_ok s" and "number_ok (0x2D # s)"
proof -
  obtain c t where s: "s = c # t" using assms(2) by (cases s) auto
  have tw: "takeWhile is_digit t = t" "dropWhile is_digit t = []"
    using assms(1) s by (simp_all add: takeWhile_eq_all_conv list_all_iff)
  have "c \<noteq> 0x2D" using assms(1) s by (auto simp: is_digit_def)
  then show "number_ok s" "number_ok (0x2D # s)"
    using assms s by (auto simp: tw number_ok_def valid_number_def num_char_def list_all_iff Let_def)
qed

lemma number_ok_nat: "number_ok (nat_to_js n)"
proof (rule digits_number_ok(1))
  show "list_all is_digit (nat_to_js n)" using nat_to_js_digits by (simp add: list_all_iff)
  show "hd (nat_to_js n) = 48 \<longrightarrow> tl (nat_to_js n) = []" using nat_to_js_zero [of n] by auto
qed simp

lemma number_ok_int: "safe_int k \<Longrightarrow> number_ok (num_to_js (Fin k))"
proof -
  have "number_ok (0x2D # nat_to_js n)" for n
  proof (rule digits_number_ok(2))
    show "list_all is_digit (nat_to_js n)" using nat_to_js_digits by (simp add: list_all_iff)
    show "hd (nat_to_js n) = 48 \<longrightarrow> tl (nat_to_js n) = []" using nat_to_js_zero [of n] by auto
  qed simp
  then show "safe_int k \<Longrightarrow> number_ok (num_to_js (Fin k))"
    using number_ok_nat by (simp add: num_to_js_safe cu_def del: num_to_js.simps)
qed

subsection \<open>Values\<close>

text \<open>What a value must be for its numbers to be numbers.\<close>

fun numbers_ok :: "json \<Rightarrow> bool" where
  "numbers_ok (JNum n) = number_ok n"
| "numbers_ok (JArr vs) = list_all numbers_ok vs"
| "numbers_ok (JObj ps) = list_all (\<lambda>p. numbers_ok (snd p)) ps"
| "numbers_ok v = True"

lemma lexes_comma: "list_all json_space sp \<Longrightarrow> lexes (0x2C # sp) [TComma]"
  using lexes_append [OF lexes_punctuation [of "0x2C" TComma] lexes_spaces [of sp]]
  by (simp add: punctuation_def)

lemma lexes_join:
  assumes "list_all json_space sp" and "list_all2 lexes_sep items ts" and "items \<noteq> []"
  shows "lexes_sep (join (0x2C # sp) items) (comma_separated ts)"
  using assms(2,3)
proof (induction items arbitrary: ts rule: induct_list012)
  case (2 x)
  then obtain t where "ts = [t]" "lexes_sep x t" by (auto simp: list_all2_Cons1)
  then show ?case by simp
next
  case (3 x y xs)
  then obtain t u us where ts: "ts = t # u # us" and t: "lexes_sep x t" and us: "list_all2 lexes_sep (y # xs) (u # us)"
    by (auto simp: list_all2_Cons1)
  have "lexes (x @ 0x2C # sp) (t @ [TComma])"
    using lexes_sep_append [OF t lexes_comma [OF assms(1)]] by (simp add: num_char_def is_digit_def)
  from lexes_append_sep [OF this 3(2) [OF us]] show ?case by (simp add: ts)
qed simp

lemma lexes_wrap:
  assumes "list_all json_space gap" and "list_all json_space ind" and "list_all2 lexes_sep items ts"
    and "punctuation l = Some tl'" and "punctuation r = Some tr" and "\<not> num_char r"
  shows "lexes (wrap gap ind l r items) (tl' # comma_separated ts @ [tr])"
proof (cases "items = []")
  case True
  then show ?thesis
    using lexes_append [OF lexes_punctuation [OF assms(4)] lexes_punctuation [OF assms(5)]] assms(3)
    by (simp add: wrap_def)
next
  case False
  have nl: "list_all json_space (nl gap i)" if "list_all json_space i" for i
    using that by (simp add: nl_def json_space_def)
  have inner: "list_all json_space (nl gap (ind @ gap))" and outer: "list_all json_space (nl gap ind)"
    using nl assms(1,2) by simp_all
  have start: "lexes ([l] @ nl gap (ind @ gap)) [tl']"
    using lexes_append [OF lexes_punctuation [OF assms(4)] lexes_spaces [OF inner]] by simp
  have stop: "lexes (nl gap ind @ [r]) [tr]"
    using lexes_append [OF lexes_spaces [OF outer] lexes_punctuation [OF assms(5)]] by simp
  have hd_stop: "\<not> num_char (hd (nl gap ind @ [r]))"
    using assms(6) by (simp add: nl_def hd_append num_char_def is_digit_def)
  have "lexes_sep ([l] @ nl gap (ind @ gap) @ join (0x2C # nl gap (ind @ gap)) items) (tl' # comma_separated ts)"
    using lexes_append_sep [OF start lexes_join [OF inner assms(3) False]] by simp
  from lexes_sep_append [OF this stop _ hd_stop] show ?thesis using False by (simp add: wrap_def)
qed

lemma lexes_entry:
  assumes "lexes_sep v ts"
  shows "lexes_sep (entry gap k v) (TStr k # TColon # ts)"
proof -
  have "lexes ([0x3A] @ (if gap = [] then [] else [32])) [TColon]"
    using lexes_append [OF lexes_punctuation [of "0x3A" TColon] lexes_spaces [of "if gap = [] then [] else [32]"]]
    by (simp add: punctuation_def json_space_def)
  from lexes_append_sep [OF lexes_append [OF lexes_quote this] assms] show ?thesis
    by (simp add: entry_def)
qed

lemma lexes_print:
  assumes "list_all json_space gap" and "list_all json_space ind" and "numbers_ok v"
  shows "lexes_sep (print_json gap ind v) (tokens_of v)"
  using assms(2,3)
proof (induction v arbitrary: ind)
  case (JNum n)
  then show ?case by (simp add: lexes_number)
next
  case (JArr vs)
  have "list_all2 lexes_sep (map (print_json gap (ind @ gap)) vs) (map tokens_of vs)"
    using JArr(1) [of _ "ind @ gap"] JArr(2,3) assms(1)
    by (simp add: list_all2_conv_all_nth list_all_iff ball_Un)
  from lexes_is_sep [OF lexes_wrap [OF assms(1) JArr(2) this, of "0x5B" TLBrack "0x5D" TRBrack]] show ?case
    by (simp add: punctuation_def num_char_def is_digit_def)
next
  case (JObj ps)
  have "lexes_sep (print_json gap (ind @ gap) (snd p)) (tokens_of (snd p))" if "p \<in> set ps" for p
  proof -
    have "numbers_ok (snd p)" using JObj(3) that by (simp add: list_all_iff)
    then show ?thesis
      using JObj(1) [OF that _ _, of "snd p" "ind @ gap"] JObj(2) assms(1)
      by (cases p) (simp add: list_all_iff ball_Un)
  qed
  then have "list_all2 lexes_sep (map (\<lambda>p. entry gap (fst p) (print_json gap (ind @ gap) (snd p))) ps)
      (map (\<lambda>p. TStr (fst p) # TColon # tokens_of (snd p)) ps)"
    unfolding list.rel_map by (intro list.rel_refl_strong lexes_entry)
  from lexes_is_sep [OF lexes_wrap [OF assms(1) JObj(2) this, of "0x7B" TLBrace "0x7D" TRBrace]] show ?case
    by (simp add: punctuation_def num_char_def is_digit_def)
next
  case (JBytes bs)
  have "list_all2 lexes_sep (map (\<lambda>(i, b). entry gap (nat_to_js i) (nat_to_js (unat b))) (enumerate 0 bs))
      (map (\<lambda>(i, b). [TStr (nat_to_js i), TColon, TNum (nat_to_js (unat b))]) (enumerate 0 bs))"
    by (auto simp: list_all2_conv_all_nth case_prod_unfold intro!: lexes_entry lexes_number number_ok_nat)
  from lexes_is_sep [OF lexes_wrap [OF assms(1) JBytes(1) this, of "0x7B" TLBrace "0x7D" TRBrace]] show ?case
    by (simp add: punctuation_def num_char_def is_digit_def)
qed (simp_all add: lexes_is_sep lexes_keyword lexes_quote)

lemma parse_stringify:
  assumes "numbers_ok v"
  shows "parse_json (stringify indent v) = Some (plain v)"
proof -
  have "lexes_sep (stringify indent v) (tokens_of v)"
    unfolding stringify_def using assms by (intro lexes_print) (simp_all add: json_space_def list_all_iff)
  then have "lex_json (stringify indent v) = Some (tokens_of v)"
    by (force simp: lexes_sep_def separated_def)
  then show ?thesis by (simp add: parse_json_def parse_tokens_plain)
qed

section \<open>The text as UTF-8\<close>

text \<open>\<^verbatim>\<open>Buffer.toString("utf-8")\<close>, which keeps a byte order mark.\<close>

definition utf8_string :: "bytes \<Rightarrow> jstr" where
  "utf8_string bs = of_scalars (utf8_decode (map unat bs))"

lemma utf8_string_encode: "well_formed s \<Longrightarrow> utf8_string (text_encode s) = s"
  by (simp add: utf8_string_def unat_text_encode utf8_decode_encode to_scalars_scalar of_scalars_to_scalars)

lemma well_formed_append: "well_formed a \<Longrightarrow> well_formed b \<Longrightarrow> well_formed (a @ b)"
  by (induction a rule: well_formed.induct) (auto simp: well_formed_Cons split: if_splits)

definition plain_unit :: "cunit \<Rightarrow> bool" where
  "plain_unit c = (\<not> is_high c \<and> \<not> is_low c)"

lemma well_formed_plain: "list_all plain_unit s \<Longrightarrow> well_formed s"
  by (rule well_formed_units) (simp add: plain_unit_def [abs_def])

lemma plain_cu: "plain_unit (cu c)"
proof -
  have "unat (cu c) < 256" by (simp add: unat_cu)
  then show ?thesis using unat_high [of "cu c"] unat_low [of "cu c"] by (auto simp: plain_unit_def)
qed

lemma plain_escapes: "list_all plain_unit (escape_u c)" "\<not> is_high c \<and> \<not> is_low c \<Longrightarrow> list_all plain_unit (escape_char c)"
proof -
  have num: "plain_unit 0x5C" "plain_unit 0x22" "plain_unit 0x62" "plain_unit 0x66" "plain_unit 0x6E"
      "plain_unit 0x72" "plain_unit 0x74"
    by (simp_all add: plain_unit_def is_high_def is_low_def)
  show u: "list_all plain_unit (escape_u c)"
    by (simp add: escape_u_def hex4_def hex_digit_def Let_def plain_cu)
  show "\<not> is_high c \<and> \<not> is_low c \<Longrightarrow> list_all plain_unit (escape_char c)"
    using u by (simp add: escape_char_def num) (simp add: plain_unit_def)
qed

lemma well_formed_quote: "well_formed (quote s)"
proof -
  have q: "\<not> is_high 0x22" "\<not> is_low 0x22" by (simp_all add: is_high_def is_low_def)
  have "well_formed (quote_body s)"
  proof (induction s rule: quote_body.induct)
    case (2 c)
    then show ?case using plain_escapes [of c] well_formed_plain by simp
  next
    case (3 c d s)
    show ?case
    proof (cases "is_high c \<and> is_low d")
      case True
      with 3(1) [OF True] show ?thesis by simp
    next
      case False
      with 3(2) [OF False] plain_escapes [of c] show ?thesis
        by (auto intro!: well_formed_append intro: well_formed_plain)
    qed
  qed simp
  then show ?thesis
    using well_formed_append [of "quote_body s" "[0x22]"] q by (simp add: quote_def well_formed_Cons)
qed

lemma plain_num_char: "num_char c \<Longrightarrow> plain_unit c"
proof -
  assume "num_char c"
  then have "unat c < 128" by (auto simp: num_char_def is_digit_def word_le_nat_alt)
  then show "plain_unit c" using unat_high [of c] unat_low [of c] by (auto simp: plain_unit_def)
qed

lemma well_formed_number: "number_ok n \<Longrightarrow> well_formed n"
  by (rule well_formed_plain) (auto simp: number_ok_def list_all_iff plain_num_char)

lemma plain_space: "json_space c \<Longrightarrow> plain_unit c"
  by (auto simp: json_space_def plain_unit_def is_high_def is_low_def)

lemma well_formed_spaces: "list_all json_space s \<Longrightarrow> well_formed s"
  by (rule well_formed_plain) (auto simp: list_all_iff plain_space)

lemma well_formed_join: "well_formed sep \<Longrightarrow> list_all well_formed xs \<Longrightarrow> well_formed (join sep xs)"
  by (induction sep xs rule: join.induct) (auto simp: well_formed_append)

lemma well_formed_wrap:
  assumes "list_all json_space gap" and "list_all json_space ind" and "list_all well_formed items"
    and "plain_unit l" and "plain_unit r"
  shows "well_formed (wrap gap ind l r items)"
proof -
  have lf: "json_space 10" by (simp add: json_space_def)
  have nl: "well_formed (nl gap i)" if "list_all json_space i" for i
    using that lf by (simp add: nl_def well_formed_spaces)
  have units: "well_formed [l]" "well_formed [r]" "well_formed [l, r]"
    using assms(4,5) well_formed_plain [of "[l]"] well_formed_plain [of "[r]"] well_formed_plain [of "[l, r]"]
    by simp_all
  have comma: "plain_unit 0x2C" by (simp add: plain_unit_def is_high_def is_low_def)
  have sep: "well_formed (0x2C # nl gap (ind @ gap))"
    using comma nl [of "ind @ gap"] assms(1,2) by (simp add: plain_unit_def well_formed_Cons)
  show ?thesis
    unfolding wrap_def using units nl [of "ind @ gap"] nl [of ind] assms(1,2) well_formed_join [OF sep assms(3)]
    by (auto intro!: well_formed_append well_formed_Cons)
qed

lemma well_formed_entry: "well_formed v \<Longrightarrow> well_formed (entry gap k v)"
proof -
  have "plain_unit 0x3A" "plain_unit 32" by (simp_all add: plain_unit_def is_high_def is_low_def)
  then show "well_formed v \<Longrightarrow> well_formed (entry gap k v)"
    unfolding entry_def plain_unit_def by (auto intro!: well_formed_append well_formed_quote well_formed_Cons)
qed

lemma well_formed_print:
  assumes "list_all json_space gap" and "list_all json_space ind" and "numbers_ok v"
  shows "well_formed (print_json gap ind v)"
  using assms(2,3)
proof (induction v arbitrary: ind)
  case (JNum n)
  then show ?case by (simp add: well_formed_number)
next
  case (JArr vs)
  have "list_all well_formed (map (print_json gap (ind @ gap)) vs)"
    using JArr(1) [of _ "ind @ gap"] JArr(2,3) assms(1) by (simp add: list_all_iff ball_Un)
  then show ?case
    using well_formed_wrap [OF assms(1) JArr(2)] by (simp add: plain_unit_def is_high_def is_low_def)
next
  case (JObj ps)
  have "well_formed (print_json gap (ind @ gap) (snd p))" if "p \<in> set ps" for p
  proof -
    have "numbers_ok (snd p)" using JObj(3) that by (simp add: list_all_iff)
    then show ?thesis
      using JObj(1) [OF that _ _, of "snd p" "ind @ gap"] JObj(2) assms(1)
      by (cases p) (simp add: list_all_iff ball_Un)
  qed
  then have "list_all well_formed (map (\<lambda>p. entry gap (fst p) (print_json gap (ind @ gap) (snd p))) ps)"
    by (auto simp: list_all_iff intro!: well_formed_entry)
  then show ?case
    using well_formed_wrap [OF assms(1) JObj(2)] by (simp add: plain_unit_def is_high_def is_low_def)
next
  case (JBytes bs)
  have "list_all well_formed (map (\<lambda>(i, b). entry gap (nat_to_js i) (nat_to_js (unat b))) (enumerate 0 bs))"
    using well_formed_number [OF number_ok_nat] by (auto simp: list_all_iff intro!: well_formed_entry)
  then show ?case
    using well_formed_wrap [OF assms(1) JBytes(1)] by (simp add: plain_unit_def is_high_def is_low_def)
qed (simp_all add: well_formed_quote well_formed_ascii)

text \<open>Written as UTF-8, read back and parsed.\<close>

lemma json_file_roundtrip:
  assumes "numbers_ok v"
  shows "utf8_string (text_encode (stringify indent v)) = stringify indent v"
    and "parse_json (utf8_string (text_encode (stringify indent v))) = Some (plain v)"
proof -
  have "well_formed (stringify indent v)"
    unfolding stringify_def using assms by (intro well_formed_print) (simp_all add: json_space_def list_all_iff)
  then show "utf8_string (text_encode (stringify indent v)) = stringify indent v" by (rule utf8_string_encode)
  then show "parse_json (utf8_string (text_encode (stringify indent v))) = Some (plain v)"
    using parse_stringify [OF assms] by simp
qed

lemma stringify_not_Nil: "numbers_ok v \<Longrightarrow> stringify indent v \<noteq> []"
  using parse_stringify [of v indent] by (auto simp: parse_json_def)

text \<open>A property of an object that is left out when it is undefined.\<close>

definition property :: "string \<Rightarrow> ('a \<Rightarrow> json) \<Rightarrow> 'a option \<Rightarrow> (jstr \<times> json) list" where
  "property k f x = (case x of None \<Rightarrow> [] | Some v \<Rightarrow> [(js k, f v)])"

lemma numbers_ok_property:
  "(\<And>v. x = Some v \<Longrightarrow> numbers_ok (f v)) \<Longrightarrow> list_all (\<lambda>p. numbers_ok (snd p)) (property k f x)"
  by (simp add: property_def split: option.split)

end
