(* ===== verification/Auth_Stores.thy ===== *)
theory Auth_Stores
  imports Session Js_Json Js_Fs
begin

text \<open>
  The credential stores (\<^verbatim>\<open>store.ts\<close>, \<^verbatim>\<open>atomic-file-store.ts\<close> and \<^verbatim>\<open>db-store.ts\<close> of
  \<^verbatim>\<open>packages/wazeko-auth/src\<close>). What is stored is a JavaScript value: \<open>creds_value\<close> is that of
  a credentials object, with its keys as byte arrays and undefined properties left out. A
  file store is a directory and acts on the files; the database store acts through an
  adapter. Of the failures of file operations only a missing file is modelled; the clock and
  the random bytes in the names of temporary files are arguments.
  The locale \<open>auth_store\<close> is the contract the stores share.
\<close>

section \<open>Credentials as a JavaScript value\<close>

definition num_value :: "jsnum \<Rightarrow> json" where
  "num_value n = (case n of Fin k \<Rightarrow> JNum (num_to_js (Fin k)) | _ \<Rightarrow> JNull)"

definition jid_value :: "jid \<Rightarrow> json" where
  "jid_value j = JObj ([(js ''user'', JStr (user j)), (js ''server'', JStr (server j))] @
     property ''agent'' num_value (agent j) @ property ''device'' num_value (device j))"

definition key_pair_value :: "key_pair \<Rightarrow> json" where
  "key_pair_value kp =
     JObj [(js ''publicKey'', JBytes (public_key kp)), (js ''privateKey'', JBytes (private_key kp))]"

definition signed_pre_key_value :: "signed_pre_key \<Rightarrow> json" where
  "signed_pre_key_value k =
     JObj [(js ''keyId'', JNum (nat_to_js (key_id k))), (js ''keyPair'', key_pair_value (key_pair_of k)),
           (js ''signature'', JBytes (signature k))]"

definition creds_value :: "credentials \<Rightarrow> json" where
  "creds_value c = JObj (
     [(js ''clientId'', JStr (client_id c)),
      (js ''registrationId'', JNum (num_to_js (Fin (registration_id c)))),
      (js ''registered'', JBool (registered c))] @
     property ''me'' jid_value (me c) @
     property ''clientToken'' JStr (client_token c) @ property ''serverToken'' JStr (server_token c) @
     property ''encKey'' JBytes (enc_key_bytes c) @ property ''macKey'' JBytes (mac_key_bytes c) @
     property ''noiseKey'' key_pair_value (noise_key c) @ property ''identityKey'' key_pair_value (identity_key c) @
     property ''signedPreKey'' signed_pre_key_value (signed_pre_key_of c))"

text \<open>The numbers are exact integers, as those the code makes are.\<close>

definition creds_ok :: "credentials \<Rightarrow> bool" where
  "creds_ok c = (safe_int (registration_id c) \<and>
     (case me c of None \<Rightarrow> True | Some j \<Rightarrow> num_ok (agent j) \<and> num_ok (device j)))"

lemma numbers_ok_num: "num_ok (Some n) \<Longrightarrow> numbers_ok (num_value n)"
  by (cases n) (auto simp: num_ok_def num_value_def number_ok_int simp del: num_to_js.simps)

lemma numbers_ok_jid: "num_ok (agent j) \<Longrightarrow> num_ok (device j) \<Longrightarrow> numbers_ok (jid_value j)"
  by (cases "agent j"; cases "device j") (simp_all add: jid_value_def property_def numbers_ok_num)

lemma numbers_ok_keys: "numbers_ok (key_pair_value kp)" "numbers_ok (signed_pre_key_value k)"
  by (simp_all add: key_pair_value_def signed_pre_key_value_def number_ok_nat)

lemma numbers_ok_creds: "creds_ok c \<Longrightarrow> numbers_ok (creds_value c)"
  by (cases "me c") (simp_all add: creds_ok_def creds_value_def numbers_ok_property numbers_ok_jid numbers_ok_keys
      number_ok_int property_def [of "''me''"] del: num_to_js.simps)

section \<open>The stores\<close>

text \<open>\<^verbatim>\<open>JSON.parse\<close> with its error.\<close>

definition json_parse :: "jstr \<Rightarrow> js_error + json" where
  "json_parse s = (case parse_json s of None \<Rightarrow> Inl (PlatformError (js ''SyntaxError'')) | Some v \<Rightarrow> Inr v)"

definition creds_file_path :: "jstr \<Rightarrow> jstr" where
  "creds_file_path dir = path_join dir (js ''credentials.json'')"

definition checksum_file_path :: "jstr \<Rightarrow> jstr" where
  "checksum_file_path dir = path_join dir (js ''credentials.checksum'')"

definition file_load :: "jstr \<Rightarrow> files \<Rightarrow> js_error + json option" where
  "file_load dir fs =
     (case fs (creds_file_path dir) of
        None \<Rightarrow> Inr None
      | Some bs \<Rightarrow> map_sum id Some (json_parse (utf8_string bs)))"

definition file_save :: "jstr \<Rightarrow> json \<Rightarrow> files \<Rightarrow> files" where
  "file_save dir v fs = write_file (creds_file_path dir) (text_encode (stringify 2 v)) fs"

definition file_clear :: "jstr \<Rightarrow> files \<Rightarrow> files" where
  "file_clear dir fs = fs(creds_file_path dir := None)"

definition memory_load :: "json option \<Rightarrow> json option" where
  "memory_load st = st"

definition memory_save :: "json \<Rightarrow> json option \<Rightarrow> json option" where
  "memory_save v st = Some v"

definition memory_clear :: "json option \<Rightarrow> json option" where
  "memory_clear st = None"

record atomic_file_store =
  atomic_dir :: jstr
  checksum_validation :: bool

definition new_atomic_file_store :: "jstr \<Rightarrow> bool option option \<Rightarrow> atomic_file_store" where
  "new_atomic_file_store dir opts =
     \<lparr>atomic_dir = dir, checksum_validation = (case opts of None \<Rightarrow> True | Some b \<Rightarrow> b = Some True)\<rparr>"

definition checksum_of :: "node_crypto \<Rightarrow> jstr \<Rightarrow> jstr" where
  "checksum_of nc content = to_hex (hash_sha256 nc [text_encode content])"

definition checksum_mismatch :: "jstr \<Rightarrow> jstr \<Rightarrow> js_error" where
  "checksum_mismatch expected actual = PlatformError
     (js ''Checksum mismatch: file corrupted. Expected '' @ expected @ js '', got '' @ actual)"

definition atomic_load :: "node_crypto \<Rightarrow> atomic_file_store \<Rightarrow> files \<Rightarrow> js_error + json option" where
  "atomic_load nc st fs =
     (case fs (creds_file_path (atomic_dir st)) of
        None \<Rightarrow> Inr None
      | Some bs \<Rightarrow>
          let content = utf8_string bs
          in case (if checksum_validation st then fs (checksum_file_path (atomic_dir st)) else None) of
               None \<Rightarrow> map_sum id Some (json_parse content)
             | Some cs \<Rightarrow>
                 if trim (utf8_string cs) \<noteq> checksum_of nc content
                 then Inl (checksum_mismatch (trim (utf8_string cs)) (checksum_of nc content))
                 else map_sum id Some (json_parse content))"

definition temp_creds_path :: "jstr \<Rightarrow> nat \<Rightarrow> bytes \<Rightarrow> jstr" where
  "temp_creds_path dir now rnd4 =
     creds_file_path dir @ js ''.tmp.'' @ nat_to_js now @ js ''.'' @ to_hex rnd4"

definition temp_checksum_path :: "jstr \<Rightarrow> nat \<Rightarrow> jstr" where
  "temp_checksum_path dir now = checksum_file_path dir @ js ''.tmp.'' @ nat_to_js now"

definition atomic_save ::
    "node_crypto \<Rightarrow> atomic_file_store \<Rightarrow> nat \<Rightarrow> bytes \<Rightarrow> nat \<Rightarrow> json \<Rightarrow> files \<Rightarrow> js_error + files" where
  "atomic_save nc st now1 rnd4 now2 v fs =
     (let filePath = creds_file_path (atomic_dir st);
          tempFilePath = temp_creds_path (atomic_dir st) now1 rnd4;
          serialized = stringify 2 v;
          fs = write_file tempFilePath (text_encode serialized) fs
      in bindE
           (if checksum_validation st then
              let tempChecksumPath = temp_checksum_path (atomic_dir st) now2;
                  fs = write_file tempChecksumPath (text_encode (checksum_of nc serialized)) fs
              in rename_file tempChecksumPath (checksum_file_path (atomic_dir st)) fs
            else Inr fs)
           (rename_file tempFilePath filePath))"

definition atomic_clear :: "atomic_file_store \<Rightarrow> files \<Rightarrow> files" where
  "atomic_clear st fs =
     fs(creds_file_path (atomic_dir st) := None, checksum_file_path (atomic_dir st) := None)"

section \<open>The database store\<close>

text \<open>The adapter interface, with its calls' effect on a state \<open>'s\<close>.\<close>

record 's kv_adapter =
  kv_get :: "jstr \<Rightarrow> 's \<Rightarrow> jstr option"
  kv_set :: "jstr \<Rightarrow> jstr \<Rightarrow> nat option \<Rightarrow> 's \<Rightarrow> 's"
  kv_del :: "jstr \<Rightarrow> 's \<Rightarrow> 's"

record key_val_store =
  session_key :: jstr
  ttl_seconds :: "nat option"

definition new_key_val_store :: "jstr option \<Rightarrow> jstr option \<Rightarrow> nat option \<Rightarrow> key_val_store" where
  "new_key_val_store sessionId keyPrefix ttl =
     \<lparr>session_key = (case keyPrefix of None \<Rightarrow> js ''wazeko:auth:'' | Some p \<Rightarrow> p) @
        (case sessionId of None \<Rightarrow> js ''default'' | Some i \<Rightarrow> i),
      ttl_seconds = ttl\<rparr>"

definition key_val_load :: "'s kv_adapter \<Rightarrow> key_val_store \<Rightarrow> 's \<Rightarrow> json option" where
  "key_val_load ad st s =
     (case kv_get ad (session_key st) s of
        None \<Rightarrow> None
      | Some text \<Rightarrow> if text = [] then None else parse_json text)"

definition key_val_save :: "'s kv_adapter \<Rightarrow> key_val_store \<Rightarrow> json \<Rightarrow> 's \<Rightarrow> 's" where
  "key_val_save ad st v s = kv_set ad (session_key st) (stringify 0 v) (ttl_seconds st) s"

definition key_val_clear :: "'s kv_adapter \<Rightarrow> key_val_store \<Rightarrow> 's \<Rightarrow> 's" where
  "key_val_clear ad st s = kv_del ad (session_key st) s"

definition in_memory_adapter :: "(jstr, jstr) jsmap kv_adapter" where
  "in_memory_adapter =
     \<lparr>kv_get = (\<lambda>k m. map_of m k), kv_set = (\<lambda>k v ttl m. AList.update k v m), kv_del = AList.delete\<rparr>"

section \<open>The contract of a key-value adapter\<close>

locale kv_store =
  fixes ad :: "'s kv_adapter"
  assumes get_set: "kv_get ad k (kv_set ad l v ttl s) = (if k = l then Some v else kv_get ad k s)"
    and get_del: "kv_get ad k (kv_del ad l s) = (if k = l then None else kv_get ad k s)"
begin

lemma load_save:
  assumes "numbers_ok v"
  shows "key_val_load ad st (key_val_save ad st v s) = Some (plain v)"
  using parse_stringify [OF assms, of 0] stringify_not_Nil [OF assms, of 0]
  by (simp add: key_val_load_def key_val_save_def get_set)

lemma load_clear: "key_val_load ad st (key_val_clear ad st s) = None"
  by (simp add: key_val_load_def key_val_clear_def get_del)

lemma other_session:
  "session_key st \<noteq> session_key st' \<Longrightarrow>
     key_val_load ad st (key_val_save ad st' v s) = key_val_load ad st s"
  by (simp add: key_val_load_def key_val_save_def get_set)

end

interpretation in_memory: kv_store in_memory_adapter
  by unfold_locales (simp_all add: in_memory_adapter_def)

section \<open>The contract of a credential store\<close>

text \<open>
  \<open>stored v\<close> is what comes back of a value \<open>v\<close>: the value itself, or what JSON keeps of it.
\<close>

locale auth_store =
  fixes load :: "'s \<Rightarrow> js_error + json option"
    and save :: "json \<Rightarrow> 's \<Rightarrow> js_error + 's"
    and clear :: "'s \<Rightarrow> 's"
    and stored :: "json \<Rightarrow> json"
  assumes load_save: "numbers_ok v \<Longrightarrow> \<exists>s'. save v s = Inr s' \<and> load s' = Inr (Some (stored v))"
    and load_clear: "load (clear s) = Inr None"
    and stored_plain: "plain (stored v) = plain v"
begin

lemma last_save_wins:
  assumes "numbers_ok v" and "numbers_ok w"
  shows "\<exists>s' s''. save v s = Inr s' \<and> save w s' = Inr s'' \<and> load s'' = Inr (Some (stored w))"
  using load_save [OF assms(1), of s] load_save [OF assms(2)] by blast

lemma save_after_clear:
  assumes "numbers_ok v"
  shows "\<exists>s'. save v (clear s) = Inr s' \<and> load s' = Inr (Some (stored v))"
  using load_save [OF assms] by blast

lemma byte_free_exact:
  assumes "numbers_ok v" and "byte_free v" and "\<And>u. byte_free u \<Longrightarrow> stored u = u"
  shows "\<exists>s'. save v s = Inr s' \<and> load s' = Inr (Some v)"
  using load_save [OF assms(1)] assms(2,3) by simp

end

lemma plain_plain: "plain (plain v) = plain v"
  by (rule plain_id [OF byte_free_plain])

lemma json_parse_stringify:
  "numbers_ok v \<Longrightarrow> json_parse (utf8_string (text_encode (stringify i v))) = Inr (plain v)"
  by (simp add: json_parse_def json_file_roundtrip(2))

interpretation mem_auth: auth_store "\<lambda>s. Inr (memory_load s)" "\<lambda>v s. Inr (memory_save v s)" memory_clear "\<lambda>v. v"
  by unfold_locales (simp_all add: memory_load_def memory_save_def memory_clear_def)

interpretation file_auth: auth_store "file_load dir" "\<lambda>v s. Inr (file_save dir v s)" "file_clear dir" plain
  for dir
  by unfold_locales (simp_all add: file_load_def file_save_def file_clear_def write_file_def
      json_parse_stringify plain_plain)

interpretation kv_auth: auth_store "\<lambda>s. Inr (key_val_load in_memory_adapter st s)"
    "\<lambda>v s. Inr (key_val_save in_memory_adapter st v s)" "key_val_clear in_memory_adapter st" plain
  for st
  by unfold_locales (simp_all add: in_memory.load_save in_memory.load_clear plain_plain)

subsection \<open>The atomic store\<close>

lemma paths_distinct:
  "temp_creds_path d n r \<noteq> creds_file_path d" "temp_creds_path d n r \<noteq> checksum_file_path d"
  "temp_checksum_path d m \<noteq> creds_file_path d" "temp_checksum_path d m \<noteq> checksum_file_path d"
  "creds_file_path d \<noteq> checksum_file_path d" "temp_creds_path d n r \<noteq> temp_checksum_path d m"
  by (auto simp: temp_creds_path_def temp_checksum_path_def creds_file_path_def checksum_file_path_def
      path_join_def js_def)

lemma checksum_text: "trim (utf8_string (text_encode (checksum_of nc t))) = checksum_of nc t"
  by (simp add: checksum_of_def utf8_string_encode well_formed_to_hex trim_to_hex)

lemma atomic_save_result:
  "\<exists>fs'. atomic_save nc st n1 r4 n2 v fs = Inr fs' \<and>
     fs' (creds_file_path (atomic_dir st)) = Some (text_encode (stringify 2 v)) \<and>
     fs' (checksum_file_path (atomic_dir st)) =
       (if checksum_validation st then Some (text_encode (checksum_of nc (stringify 2 v)))
        else fs (checksum_file_path (atomic_dir st)))"
  by (simp add: atomic_save_def Let_def file_defs paths_distinct paths_distinct [THEN not_sym])

text \<open>What a load gives when both files were written together.\<close>

lemma atomic_load_consistent:
  assumes "fs (creds_file_path (atomic_dir st)) = Some (text_encode (stringify 2 v))" and "numbers_ok v"
    and "checksum_validation st \<longrightarrow>
      fs (checksum_file_path (atomic_dir st)) = Some (text_encode (checksum_of nc (stringify 2 v)))"
  shows "atomic_load nc st fs = Inr (Some (plain v))"
  using assms
  by (simp add: atomic_load_def Let_def json_file_roundtrip(1) checksum_text json_parse_def parse_stringify)

interpretation atomic_auth: auth_store "atomic_load nc st" "atomic_save nc st n1 r4 n2" "atomic_clear st" plain
  for nc st n1 r4 n2
proof (unfold_locales, goal_cases)
  case (1 v s)
  obtain fs' where fs': "atomic_save nc st n1 r4 n2 v s = Inr fs'"
    "fs' (creds_file_path (atomic_dir st)) = Some (text_encode (stringify 2 v))"
    "checksum_validation st \<longrightarrow>
      fs' (checksum_file_path (atomic_dir st)) = Some (text_encode (checksum_of nc (stringify 2 v)))"
    using atomic_save_result [of nc st n1 r4 n2 v s] by auto
  then show ?case using atomic_load_consistent [OF fs'(2) 1 fs'(3)] by blast
next
  case (2 s)
  then show ?case by (simp add: atomic_load_def atomic_clear_def paths_distinct)
next
  case (3 v)
  then show ?case by (rule plain_plain)
qed

section \<open>A crash during a save\<close>

text \<open>
  The files as a crash in the middle of \<^const>\<open>atomic_save\<close> can leave them: the call performs
  its file operations in order, a write may have reached the disk in part, a rename has
  happened or not.
\<close>

inductive atomic_crash ::
    "node_crypto \<Rightarrow> atomic_file_store \<Rightarrow> nat \<Rightarrow> bytes \<Rightarrow> nat \<Rightarrow> json \<Rightarrow> files \<Rightarrow> files \<Rightarrow> bool"
  for nc st n1 r4 n2 v fs where
  before: "atomic_crash nc st n1 r4 n2 v fs fs"
| creds_part: "atomic_crash nc st n1 r4 n2 v fs
     (write_file (temp_creds_path (atomic_dir st) n1 r4) (take k (text_encode (stringify 2 v))) fs)"
| checksum_part: "checksum_validation st \<Longrightarrow> atomic_crash nc st n1 r4 n2 v fs
     (write_file (temp_checksum_path (atomic_dir st) n2) (take k (text_encode (checksum_of nc (stringify 2 v))))
       (write_file (temp_creds_path (atomic_dir st) n1 r4) (text_encode (stringify 2 v)) fs))"
| checksum_renamed: "checksum_validation st \<Longrightarrow>
     rename_file (temp_checksum_path (atomic_dir st) n2) (checksum_file_path (atomic_dir st))
       (write_file (temp_checksum_path (atomic_dir st) n2) (text_encode (checksum_of nc (stringify 2 v)))
         (write_file (temp_creds_path (atomic_dir st) n1 r4) (text_encode (stringify 2 v)) fs)) = Inr fs' \<Longrightarrow>
     atomic_crash nc st n1 r4 n2 v fs fs'"
| finished: "atomic_save nc st n1 r4 n2 v fs = Inr fs' \<Longrightarrow> atomic_crash nc st n1 r4 n2 v fs fs'"

lemma atomic_load_cong:
  assumes "fs' (creds_file_path (atomic_dir st)) = fs (creds_file_path (atomic_dir st))"
    and "fs' (checksum_file_path (atomic_dir st)) = fs (checksum_file_path (atomic_dir st))"
  shows "atomic_load nc st fs' = atomic_load nc st fs"
  unfolding atomic_load_def assms ..

lemma atomic_load_new_checksum:
  assumes "fs' (creds_file_path (atomic_dir st)) = fs (creds_file_path (atomic_dir st))"
    and "fs' (checksum_file_path (atomic_dir st)) = Some (text_encode (checksum_of nc t))" and "checksum_validation st"
  shows "atomic_load nc st fs' =
     (case fs (creds_file_path (atomic_dir st)) of
        None \<Rightarrow> Inr None
      | Some bs \<Rightarrow>
          if checksum_of nc t = checksum_of nc (utf8_string bs) then map_sum id Some (json_parse (utf8_string bs))
          else Inl (checksum_mismatch (checksum_of nc t) (checksum_of nc (utf8_string bs))))"
  using assms by (simp add: atomic_load_def Let_def checksum_text split: option.split)

text \<open>
  C22. A save of the atomic store that is cut short by a crash leaves the credentials as they
  were or as they were to be, provided checksums are off. With checksums on there is a third
  outcome: once the checksum file is in place and the credentials file is not, loading
  throws a checksum mismatch for the old, intact credentials.
\<close>

theorem atomic_crash_loads:
  assumes "atomic_crash nc st n1 r4 n2 v fs fs'" and "numbers_ok v" and "atomic_load nc st fs = Inr old"
  shows "atomic_load nc st fs' = Inr old \<or> atomic_load nc st fs' = Inr (Some (plain v)) \<or>
     (checksum_validation st \<and>
      (\<exists>bs. fs (creds_file_path (atomic_dir st)) = Some bs \<and>
        atomic_load nc st fs' = Inl (checksum_mismatch (checksum_of nc (stringify 2 v)) (checksum_of nc (utf8_string bs)))))"
  using assms(1)
proof cases
  case before
  then show ?thesis using assms(3) by simp
next
  case (creds_part k)
  then have "atomic_load nc st fs' = atomic_load nc st fs"
    by (intro atomic_load_cong) (simp_all add: write_file_def paths_distinct paths_distinct [THEN not_sym])
  then show ?thesis using assms(3) by simp
next
  case (checksum_part k)
  then have "atomic_load nc st fs' = atomic_load nc st fs"
    by (intro atomic_load_cong) (simp_all add: write_file_def paths_distinct paths_distinct [THEN not_sym])
  then show ?thesis using assms(3) by simp
next
  case checksum_renamed
  then have "fs' (creds_file_path (atomic_dir st)) = fs (creds_file_path (atomic_dir st))"
      "fs' (checksum_file_path (atomic_dir st)) = Some (text_encode (checksum_of nc (stringify 2 v)))"
    by (auto simp: file_defs paths_distinct paths_distinct [THEN not_sym])
  note load = atomic_load_new_checksum [where st = st and nc = nc and fs' = fs' and fs = fs, OF this checksum_renamed(1)]
  show ?thesis
  proof (cases "fs (creds_file_path (atomic_dir st))")
    case None
    then show ?thesis using load assms(3) by (simp add: atomic_load_def)
  next
    case (Some bs)
    have "map_sum id Some (json_parse (utf8_string bs)) = Inr old"
      using assms(3) Some by (auto simp: atomic_load_def Let_def split: option.splits if_splits)
    then show ?thesis using load Some checksum_renamed(1) by auto
  qed
next
  case finished
  obtain fs'' where "atomic_save nc st n1 r4 n2 v fs = Inr fs''"
      "fs'' (creds_file_path (atomic_dir st)) = Some (text_encode (stringify 2 v))"
      "checksum_validation st \<longrightarrow>
        fs'' (checksum_file_path (atomic_dir st)) = Some (text_encode (checksum_of nc (stringify 2 v)))"
    using atomic_save_result [of nc st n1 r4 n2 v fs] by auto
  then show ?thesis using finished atomic_load_consistent [of fs'' st v nc] assms(2) by simp
qed

theorem atomic_crash_loads_witness:
  "atomic_load toy_crypto (new_atomic_file_store [] None)
     (write_file (temp_creds_path [] 1 [2]) (take 3 (text_encode (stringify 2 (JBool True)))) Map.empty) \<in>
     {Inr None, Inr (Some (JBool True))}"
proof -
  let ?st = "new_atomic_file_store [] None"
  have "atomic_crash toy_crypto ?st 1 [2] 3 (JBool True) Map.empty
      (write_file (temp_creds_path [] 1 [2]) (take 3 (text_encode (stringify 2 (JBool True)))) Map.empty)"
    using atomic_crash.creds_part [of toy_crypto ?st 1 "[2]" 3 "JBool True" Map.empty 3]
    by (simp add: new_atomic_file_store_def)
  from atomic_crash_loads [OF this] show ?thesis
    by (simp add: atomic_load_def)
qed

text \<open>
  The third outcome does happen: whenever the saved value has another checksum than the
  credentials on disk and checksums are on, some crash point makes the following load throw.
\<close>

theorem atomic_crash_can_corrupt:
  assumes "checksum_validation st" and "fs (creds_file_path (atomic_dir st)) = Some bs"
    and "checksum_of nc (stringify 2 v) \<noteq> checksum_of nc (utf8_string bs)"
  shows "\<exists>fs'. atomic_crash nc st n1 r4 n2 v fs fs' \<and>
     fs' (creds_file_path (atomic_dir st)) = Some bs \<and>
     atomic_load nc st fs' = Inl (checksum_mismatch (checksum_of nc (stringify 2 v)) (checksum_of nc (utf8_string bs)))"
proof -
  let ?fs = "write_file (temp_checksum_path (atomic_dir st) n2) (text_encode (checksum_of nc (stringify 2 v)))
      (write_file (temp_creds_path (atomic_dir st) n1 r4) (text_encode (stringify 2 v)) fs)"
  obtain fs' where ren: "rename_file (temp_checksum_path (atomic_dir st) n2) (checksum_file_path (atomic_dir st)) ?fs = Inr fs'"
    by (auto simp: file_defs)
  then have fs': "fs' (creds_file_path (atomic_dir st)) = fs (creds_file_path (atomic_dir st))"
      "fs' (checksum_file_path (atomic_dir st)) = Some (text_encode (checksum_of nc (stringify 2 v)))"
    by (auto simp: file_defs paths_distinct paths_distinct [THEN not_sym])
  have "atomic_crash nc st n1 r4 n2 v fs fs'" using assms(1) ren by (rule atomic_crash.checksum_renamed)
  then show ?thesis
    using atomic_load_new_checksum [where st = st and nc = nc and fs' = fs' and fs = fs, OF fs' assms(1)] assms(2,3) fs'(1) by auto
qed

theorem atomic_crash_can_corrupt_witness:
  "\<exists>fs'. atomic_crash toy_crypto (new_atomic_file_store [] None) 1 [2] 3 (JBool True)
       [creds_file_path [] \<mapsto> text_encode (js ''null'')] fs' \<and>
     atomic_load toy_crypto (new_atomic_file_store [] None) fs' =
       Inl (checksum_mismatch (checksum_of toy_crypto (js ''true'')) (checksum_of toy_crypto (js ''null'')))"
proof -
  have plaintext: "utf8_string (text_encode (js ''null'')) = js ''null''" by code_simp
  have differ: "checksum_of toy_crypto (js ''true'') \<noteq> checksum_of toy_crypto (js ''null'')"
    by code_simp
  have printed: "stringify 2 (JBool True) = js ''true''" by (simp add: stringify_def)
  show ?thesis
    using atomic_crash_can_corrupt [where st = "new_atomic_file_store [] None" and nc = toy_crypto
        and fs = "[creds_file_path [] \<mapsto> text_encode (js ''null'')]" and v = "JBool True"
        and bs = "text_encode (js ''null'')" and ?n1.0 = 1 and ?r4.0 = "[2]" and ?n2.0 = 3]
    unfolding plaintext printed using differ by (auto simp: new_atomic_file_store_def)
qed

end
