(* ===== verification/Store_Properties.thy ===== *)
theory Store_Properties
  imports Auth_Stores
begin

text \<open>What the credential stores promise for a credentials object.\<close>

lemma byte_free_property:
  "list_all (\<lambda>p. byte_free (snd p)) (property k f x) \<longleftrightarrow> (case x of None \<Rightarrow> True | Some v \<Rightarrow> byte_free (f v))"
  by (simp add: property_def split: option.split)

lemma byte_free_jid: "byte_free (jid_value j)"
  by (auto simp: jid_value_def byte_free_property num_value_def split: option.split jsnum.split)

text \<open>A credentials object without keys: a new one, and a registered one whose keys are not set.\<close>

definition no_key_material :: "credentials \<Rightarrow> bool" where
  "no_key_material c = (enc_key_bytes c = None \<and> mac_key_bytes c = None \<and> noise_key c = None \<and>
     identity_key c = None \<and> signed_pre_key_of c = None)"

lemma byte_free_creds: "byte_free (creds_value c) \<longleftrightarrow> no_key_material c"
  by (auto simp: creds_value_def byte_free_property byte_free_jid no_key_material_def key_pair_value_def
      signed_pre_key_value_def split: option.splits)

lemma plain_eq_iff: "plain v = v \<longleftrightarrow> byte_free v"
  using plain_id byte_free_plain by metis

text \<open>
  C25. The three persistent stores behave alike: after any save, whatever was there before, the
  load returns the JSON image of the credentials, and this is the credentials exactly
  when they hold no keys. Saved keys come back as plain objects of numbers in place of byte
  arrays, so credentials with keys never come back as they were.
\<close>

theorem stores_keep_credentials:
  assumes "creds_ok c"
  shows "file_load dir (file_save dir (creds_value c) fs) = Inr (Some (plain (creds_value c))) \<and>
     bindE (atomic_save nc st n1 r4 n2 (creds_value c) fs) (atomic_load nc st) = Inr (Some (plain (creds_value c))) \<and>
     key_val_load in_memory_adapter kv (key_val_save in_memory_adapter kv (creds_value c) m) = Some (plain (creds_value c)) \<and>
     (plain (creds_value c) = creds_value c \<longleftrightarrow> no_key_material c)"
  using file_auth.load_save [OF numbers_ok_creds [OF assms], of dir fs]
    atomic_auth.load_save [OF numbers_ok_creds [OF assms], of nc st n1 r4 n2 fs]
    in_memory.load_save [OF numbers_ok_creds [OF assms], of kv m]
  by (auto simp: plain_eq_iff byte_free_creds)

theorem stores_keep_credentials_witness:
  "file_load (js ''d'') (file_save (js ''d'') (creds_value (init_credentials [1, 2] 0)) Map.empty) =
     Inr (Some (creds_value (init_credentials [1, 2] 0)))"
proof -
  have "creds_ok (init_credentials [1, 2] 0)" "no_key_material (init_credentials [1, 2] 0)"
    by (simp_all add: creds_ok_def init_credentials_def random_registration_id_def safe_int_def no_key_material_def)
  then show ?thesis using stores_keep_credentials [of "init_credentials [1, 2] 0"] by metis
qed

text \<open>
  A cleared store is empty: loading after a clear gives no credentials, for the file store,
  the atomic store (its checksum file is gone too) and the database store, and sessions
  under other keys of one database keep theirs.
\<close>

theorem cleared_stores_are_empty:
  assumes "session_key kv \<noteq> session_key kv'"
  shows "file_load dir (file_clear dir fs) = Inr None \<and> atomic_load nc st (atomic_clear st fs) = Inr None \<and>
     key_val_load in_memory_adapter kv (key_val_clear in_memory_adapter kv m) = None \<and>
     key_val_load in_memory_adapter kv (key_val_clear in_memory_adapter kv' m) =
       key_val_load in_memory_adapter kv m"
  using assms file_auth.load_clear atomic_auth.load_clear in_memory.load_clear
  by (simp add: key_val_load_def key_val_clear_def in_memory_adapter_def)

theorem cleared_stores_are_empty_witness:
  "key_val_load in_memory_adapter (new_key_val_store None None None)
     (key_val_clear in_memory_adapter (new_key_val_store (Some (js ''b'')) None None) [(js ''wazeko:auth:default'', js ''null'')]) =
   key_val_load in_memory_adapter (new_key_val_store None None None) [(js ''wazeko:auth:default'', js ''null'')]"
  using cleared_stores_are_empty [of "new_key_val_store None None None" "new_key_val_store (Some (js ''b'')) None None"]
  by (simp add: new_key_val_store_def js_def)

end
