(* ===== verification/Session_Backup.thy ===== *)
theory Session_Backup
  imports Store_Properties
begin

text \<open>
  Encrypted backups of credentials (\<^verbatim>\<open>packages/wazeko-auth/src/session-backup.ts\<close>). The
  manager holds the key; the archive provider is the map of what was uploaded. A store is
  used through the functions of its interface; the random initialization vector and the
  clock are arguments. The timer is the interval it was started with, and \<open>auto_backup\<close> is
  what one firing does. The result: a backup restored into another store gives it the
  JSON image of the credentials, for every pair of stores that meet the contract.
\<close>

type_synonym archive = "(jstr, bytes) jsmap"

definition archive_upload :: "jstr \<Rightarrow> bytes \<Rightarrow> archive \<Rightarrow> jstr \<times> archive" where
  "archive_upload backupId encryptedData ar = (js ''local://'' @ backupId, AList.update backupId encryptedData ar)"

definition archive_download :: "jstr \<Rightarrow> archive \<Rightarrow> js_error + bytes" where
  "archive_download backupId ar =
     (case map_of ar backupId of
        None \<Rightarrow> Inl (PlatformError (js ''Backup not found for ID: '' @ backupId))
      | Some d \<Rightarrow> Inr d)"

datatype encryption_key_option = KeyText jstr | KeyBuffer bytes

record session_backup_manager =
  encryption_key :: bytes
  backup_timer :: "nat option"

definition new_session_backup_manager :: "node_crypto \<Rightarrow> encryption_key_option \<Rightarrow> js_error + session_backup_manager" where
  "new_session_backup_manager nc opt =
     (case opt of
        KeyText t \<Rightarrow> Inr \<lparr>encryption_key = hash_sha256 nc [text_encode t], backup_timer = None\<rparr>
      | KeyBuffer k \<Rightarrow>
          if length k \<noteq> 32
          then Inl (PlatformError (js ''Encryption key must be exactly 32 bytes for AES-256-GCM''))
          else Inr \<lparr>encryption_key = k, backup_timer = None\<rparr>)"

definition encrypt_snapshot :: "node_crypto \<Rightarrow> bytes \<Rightarrow> json \<Rightarrow> session_backup_manager \<Rightarrow> js_error + bytes" where
  "encrypt_snapshot nc iv v m =
     bindE (gcm_cipher nc (encryption_key m) iv None [text_encode (stringify 0 v)])
       (\<lambda>(outs, tag). Inr (iv @ tag @ concat outs))"

definition snapshot_too_short :: js_error where
  "snapshot_too_short = PlatformError (js ''Encrypted snapshot payload is too short'')"

definition decrypt_snapshot :: "node_crypto \<Rightarrow> bytes \<Rightarrow> session_backup_manager \<Rightarrow> js_error + json" where
  "decrypt_snapshot nc encryptedBuffer m =
     (if length encryptedBuffer < 28 then Inl snapshot_too_short
      else
        let iv = subarray encryptedBuffer 0 12;
            tag = subarray encryptedBuffer 12 28;
            ciphertext = subarray_from encryptedBuffer 28
        in bindE (gcm_decipher nc (encryption_key m) iv tag None [ciphertext])
             (\<lambda>outs. json_parse (utf8_string (concat outs))))"

text \<open>\<^verbatim>\<open>!v\<close> for a value.\<close>

definition falsy :: "json \<Rightarrow> bool" where
  "falsy v =
     (case v of
        JNull \<Rightarrow> True
      | JBool b \<Rightarrow> \<not> b
      | JStr s \<Rightarrow> s = []
      | JNum n \<Rightarrow> list_all (\<lambda>c. is_digit c \<longrightarrow> c = 48) (takeWhile (\<lambda>c. c \<notin> {0x45, 0x65}) n)
      | _ \<Rightarrow> False)"

definition create_backup ::
    "node_crypto \<Rightarrow> bytes \<Rightarrow> nat \<Rightarrow> js_error + json option \<Rightarrow> jstr option \<Rightarrow> session_backup_manager \<Rightarrow> archive \<Rightarrow>
     (js_error + jstr \<times> jstr) \<times> archive" where
  "create_backup nc iv now loaded backupId m ar =
     (let ident = (case backupId of None \<Rightarrow> js ''snapshot-'' @ nat_to_js now | Some i \<Rightarrow> i);
          encrypted = bindE loaded (\<lambda>creds.
            case creds of
              Some v \<Rightarrow>
                if falsy v then Inl (PlatformError (js ''Cannot create backup: No active credentials found in AuthStore''))
                else encrypt_snapshot nc iv v m
            | None \<Rightarrow> Inl (PlatformError (js ''Cannot create backup: No active credentials found in AuthStore'')))
      in case encrypted of
           Inl e \<Rightarrow> (Inl e, ar)
         | Inr d \<Rightarrow> (let (location, ar) = archive_upload ident d ar in (Inr (ident, location), ar)))"

definition restore_backup ::
    "node_crypto \<Rightarrow> (json \<Rightarrow> 's \<Rightarrow> js_error + 's) \<Rightarrow> jstr \<Rightarrow> session_backup_manager \<Rightarrow> archive \<Rightarrow> 's \<Rightarrow>
     js_error + json \<times> 's" where
  "restore_backup nc save backupId m ar s =
     bindE (archive_download backupId ar) (\<lambda>d.
     bindE (decrypt_snapshot nc d m) (\<lambda>v.
     bindE (save v s) (\<lambda>s. Inr (v, s))))"

definition stop_auto_backup :: "session_backup_manager \<Rightarrow> session_backup_manager" where
  "stop_auto_backup m = m\<lparr>backup_timer := None\<rparr>"

definition start_auto_backup :: "nat option \<Rightarrow> session_backup_manager \<Rightarrow> session_backup_manager" where
  "start_auto_backup intervalMs m =
     (stop_auto_backup m)\<lparr>backup_timer := Some (case intervalMs of None \<Rightarrow> 3600000 | Some i \<Rightarrow> i)\<rparr>"

text \<open>One firing: the location passed to the callback, if the backup was made.\<close>

definition auto_backup ::
    "node_crypto \<Rightarrow> bytes \<Rightarrow> nat \<Rightarrow> js_error + json option \<Rightarrow> session_backup_manager \<Rightarrow> archive \<Rightarrow> jstr option \<times> archive" where
  "auto_backup nc iv now loaded m ar =
     (case create_backup nc iv now loaded None m ar of
        (Inl e, ar) \<Rightarrow> (None, ar)
      | (Inr (i, location), ar) \<Rightarrow> (Some location, ar))"

section \<open>Snapshots\<close>

lemma snapshot_roundtrip:
  assumes "gcm_laws nc" and "length (encryption_key m) = 32" and "length iv = 12" and "numbers_ok v"
  shows "\<exists>d. encrypt_snapshot nc iv v m = Inr d \<and> decrypt_snapshot nc d m = Inr (plain v)"
proof -
  let ?text = "text_encode (stringify 0 v)"
  obtain outs tag ps where run: "gcm_cipher nc (encryption_key m) iv None [?text] = Inr (outs, tag)"
      "length tag = 16" "gcm_decipher nc (encryption_key m) iv tag None [concat outs] = Inr ps" "concat ps = ?text"
    using assms(1-3) unfolding gcm_laws_def by metis
  let ?d = "iv @ tag @ concat outs"
  have parts: "subarray ?d 0 12 = iv" "subarray ?d 12 28 = tag" "subarray_from ?d 28 = concat outs"
    using subarray_nat [of ?d 0 12] subarray_nat [of ?d 12 28] subarray_from_nat [of ?d 28] assms(3) run(2)
    by simp_all
  have "decrypt_snapshot nc ?d m = Inr (plain v)"
    unfolding decrypt_snapshot_def Let_def parts
    using run assms(3) json_parse_stringify [OF assms(4)] by simp
  then show ?thesis using run(1) by (simp add: encrypt_snapshot_def)
qed

text \<open>
  A backup between two stores: the contract of each, and what the one hands over is fit for
  the other.
\<close>

locale backup_between =
  source: auth_store load_a save_a clear_a stored_a + target: auth_store load_b save_b clear_b stored_b
  for load_a :: "'a \<Rightarrow> js_error + json option" and save_a and clear_a and stored_a
    and load_b :: "'b \<Rightarrow> js_error + json option" and save_b and clear_b and stored_b +
  assumes plain_numbers: "numbers_ok v \<Longrightarrow> numbers_ok (plain (stored_a v)) \<and> numbers_ok (stored_a v)"
begin

lemma restored:
  assumes "gcm_laws nc" and "length (encryption_key m) = 32" and "length iv = 12"
    and "numbers_ok v" and "\<not> falsy (stored_a v)"
  shows "\<exists>s' loc ar' t'. save_a v s = Inr s' \<and>
     create_backup nc iv now (load_a s') (Some i) m ar = (Inr (i, loc), ar') \<and>
     restore_backup nc save_b i m ar' t = Inr (plain v, t') \<and> load_b t' = Inr (Some (stored_b (plain v)))"
proof -
  obtain s' where s': "save_a v s = Inr s'" "load_a s' = Inr (Some (stored_a v))"
    using source.load_save [OF assms(4)] by blast
  obtain d where d: "encrypt_snapshot nc iv (stored_a v) m = Inr d"
      "decrypt_snapshot nc d m = Inr (plain (stored_a v))"
    using snapshot_roundtrip [OF assms(1-3)] plain_numbers [OF assms(4)] by blast
  obtain t' where t': "save_b (plain v) t = Inr t'" "load_b t' = Inr (Some (stored_b (plain v)))"
    using target.load_save plain_numbers [OF assms(4)] source.stored_plain by metis
  show ?thesis
    using s' d t' assms(5)
    by (simp add: create_backup_def restore_backup_def archive_upload_def archive_download_def
        source.stored_plain Let_def)
qed

end

lemma numbers_ok_plain: "numbers_ok v \<Longrightarrow> numbers_ok (plain v)"
  by (induction v) (auto simp: list_all_iff byte_entries_def number_ok_nat)

interpretation memory_to_atomic: backup_between "\<lambda>s. Inr (memory_load s)" "\<lambda>v s. Inr (memory_save v s)"
    memory_clear "\<lambda>v. v" "atomic_load hc st" "atomic_save hc st n1 r4 n2" "atomic_clear st" plain
  for hc st n1 r4 n2
  by unfold_locales (simp_all add: numbers_ok_plain)

lemma not_falsy_creds: "\<not> falsy (creds_value c)"
  by (simp add: falsy_def creds_value_def)

text \<open>
  C21. A backup of the credentials a client holds in memory, restored into an atomic file store:
  both calls succeed, and the file store then loads the JSON image of the credentials.
\<close>

theorem backup_restores_credentials:
  assumes "gcm_laws nc" and "length (encryption_key m) = 32" and "length iv = 12" and "creds_ok c"
  shows "\<exists>loc ar' t'. create_backup nc iv now (Inr (memory_load (memory_save (creds_value c) s))) (Some i) m ar =
       (Inr (i, loc), ar') \<and>
     restore_backup nc (atomic_save nc st n1 r4 n2) i m ar' t = Inr (plain (creds_value c), t') \<and>
     atomic_load nc st t' = Inr (Some (plain (creds_value c)))"
  using memory_to_atomic.restored [OF assms(1-3) numbers_ok_creds [OF assms(4)] not_falsy_creds,
    where s = s and now = now and i = i and ar = ar and hc = nc and st = st and ?n1.0 = n1 and ?r4.0 = r4 and ?n2.0 = n2 and t = t]
  by (simp add: plain_plain)

theorem backup_restores_credentials_witness:
  "\<exists>loc ar' t'. create_backup toy_crypto (replicate 12 3) 0 (Inr (memory_load (memory_save (creds_value (init_credentials [1] 0)) None)))
       (Some (js ''b'')) \<lparr>encryption_key = replicate 32 1, backup_timer = None\<rparr> [] = (Inr (js ''b'', loc), ar') \<and>
     restore_backup toy_crypto (atomic_save toy_crypto (new_atomic_file_store (js ''d'') None) 1 [2] 3) (js ''b'')
       \<lparr>encryption_key = replicate 32 1, backup_timer = None\<rparr> ar' Map.empty = Inr (plain (creds_value (init_credentials [1] 0)), t')"
proof -
  have "creds_ok (init_credentials [1] 0)"
    by (simp add: creds_ok_def init_credentials_def random_registration_id_def safe_int_def)
  then show ?thesis
    using backup_restores_credentials [OF toy_gcm_laws, where iv = "replicate 12 3" and c = "init_credentials [1] 0"
        and m = "\<lparr>encryption_key = replicate 32 1, backup_timer = None\<rparr>" and st = "new_atomic_file_store (js ''d'') None"]
    by (simp, metis)
qed

end
