(* ===== verification/Concurrent_Saves.thy ===== *)
theory Concurrent_Saves
  imports Store_Properties
begin

text \<open>
  Saves of the atomic store that overlap (\<^verbatim>\<open>packages/wazeko-auth/src/atomic-file-store.ts\<close>). \<^verbatim>\<open>save\<close>
  suspends in each of its file operations, so the operations of several calls interleave: a call is
  what it saves, the clock readings and random bytes of its temporary names, and the operation that
  comes next; a schedule lists whose turn it is. The results: a call alone is \<^const>\<open>atomic_save\<close>;
  without checksums a load finds the old credentials or those of a finished call, whole, whatever
  the schedule; with checksums two calls that both succeed can leave a store that cannot be loaded.
\<close>

datatype save_stage = ToWriteCreds | ToWriteSum | ToRenameSum | ToRenameCreds | SaveDone | SaveFailed js_error

record save_call =
  saved_value :: json
  creds_clock :: nat
  creds_random :: bytes
  sum_clock :: nat
  stage :: save_stage

definition temp_of :: "atomic_file_store \<Rightarrow> save_call \<Rightarrow> jstr" where
  "temp_of st c = temp_creds_path (atomic_dir st) (creds_clock c) (creds_random c)"

definition temp_sum_of :: "atomic_file_store \<Rightarrow> save_call \<Rightarrow> jstr" where
  "temp_sum_of st c = temp_checksum_path (atomic_dir st) (sum_clock c)"

definition text_of :: "save_call \<Rightarrow> jstr" where
  "text_of c = stringify 2 (saved_value c)"

definition save_move :: "node_crypto \<Rightarrow> atomic_file_store \<Rightarrow> save_call \<Rightarrow> files \<Rightarrow> save_call \<times> files" where
  "save_move nc st c fs =
     (case stage c of
        ToWriteCreds \<Rightarrow>
          (c\<lparr>stage := if checksum_validation st then ToWriteSum else ToRenameCreds\<rparr>,
           write_file (temp_of st c) (text_encode (text_of c)) fs)
      | ToWriteSum \<Rightarrow>
          (c\<lparr>stage := ToRenameSum\<rparr>, write_file (temp_sum_of st c) (text_encode (checksum_of nc (text_of c))) fs)
      | ToRenameSum \<Rightarrow>
          (case rename_file (temp_sum_of st c) (checksum_file_path (atomic_dir st)) fs of
             Inl e \<Rightarrow> (c\<lparr>stage := SaveFailed e\<rparr>, fs)
           | Inr fs \<Rightarrow> (c\<lparr>stage := ToRenameCreds\<rparr>, fs))
      | ToRenameCreds \<Rightarrow>
          (case rename_file (temp_of st c) (creds_file_path (atomic_dir st)) fs of
             Inl e \<Rightarrow> (c\<lparr>stage := SaveFailed e\<rparr>, fs)
           | Inr fs \<Rightarrow> (c\<lparr>stage := SaveDone\<rparr>, fs))
      | _ \<Rightarrow> (c, fs))"

text \<open>The calls take turns; a turn of a call that has returned, or of nobody, changes nothing.\<close>

definition take_turn :: "node_crypto \<Rightarrow> atomic_file_store \<Rightarrow> nat \<Rightarrow> save_call list \<times> files \<Rightarrow> save_call list \<times> files" where
  "take_turn nc st i s =
     (if i < length (fst s) then let (c, fs) = save_move nc st (fst s ! i) (snd s) in ((fst s)[i := c], fs) else s)"

definition run_saves :: "node_crypto \<Rightarrow> atomic_file_store \<Rightarrow> nat list \<Rightarrow> save_call list \<times> files \<Rightarrow> save_call list \<times> files" where
  "run_saves nc st sched = fold (take_turn nc st) sched"

lemmas save_defs = save_move_def temp_of_def temp_sum_of_def text_of_def

section \<open>A call alone\<close>

text \<open>A call that is not interleaved with others does what \<^const>\<open>atomic_save\<close> does.\<close>

theorem save_alone:
  assumes "stage c = ToWriteCreds"
  shows "\<exists>fs'. atomic_save nc st (creds_clock c) (creds_random c) (sum_clock c) (saved_value c) fs = Inr fs' \<and>
     run_saves nc st [0, 0, 0, 0] ([c], fs) = ([c\<lparr>stage := SaveDone\<rparr>], fs')"
  using assms
  by (simp add: run_saves_def take_turn_def save_defs atomic_save_def Let_def file_defs paths_distinct
      paths_distinct [THEN not_sym])

section \<open>Any number of calls\<close>

lemma save_move_call: "\<exists>g. fst (save_move nc st c fs) = c\<lparr>stage := g\<rparr>"
  by (cases "stage c") (auto simp: save_move_def split: sum.split intro: exI [of _ "stage c"])

text \<open>Which file operations of a call are still to come, and what they need.\<close>

definition prepared :: "atomic_file_store \<Rightarrow> files \<Rightarrow> save_call \<Rightarrow> bool" where
  "prepared st fs c =
     (stage c \<in> {ToWriteSum, ToRenameSum, ToRenameCreds} \<longrightarrow> fs (temp_of st c) = Some (text_encode (text_of c)))"

definition whole :: "atomic_file_store \<Rightarrow> files \<Rightarrow> save_call list \<times> files \<Rightarrow> bool" where
  "whole st fs0 s =
     (distinct (map (temp_of st) (fst s)) \<and> list_all (prepared st (snd s)) (fst s) \<and>
      (if SaveDone \<in> stage ` set (fst s)
       then \<exists>c \<in> set (fst s). stage c = SaveDone \<and> snd s (creds_file_path (atomic_dir st)) = Some (text_encode (text_of c))
       else snd s (creds_file_path (atomic_dir st)) = fs0 (creds_file_path (atomic_dir st))))"

lemma move_same:
  assumes "save_move nc st c fs = (c', fs')"
  shows "temp_of st c' = temp_of st c" "text_of c' = text_of c" "saved_value c' = saved_value c"
  using save_move_call [of nc st c fs] assms by (auto simp: temp_of_def text_of_def)

lemma move_elsewhere:
  assumes "save_move nc st c fs = (c', fs')"
    and "p \<notin> {temp_of st c, temp_sum_of st c, checksum_file_path (atomic_dir st), creds_file_path (atomic_dir st)}"
  shows "fs' p = fs p"
  using assms by (auto simp: save_move_def file_defs split: save_stage.splits sum.splits option.splits)

lemma move_creds:
  assumes "save_move nc st c fs = (c', fs')" and "prepared st fs c"
  shows "fs' (creds_file_path (atomic_dir st)) =
     (if stage c' = SaveDone \<and> stage c \<noteq> SaveDone then Some (text_encode (text_of c)) else fs (creds_file_path (atomic_dir st)))"
    and "prepared st fs' c'"
proof -
  note paths = paths_distinct paths_distinct [THEN not_sym]
  show "fs' (creds_file_path (atomic_dir st)) =
     (if stage c' = SaveDone \<and> stage c \<noteq> SaveDone then Some (text_encode (text_of c)) else fs (creds_file_path (atomic_dir st)))"
    using assms by (auto simp: save_defs prepared_def file_defs paths split: save_stage.splits sum.splits option.splits if_splits)
  show "prepared st fs' c'"
    using assms by (auto simp: save_defs prepared_def file_defs paths split: save_stage.splits sum.splits option.splits)
qed

lemma move_done: "save_move nc st c fs = (c', fs') \<Longrightarrow> stage c = SaveDone \<Longrightarrow> c' = c"
  by (simp add: save_move_def)

lemma turn_whole:
  assumes "whole st fs0 s"
  shows "whole st fs0 (take_turn nc st i s)"
proof (cases "i < length (fst s)")
  case True
  obtain cs fs where s: "s = (cs, fs)" by (cases s)
  obtain c' fs' where m: "save_move nc st (cs ! i) fs = (c', fs')" by (cases "save_move nc st (cs ! i) fs")
  have i: "i < length cs" and cs: "cs ! i \<in> set cs" using True s by auto
  have d: "distinct (map (temp_of st) cs)" and prep: "\<And>c. c \<in> set cs \<Longrightarrow> prepared st fs c"
    using assms by (simp_all add: whole_def s list_all_iff)
  have "map (temp_of st) (cs[i := c']) = map (temp_of st) cs"
    using move_same(1) [OF m] i by (simp add: map_update list_update_id [of "map (temp_of st) cs" i, simplified nth_map [OF i]])
  with d have d': "distinct (map (temp_of st) (cs[i := c']))" by simp
  have "prepared st fs' c" if c: "c \<in> set (cs[i := c'])" for c
  proof -
    obtain j where j: "j < length cs" "c = cs[i := c'] ! j" using c by (auto simp: in_set_conv_nth)
    show ?thesis
    proof (cases "j = i")
      case True
      then show ?thesis using move_creds(2) [OF m prep [OF cs]] j by simp
    next
      case False
      then have "temp_of st (cs ! j) \<noteq> temp_of st (cs ! i)"
        using d i j(1) by (metis distinct_conv_nth length_map nth_map)
      then have "fs' (temp_of st (cs ! j)) = fs (temp_of st (cs ! j))"
        using move_elsewhere [OF m] by (simp add: temp_of_def temp_sum_of_def paths_distinct)
      then show ?thesis using prep [of "cs ! j"] False j by (simp add: prepared_def)
    qed
  qed
  moreover have "if SaveDone \<in> stage ` set (cs[i := c'])
       then \<exists>c \<in> set (cs[i := c']). stage c = SaveDone \<and> fs' (creds_file_path (atomic_dir st)) = Some (text_encode (text_of c))
       else fs' (creds_file_path (atomic_dir st)) = fs0 (creds_file_path (atomic_dir st))"
  proof (cases "stage c' = SaveDone \<and> stage (cs ! i) \<noteq> SaveDone")
    case True
    then have "fs' (creds_file_path (atomic_dir st)) = Some (text_encode (text_of c'))"
      using move_creds(1) [OF m prep [OF cs]] move_same(2) [OF m] by simp
    moreover have "c' \<in> set (cs[i := c'])" using i by (simp add: set_update_memI)
    ultimately show ?thesis using True by force
  next
    case False
    then have same: "fs' (creds_file_path (atomic_dir st)) = fs (creds_file_path (atomic_dir st))"
      using move_creds(1) [OF m prep [OF cs]] by auto
    have "c \<in> set (cs[i := c']) \<longleftrightarrow> c \<in> set cs" if "stage c = SaveDone" for c
    proof (cases "stage (cs ! i) = SaveDone")
      case True
      then show ?thesis using move_done [OF m] by simp
    next
      case not_done: False
      then have "c \<noteq> c'" "c \<noteq> cs ! i" using False that by auto
      then show ?thesis by (metis in_set_conv_nth length_list_update nth_list_update_eq nth_list_update_neq)
    qed
    then have "{c \<in> set (cs[i := c']). stage c = SaveDone} = {c \<in> set cs. stage c = SaveDone}" by blast
    then show ?thesis using assms unfolding whole_def s same fst_conv snd_conv
      by (smt (verit, best) image_iff mem_Collect_eq)
  qed
  ultimately show ?thesis
    using d' i m by (simp add: whole_def take_turn_def s list_all_iff)
qed (use assms in \<open>simp add: take_turn_def\<close>)

lemma runs_whole: "whole st fs0 s \<Longrightarrow> whole st fs0 (run_saves nc st sched s)"
  unfolding run_saves_def by (induction sched arbitrary: s) (simp_all add: turn_whole)

text \<open>Without checksums a call goes from writing to renaming and is done.\<close>

lemma plain_stages:
  assumes "\<not> checksum_validation st" and "\<forall>c \<in> set (fst s). stage c \<in> {ToWriteCreds, ToRenameCreds, SaveDone}"
    and "whole st fs0 s"
  shows "\<forall>c \<in> set (fst (take_turn nc st i s)). stage c \<in> {ToWriteCreds, ToRenameCreds, SaveDone}"
proof (cases "i < length (fst s)")
  case True
  then have c: "fst s ! i \<in> set (fst s)" by simp
  then have "prepared st (snd s) (fst s ! i)" using assms(3) by (simp add: whole_def list_all_iff)
  then have "stage (fst (save_move nc st (fst s ! i) (snd s))) \<in> {ToWriteCreds, ToRenameCreds, SaveDone}"
    using assms(1,2) c by (auto simp: save_defs prepared_def file_defs)
  then show ?thesis
    using True assms(2) by (auto simp: take_turn_def split_beta dest!: subsetD [OF set_update_subset_insert])
qed (use assms in \<open>simp add: take_turn_def\<close>)

lemma plain_runs:
  assumes "\<not> checksum_validation st" and "\<forall>c \<in> set (fst s). stage c \<in> {ToWriteCreds, ToRenameCreds, SaveDone}"
    and "whole st fs0 s"
  shows "\<forall>c \<in> set (fst (run_saves nc st sched s)). stage c \<in> {ToWriteCreds, ToRenameCreds, SaveDone}"
  using assms
proof (induction sched arbitrary: s)
  case (Cons i sched)
  have "\<forall>c \<in> set (fst (take_turn nc st i s)). stage c \<in> {ToWriteCreds, ToRenameCreds, SaveDone}"
    using Cons.prems by (rule plain_stages)
  from Cons.IH [OF assms(1) this turn_whole [OF Cons.prems(3)]] show ?case by (simp add: run_saves_def)
qed (simp add: run_saves_def)

lemma run_values:
  "map saved_value (fst (run_saves nc st sched s)) = map saved_value (fst s)"
proof (induction sched arbitrary: s)
  case (Cons i sched)
  have "map saved_value (fst (take_turn nc st i s)) = map saved_value (fst s)"
    using move_same(3) [OF surjective_pairing] by (auto simp: take_turn_def split_beta map_update list_update_same_conv)
  with Cons show ?case by (simp add: run_saves_def)
qed (simp add: run_saves_def)

section \<open>Properties\<close>

text \<open>
  C23. Overlapping saves without checksums are atomic: whatever calls overlap and however their file
  operations interleave, as long as their temporary names differ, no call fails, and at every
  moment a load finds the old credentials when no call has returned, and otherwise exactly the
  value of a call that has.
\<close>

theorem overlapping_saves_atomic:
  assumes "\<not> checksum_validation st" and "distinct (map (temp_of st) calls)"
    and "\<forall>c \<in> set calls. stage c = ToWriteCreds \<and> numbers_ok (saved_value c)"
    and "run_saves nc st sched (calls, fs) = (calls', fs')"
  shows "(\<forall>c \<in> set calls'. \<forall>e. stage c \<noteq> SaveFailed e) \<and>
     (if SaveDone \<in> stage ` set calls'
      then \<exists>c \<in> set calls'. stage c = SaveDone \<and> atomic_load nc st fs' = Inr (Some (plain (saved_value c)))
      else atomic_load nc st fs' = atomic_load nc st fs)"
proof -
  have "whole st fs (calls, fs)" using assms(2,3) by (force simp: whole_def list_all_iff prepared_def)
  note w = runs_whole [OF this, of nc sched] and st = plain_runs [OF assms(1) _ this, of nc sched]
  have "\<forall>c \<in> set calls'. stage c \<in> {ToWriteCreds, ToRenameCreds, SaveDone}" using st assms(3,4) by simp
  then have "\<forall>c \<in> set calls'. \<forall>e. stage c \<noteq> SaveFailed e" by auto
  moreover have "map saved_value calls' = map saved_value calls" using run_values [of nc st sched "(calls, fs)"] assms(4) by simp
  then have ok: "\<And>c. c \<in> set calls' \<Longrightarrow> numbers_ok (saved_value c)"
    using assms(3) by (metis (no_types, lifting) imageE image_eqI list.set_map)
  have "if SaveDone \<in> stage ` set calls'
      then \<exists>c \<in> set calls'. stage c = SaveDone \<and> atomic_load nc st fs' = Inr (Some (plain (saved_value c)))
      else atomic_load nc st fs' = atomic_load nc st fs"
    using w assms(1) ok atomic_load_consistent [of fs' st _ nc]
    by (force simp: whole_def assms(4) text_of_def atomic_load_def)
  ultimately show ?thesis by blast
qed

definition demo_call :: "nat \<Rightarrow> json \<Rightarrow> save_call" where
  "demo_call n v = \<lparr>saved_value = v, creds_clock = n, creds_random = [2], sum_clock = n, stage = ToWriteCreds\<rparr>"

lemma demo_temps: "temp_of st (demo_call 1 v) \<noteq> temp_of st (demo_call 2 w)"
  "temp_sum_of st (demo_call 1 v) \<noteq> temp_sum_of st (demo_call 2 w)"
  by (simp_all add: temp_of_def temp_sum_of_def temp_creds_path_def temp_checksum_path_def demo_call_def nat_to_js_def js_def digit_cu_def)

theorem overlapping_saves_atomic_witness:
  "\<exists>calls' fs'. run_saves toy_crypto (new_atomic_file_store [] (Some (Some False))) [0, 1, 1, 0]
       ([demo_call 1 (JBool True), demo_call 2 (JBool False)], Map.empty) = (calls', fs') \<and>
     (if SaveDone \<in> stage ` set calls'
      then \<exists>c \<in> set calls'. stage c = SaveDone \<and>
        atomic_load toy_crypto (new_atomic_file_store [] (Some (Some False))) fs' = Inr (Some (plain (saved_value c)))
      else atomic_load toy_crypto (new_atomic_file_store [] (Some (Some False))) fs' =
        atomic_load toy_crypto (new_atomic_file_store [] (Some (Some False))) Map.empty)"
proof -
  let ?st = "new_atomic_file_store [] (Some (Some False))" and ?calls = "[demo_call 1 (JBool True), demo_call 2 (JBool False)]"
  obtain calls' fs' where run: "run_saves toy_crypto ?st [0, 1, 1, 0] (?calls, Map.empty) = (calls', fs')" by fastforce
  have "\<not> checksum_validation ?st" "distinct (map (temp_of ?st) ?calls)"
    "\<forall>c \<in> set ?calls. stage c = ToWriteCreds \<and> numbers_ok (saved_value c)"
    using demo_temps(1) by (simp_all add: new_atomic_file_store_def) (simp_all add: demo_call_def)
  from conjunct2 [OF overlapping_saves_atomic [OF this run]] run show ?thesis by blast
qed

text \<open>
  C37. With checksums overlapping saves are not atomic. A call that renames its checksum, then waits while
  another call does all its work, and then renames its credentials, puts them beside the checksum of the
  other: both calls succeed, and every load from then on throws a checksum mismatch.
\<close>

theorem overlapping_saves_corrupt:
  assumes "checksum_validation st" and "stage a = ToWriteCreds" and "stage b = ToWriteCreds"
    and "temp_of st a \<noteq> temp_of st b" and "temp_sum_of st a \<noteq> temp_sum_of st b"
    and "checksum_of nc (text_of a) \<noteq> checksum_of nc (text_of b)" and "numbers_ok (saved_value a)"
  shows "\<exists>fs'. run_saves nc st [0, 0, 0, 1, 1, 1, 1, 0] ([a, b], fs) =
       ([a\<lparr>stage := SaveDone\<rparr>, b\<lparr>stage := SaveDone\<rparr>], fs') \<and>
     atomic_load nc st fs' = Inl (checksum_mismatch (checksum_of nc (text_of b)) (checksum_of nc (text_of a)))"
proof -
  note paths = paths_distinct paths_distinct [THEN not_sym] assms(4,5) [unfolded temp_of_def temp_sum_of_def]
    assms(4,5) [unfolded temp_of_def temp_sum_of_def, THEN not_sym]
  obtain fs' where run: "run_saves nc st [0, 0, 0, 1, 1, 1, 1, 0] ([a, b], fs) =
       ([a\<lparr>stage := SaveDone\<rparr>, b\<lparr>stage := SaveDone\<rparr>], fs')"
    and fs': "fs' (creds_file_path (atomic_dir st)) = Some (text_encode (text_of a))"
      "fs' (checksum_file_path (atomic_dir st)) = Some (text_encode (checksum_of nc (text_of b)))"
    using assms(1-3) by (simp add: run_saves_def take_turn_def save_defs file_defs paths)
  have "utf8_string (text_encode (text_of a)) = text_of a" using json_file_roundtrip(1) assms(7) by (simp add: text_of_def)
  then have "atomic_load nc st fs' = Inl (checksum_mismatch (checksum_of nc (text_of b)) (checksum_of nc (text_of a)))"
    using assms(1,6) by (simp add: atomic_load_def fs' checksum_text Let_def)
  with run show ?thesis by blast
qed

theorem overlapping_saves_corrupt_witness:
  "\<exists>fs'. run_saves toy_crypto (new_atomic_file_store [] None) [0, 0, 0, 1, 1, 1, 1, 0]
       ([demo_call 1 (JBool True), demo_call 2 JNull], Map.empty) =
       ([(demo_call 1 (JBool True))\<lparr>stage := SaveDone\<rparr>, (demo_call 2 JNull)\<lparr>stage := SaveDone\<rparr>], fs') \<and>
     atomic_load toy_crypto (new_atomic_file_store [] None) fs' =
       Inl (checksum_mismatch (checksum_of toy_crypto (js ''null'')) (checksum_of toy_crypto (js ''true'')))"
proof -
  have differ: "checksum_of toy_crypto (js ''true'') \<noteq> checksum_of toy_crypto (js ''null'')" by code_simp
  have texts: "text_of (demo_call 1 (JBool True)) = js ''true''" "text_of (demo_call 2 JNull) = js ''null''"
    by (simp_all add: text_of_def demo_call_def stringify_def)
  show ?thesis
    using overlapping_saves_corrupt [of "new_atomic_file_store [] None" "demo_call 1 (JBool True)" "demo_call 2 JNull" toy_crypto,
        OF _ _ _ demo_temps, unfolded texts] differ
    by (simp add: new_atomic_file_store_def) (simp add: demo_call_def)
qed

text \<open>
  Two calls that write their checksums in the same millisecond share the temporary name: the one that renames
  second finds nothing to rename and is rejected.
\<close>

theorem same_millisecond_save_fails:
  assumes "checksum_validation st" and "stage a = ToWriteCreds" and "stage b = ToWriteCreds"
    and "temp_of st a \<noteq> temp_of st b" and "temp_sum_of st a = temp_sum_of st b"
  shows "fst (run_saves nc st [0, 0, 1, 1, 0, 1] ([a, b], fs)) =
     [a\<lparr>stage := ToRenameCreds\<rparr>, b\<lparr>stage := SaveFailed enoent\<rparr>]"
  using assms by (simp add: run_saves_def take_turn_def save_defs file_defs paths_distinct paths_distinct [THEN not_sym])

end
