(* ===== verification/Web_Socket.thy ===== *)
theory Web_Socket
  imports Errors Js_Json
begin

text \<open>
  The transport (\<^verbatim>\<open>socket.ts\<close> and \<^verbatim>\<open>websocket.ts\<close> of \<^verbatim>\<open>packages/wazeko-transport/src\<close>). The
  sockets of the \<^verbatim>\<open>ws\<close> package are numbered in the order they were made. The transport's
  record holds its own fields, for each socket the outcome of the promise its \<open>connect\<close>
  returned, and what was emitted; what the package does (construct, change the ready state,
  call the listeners) is the step relation \<open>ws_step\<close>, by the documented life of a socket.
  The result: the transport reports a connection exactly while its socket is open, as long
  as no socket is left closing when the next one is made; otherwise the late close of the
  old socket cuts off the new one.
\<close>

datatype transport_event = OpenEvent | MessageEvent bytes | CloseEvent nat jstr | ErrorEvent js_error

text \<open>A settled promise: resolved, or rejected with an error.\<close>

datatype settlement = Resolved | Rejected js_error

record transport =
  current_ws :: "nat option"
  transport_url :: jstr
  transport_connected :: bool
  transport_timeout :: nat
  attempts :: "settlement option list"
  emitted :: "transport_event list"

definition new_transport :: "jstr option \<Rightarrow> nat option \<Rightarrow> transport" where
  "new_transport url timeoutMs =
     \<lparr>current_ws = None,
      transport_url = (case url of None \<Rightarrow> js ''wss://web.whatsapp.com/ws/chat'' | Some u \<Rightarrow> u),
      transport_connected = False,
      transport_timeout = (case timeoutMs of None \<Rightarrow> 30000 | Some n \<Rightarrow> n),
      attempts = [], emitted = []\<rparr>"

datatype ready_state = CONNECTING | OPEN | CLOSING | CLOSED

definition is_connected :: "(nat \<Rightarrow> ready_state) \<Rightarrow> transport \<Rightarrow> bool" where
  "is_connected ready t =
     (transport_connected t \<and> (case current_ws t of None \<Rightarrow> False | Some i \<Rightarrow> ready i = OPEN))"

text \<open>Only the first settlement of a promise counts; \<open>settled\<close> guards the later ones.\<close>

definition settle :: "nat \<Rightarrow> settlement \<Rightarrow> transport \<Rightarrow> transport" where
  "settle i r t =
     (if i < length (attempts t) \<and> attempts t ! i = None then t\<lparr>attempts := (attempts t)[i := Some r]\<rparr> else t)"

definition ws_emit :: "transport_event \<Rightarrow> transport \<Rightarrow> transport" where
  "ws_emit ev t = t\<lparr>emitted := emitted t @ [ev]\<rparr>"

text \<open>\<open>constructed\<close> is the error the constructor of the socket throws, if any.\<close>

definition ws_connect :: "js_error option \<Rightarrow> transport \<Rightarrow> transport" where
  "ws_connect constructed t =
     (case constructed of
        Some e \<Rightarrow> t\<lparr>attempts := attempts t @
           [Some (Rejected (connection_error (js ''Failed to initialize WebSocket: '' @ err_message e) (Some e)))]\<rparr>
      | None \<Rightarrow> t\<lparr>current_ws := Some (length (attempts t)), attempts := attempts t @ [None]\<rparr>)"

definition on_open :: "nat \<Rightarrow> transport \<Rightarrow> transport" where
  "on_open i t = settle i Resolved (ws_emit OpenEvent (t\<lparr>transport_connected := True\<rparr>))"

text \<open>The data of a message: a buffer, an array buffer, a text, or a list of buffers.\<close>

datatype ws_data = WsBuffer bytes | WsArrayBuffer bytes | WsText jstr | WsFragments "bytes list"

definition message_bytes :: "ws_data \<Rightarrow> bytes" where
  "message_bytes d =
     (case d of
        WsBuffer bs \<Rightarrow> bs
      | WsArrayBuffer bs \<Rightarrow> bs
      | WsText s \<Rightarrow> text_encode s
      | WsFragments bss \<Rightarrow> text_encode (join (js '','') (map utf8_string bss)))"

definition on_message :: "ws_data \<Rightarrow> transport \<Rightarrow> transport" where
  "on_message d t = ws_emit (MessageEvent (message_bytes d)) t"

definition on_close :: "nat \<Rightarrow> nat \<Rightarrow> bytes \<Rightarrow> transport \<Rightarrow> transport" where
  "on_close i c reason t =
     settle i (Rejected (connection_error (js ''WebSocket closed before connected (code: '' @ nat_to_js c @ js '')'') None))
       (ws_emit (CloseEvent c (utf8_string reason)) (t\<lparr>transport_connected := False\<rparr>))"

text \<open>
  \<^verbatim>\<open>emit("error")\<close> throws its argument when nobody listens; then the promise is not settled.
\<close>

definition on_error :: "bool \<Rightarrow> nat \<Rightarrow> js_error \<Rightarrow> transport \<Rightarrow> js_error + transport" where
  "on_error listened i e t =
     (if listened then
        Inr (settle i (Rejected (connection_error (js ''WebSocket connection error: '' @ err_message e) (Some e)))
               (ws_emit (ErrorEvent e) t))
      else Inl e)"

text \<open>\<open>sent\<close> is what the package's \<^verbatim>\<open>send\<close> passes to its callback.\<close>

definition ws_send :: "(nat \<Rightarrow> ready_state) \<Rightarrow> (bytes \<Rightarrow> js_error option) \<Rightarrow> bytes \<Rightarrow> transport \<Rightarrow> js_error + unit" where
  "ws_send ready sent data t =
     (if \<not> is_connected ready t \<or> current_ws t = None
      then Inl (connection_error (js ''Cannot send data: WebSocket is not connected'') None)
      else case sent data of
             None \<Rightarrow> Inr ()
           | Some e \<Rightarrow> Inl (connection_error (js ''Failed to send packet: '' @ err_message e) (Some e)))"

text \<open>The socket whose \<^verbatim>\<open>close\<close> is called, and the transport after it.\<close>

definition ws_close :: "transport \<Rightarrow> nat option \<times> transport" where
  "ws_close t = (current_ws t, t\<lparr>current_ws := None, transport_connected := False\<rparr>)"

section \<open>The transport and its sockets\<close>

text \<open>
  The steps of the program: calls of \<open>connect\<close> and \<open>close\<close>, and what the package does to the
  sockets, each with its listener. A socket opens when it was connecting, may start to
  close at any time, and closes once. With \<open>careful\<close>, a new socket is made only when all the
  others are closed.
\<close>

inductive ws_step :: "bool \<Rightarrow> (nat \<Rightarrow> ready_state) \<times> transport \<Rightarrow> (nat \<Rightarrow> ready_state) \<times> transport \<Rightarrow> bool"
  for careful where
  connect_fails: "ws_step careful (rs, t) (rs(length (attempts t) := CLOSED), ws_connect (Some e) t)"
| connects: "(careful \<Longrightarrow> \<forall>j < length (attempts t). rs j = CLOSED) \<Longrightarrow>
     ws_step careful (rs, t) (rs(length (attempts t) := CONNECTING), ws_connect None t)"
| opens: "rs i = CONNECTING \<Longrightarrow> ws_step careful (rs, t) (rs(i := OPEN), on_open i t)"
| message: "rs i \<in> {OPEN, CLOSING} \<Longrightarrow> ws_step careful (rs, t) (rs, on_message d t)"
| closing: "rs i \<noteq> CLOSED \<Longrightarrow> ws_step careful (rs, t) (rs(i := CLOSING), t)"
| error: "rs i \<noteq> CLOSED \<Longrightarrow> on_error True i e t = Inr t' \<Longrightarrow> ws_step careful (rs, t) (rs(i := CLOSING), t')"
| closes: "rs i \<noteq> CLOSED \<Longrightarrow> ws_step careful (rs, t) (rs(i := CLOSED), on_close i c reason t)"
| close_none: "ws_close t = (None, t') \<Longrightarrow> ws_step careful (rs, t) (rs, t')"
| close_some: "ws_close t = (Some i, t') \<Longrightarrow>
     ws_step careful (rs, t) (if rs i = CLOSED then rs else rs(i := CLOSING), t')"

definition ws_start :: "jstr option \<Rightarrow> nat option \<Rightarrow> (nat \<Rightarrow> ready_state) \<times> transport" where
  "ws_start url timeoutMs = (\<lambda>i. CLOSED, new_transport url timeoutMs)"

definition ws_reach :: "bool \<Rightarrow> (nat \<Rightarrow> ready_state) \<times> transport \<Rightarrow> bool" where
  "ws_reach careful s = (\<exists>url timeoutMs. (ws_step careful)\<^sup>*\<^sup>* (ws_start url timeoutMs) s)"

lemmas handler_defs = on_open_def on_message_def on_close_def on_error_def ws_close_def ws_connect_def ws_emit_def

lemma settle_fields [simp]:
  "current_ws (settle i r t) = current_ws t" "transport_connected (settle i r t) = transport_connected t"
  "length (attempts (settle i r t)) = length (attempts t)" "emitted (settle i r t) = emitted t"
  by (simp_all add: settle_def)

lemma settle_nth:
  "j < length (attempts t) \<Longrightarrow>
     attempts (settle i r t) ! j = (if j = i \<and> attempts t ! j = None then Some r else attempts t ! j)"
  by (auto simp: settle_def nth_list_update)

lemma ws_induct [consumes 1, case_names start step]:
  assumes "ws_reach careful s" and "\<And>url tm. P (ws_start url tm)"
    and "\<And>s s'. P s \<Longrightarrow> ws_step careful s s' \<Longrightarrow> P s'"
  shows "P s"
proof -
  obtain url tm where "(ws_step careful)\<^sup>*\<^sup>* (ws_start url tm) s" using assms(1) by (auto simp: ws_reach_def)
  then show ?thesis by induction (use assms(2,3) in blast)+
qed

lemma ws_reach_start: "ws_reach careful (ws_start url tm)"
  by (auto simp: ws_reach_def)

lemma ws_reach_step: "ws_reach careful s \<Longrightarrow> ws_step careful s s' \<Longrightarrow> ws_reach careful s'"
  unfolding ws_reach_def by (blast intro: rtranclp.rtrancl_into_rtrancl)

text \<open>A transport that made one connection, which opened.\<close>

definition open_transport :: transport where
  "open_transport = on_open 0 (ws_connect None (new_transport None None))"

lemma open_transport_fields [simp]:
  "current_ws open_transport = Some 0" "transport_connected open_transport" "attempts open_transport = [Some Resolved]"
  by (simp_all add: open_transport_def handler_defs new_transport_def settle_def)

lemma connect_reach:
  "ws_reach careful (rs, t) \<Longrightarrow> n = length (attempts t) \<Longrightarrow> (careful \<Longrightarrow> \<forall>j < n. rs j = CLOSED) \<Longrightarrow>
     ws_reach careful (rs(n := CONNECTING), ws_connect None t)"
  by (rule ws_reach_step, assumption) (simp add: ws_step.connects)

lemma open_reach:
  "ws_reach careful (rs, t) \<Longrightarrow> rs i = CONNECTING \<Longrightarrow> ws_reach careful (rs(i := OPEN), on_open i t)"
  by (rule ws_reach_step, assumption) (rule ws_step.opens)

lemma open_transport_reach: "ws_reach careful ((\<lambda>i. CLOSED)(0 := OPEN), open_transport)"
proof -
  have "ws_reach careful ((\<lambda>i. CLOSED)(0 := CONNECTING), ws_connect None (new_transport None None))"
    using ws_reach_start [of careful None None] unfolding ws_start_def
    by (rule connect_reach) (simp_all add: new_transport_def)
  from open_reach [OF this, of 0] show ?thesis by (simp add: open_transport_def)
qed

section \<open>Promises of connect\<close>

text \<open>What the ready state of a socket says of the promise of its \<open>connect\<close>.\<close>

fun attempt_fits :: "ready_state \<Rightarrow> settlement option \<Rightarrow> bool" where
  "attempt_fits CONNECTING a = (a = None)"
| "attempt_fits OPEN a = (a = Some Resolved)"
| "attempt_fits CLOSING a = True"
| "attempt_fits CLOSED a = (a \<noteq> None)"

definition sockets_ok :: "(nat \<Rightarrow> ready_state) \<times> transport \<Rightarrow> bool" where
  "sockets_ok s = (case s of (rs, t) \<Rightarrow>
     (\<forall>i \<ge> length (attempts t). rs i = CLOSED) \<and>
     (\<forall>i < length (attempts t). attempt_fits (rs i) (attempts t ! i)))"

lemma sockets_ok_step: "sockets_ok s \<Longrightarrow> ws_step careful s s' \<Longrightarrow> sockets_ok s'"
proof -
  assume ok: "sockets_ok s" and step: "ws_step careful s s'"
  have known: "rs i \<noteq> CLOSED \<Longrightarrow> s = (rs, t) \<Longrightarrow> i < length (attempts t)" for rs t i
    using ok by (auto simp: sockets_ok_def) (metis not_less)
  from step show ?thesis
    by cases (use ok known in \<open>auto simp: sockets_ok_def handler_defs nth_append settle_nth less_Suc_eq\<close>)
qed

lemma sockets_ok_reach: "ws_reach careful s \<Longrightarrow> sockets_ok s"
  by (induction rule: ws_induct)
    (simp add: sockets_ok_def ws_start_def new_transport_def, rule sockets_ok_step)

lemma settled_forever:
  assumes "ws_step careful (rs, t) (rs', t')" and "i < length (attempts t)" and "attempts t ! i = Some r"
  shows "attempts t' ! i = Some r"
  using assms by cases (auto simp: handler_defs settle_nth nth_append)

text \<open>
  In every state the transport can get into, the promise of a \<^verbatim>\<open>connect\<close> is pending while
  its socket is connecting, resolved while it is open and settled once it is closed; and no
  further step changes how it was settled.
\<close>

theorem connect_promise_fits:
  assumes "ws_reach careful (rs, t)" and "i < length (attempts t)" and "ws_step careful (rs, t) (rs', t')"
  shows "attempt_fits (rs i) (attempts t ! i) \<and> attempt_fits (rs' i) (attempts t' ! i) \<and>
     (attempts t ! i = None \<or> attempts t' ! i = attempts t ! i)"
proof -
  have "sockets_ok (rs, t)" using assms(1) by (rule sockets_ok_reach)
  moreover from this have "sockets_ok (rs', t')" using assms(3) by (rule sockets_ok_step)
  moreover have "length (attempts t) \<le> length (attempts t')"
    using assms(3) by cases (auto simp: handler_defs)
  ultimately show ?thesis
    using settled_forever [OF assms(3,2)] assms(2) by (cases "attempts t ! i") (auto simp: sockets_ok_def dest!: spec [of _ i])
qed

theorem connect_promise_fits_witness:
  "attempts open_transport ! 0 = Some Resolved \<and>
     attempts (on_close 0 1006 [] open_transport) ! 0 = Some Resolved"
proof -
  have pre: "ws_reach True ((\<lambda>i. CLOSED)(0 := OPEN), open_transport)"
      "ws_step True ((\<lambda>i. CLOSED)(0 := OPEN), open_transport)
         (((\<lambda>i. CLOSED)(0 := OPEN))(0 := CLOSED), on_close 0 1006 [] open_transport)"
      "(0::nat) < length (attempts open_transport)"
    by (rule open_transport_reach, rule ws_step.closes) simp_all
  show ?thesis using connect_promise_fits [OF pre(1,3,2)] by auto
qed

section \<open>The reported connection\<close>

definition single_socket :: "(nat \<Rightarrow> ready_state) \<times> transport \<Rightarrow> bool" where
  "single_socket s = (case s of (rs, t) \<Rightarrow>
     (\<forall>i j. rs i \<noteq> CLOSED \<and> rs j \<noteq> CLOSED \<longrightarrow> i = j) \<and>
     (\<forall>i. rs i = CONNECTING \<or> rs i = OPEN \<longrightarrow> current_ws t = Some i) \<and>
     (\<forall>i. rs i = OPEN \<longrightarrow> transport_connected t))"

lemma single_socket_step:
  assumes "single_socket s" and "sockets_ok s" and "ws_step True s s'"
  shows "single_socket s'"
proof -
  note defs = single_socket_def sockets_ok_def handler_defs
  have only: "s = (rs, t) \<Longrightarrow> rs i \<noteq> CLOSED \<Longrightarrow> j \<noteq> i \<Longrightarrow> rs j = CLOSED" for rs t i j
    using assms(1) by (auto simp: single_socket_def)
  from assms(3) show ?thesis
  proof cases
    case (connects t rs)
    then have "rs j = CLOSED" for j
      using assms(2) by (cases "j < length (attempts t)") (auto simp: sockets_ok_def)
    then show ?thesis using connects by (auto simp: defs)
  next
    case (close_some t i t' rs)
    then show ?thesis using assms(1) by (auto simp: defs)
  next
    case (closing rs i t)
    then show ?thesis using assms(1) by (auto simp: defs)
  next
    case (opens rs i t)
    then show ?thesis using assms(1) only [of rs t i] by (simp add: defs)
  next
    case (closes rs i t c reason)
    then show ?thesis using assms(1) only [of rs t i] by (simp add: defs)
  next
    case (error rs i e t t')
    then show ?thesis using assms(1) only [of rs t i] by (auto simp: defs)
  qed (use assms(1,2) in \<open>auto simp: defs\<close>)
qed

lemma single_socket_reach: "ws_reach True s \<Longrightarrow> single_socket s \<and> sockets_ok s"
proof (induction rule: ws_induct)
  case (start url tm)
  then show ?case by (simp add: single_socket_def sockets_ok_def ws_start_def new_transport_def)
next
  case (step s s')
  then show ?case using single_socket_step sockets_ok_step by blast
qed

text \<open>
  C31. As long as a new connection is made only after the sockets of all earlier ones are
  closed, the transport reports a connection exactly while there is an open socket, that
  socket is its current one, and then \<^verbatim>\<open>send\<close> hands the data to it.
\<close>

theorem connected_iff_open:
  assumes "ws_reach True (rs, t)"
  shows "is_connected rs t = (\<exists>i. rs i = OPEN) \<and> (\<forall>i. rs i = OPEN \<longleftrightarrow> is_connected rs t \<and> current_ws t = Some i) \<and>
     (ws_send rs sent data t = Inr ()) = (is_connected rs t \<and> sent data = None)"
  using single_socket_reach [OF assms]
  by (auto simp: single_socket_def is_connected_def ws_send_def split: option.splits)

theorem connected_iff_open_witness:
  "is_connected ((\<lambda>i. CLOSED)(0 := OPEN)) open_transport \<and>
     ws_send ((\<lambda>i. CLOSED)(0 := OPEN)) (\<lambda>d. None) [1, 2] open_transport = Inr ()"
proof -
  have "is_connected ((\<lambda>i. CLOSED)(0 := OPEN)) open_transport" by (simp add: is_connected_def)
  then show ?thesis using connected_iff_open [OF open_transport_reach, of "\<lambda>d. None" "[1, 2]"] by blast
qed

text \<open>
  Without that care a reconnect can be lost: after \<^verbatim>\<open>close\<close> and a second \<^verbatim>\<open>connect\<close> whose promise
  resolved and whose socket is open, the close event of the first socket clears the flag,
  and the transport reports no connection and refuses to send, with a working socket.
\<close>

theorem late_close_loses_connection:
  "\<exists>rs t. ws_reach False (rs, t) \<and> current_ws t = Some 1 \<and> rs 1 = OPEN \<and> attempts t ! 1 = Some Resolved \<and>
     \<not> is_connected rs t \<and>
     ws_send rs sent data t = Inl (connection_error (js ''Cannot send data: WebSocket is not connected'') None)"
proof -
  let ?shut = "snd (ws_close open_transport)"
  let ?two = "on_open 1 (ws_connect None ?shut)"
  let ?lost = "on_close 0 1005 [] ?two"
  have "ws_reach False ((\<lambda>i. CLOSED)(0 := CLOSING), ?shut)"
    using ws_reach_step [OF open_transport_reach ws_step.close_some [of _ 0 ?shut]] by (simp add: ws_close_def)
  then have "ws_reach False (((\<lambda>i. CLOSED)(0 := CLOSING))(1 := CONNECTING), ws_connect None ?shut)"
    by (rule connect_reach) (simp_all add: ws_close_def)
  then have "ws_reach False (((\<lambda>i. CLOSED)(0 := CLOSING, 1 := CONNECTING))(1 := OPEN), ?two)"
    by (rule open_reach) simp
  then have "ws_reach False (((\<lambda>i. CLOSED)(0 := CLOSING))(1 := OPEN), ?two)" by simp
  then have "ws_reach False ((((\<lambda>i. CLOSED)(0 := CLOSING))(1 := OPEN))(0 := CLOSED), ?lost)"
    by (rule ws_reach_step) (rule ws_step.closes, simp)
  moreover have "current_ws ?lost = Some 1 \<and> attempts ?lost ! 1 = Some Resolved \<and> \<not> transport_connected ?lost"
    by (simp add: handler_defs settle_def)
  ultimately show ?thesis
    by (intro exI [of _ "(((\<lambda>i. CLOSED)(0 := CLOSING))(1 := OPEN))(0 := CLOSED)"] exI [of _ ?lost])
      (simp add: is_connected_def ws_send_def)
qed

end
