(* ===== verification/Ttl_Cleanup.thy ===== *)
theory Ttl_Cleanup
  imports Complex_Main Prelude Js_String
begin

text \<open>
  The cleanup of temporary files (\<^verbatim>\<open>packages/wazeko/src/media/ttl-cleanup.ts\<close>). The directory is
  a map from names to what \<^verbatim>\<open>stat\<close> says of them, the listing is what \<^verbatim>\<open>readdir\<close> returned (a name
  may have gone since), \<open>stuck\<close> tells which files cannot be removed, the clock is an
  argument. The result: one run removes exactly the expired files it can, counts these,
  and reports as reclaimed also the bytes of those it could not remove.
\<close>

record dir_entry =
  is_file :: bool
  mtime_ms :: rat
  entry_size :: nat

type_synonym directory = "jstr \<rightharpoonup> dir_entry"

record temp_cleanup_manager =
  temp_dir :: jstr
  ttl_ms :: nat
  interval_ms :: nat
  cleanup_timer :: "nat option"

definition new_temp_cleanup_manager :: "jstr \<Rightarrow> nat option \<Rightarrow> nat option \<Rightarrow> temp_cleanup_manager" where
  "new_temp_cleanup_manager dir ttl interval =
     \<lparr>temp_dir = dir,
      ttl_ms = (case ttl of None \<Rightarrow> 15 * 60 * 1000 | Some n \<Rightarrow> n),
      interval_ms = (case interval of None \<Rightarrow> 5 * 60 * 1000 | Some n \<Rightarrow> n),
      cleanup_timer = None\<rparr>"

definition expired :: "rat \<Rightarrow> nat \<Rightarrow> dir_entry \<Rightarrow> bool" where
  "expired now ttl e = (is_file e \<and> now - mtime_ms e > of_nat ttl)"

definition clean_file ::
    "rat \<Rightarrow> nat \<Rightarrow> (jstr \<Rightarrow> bool) \<Rightarrow> jstr \<Rightarrow> nat \<times> nat \<times> directory \<Rightarrow> nat \<times> nat \<times> directory" where
  "clean_file now ttl stuck name s =
     (case s of (deletedCount, reclaimedBytes, d) \<Rightarrow>
        case d name of
          None \<Rightarrow> s
        | Some e \<Rightarrow>
            if expired now ttl e then
              if stuck name then (deletedCount, reclaimedBytes + entry_size e, d)
              else (deletedCount + 1, reclaimedBytes + entry_size e, d(name := None))
            else s)"

definition run_cleanup ::
    "rat \<Rightarrow> (jstr \<Rightarrow> bool) \<Rightarrow> jstr list option \<Rightarrow> temp_cleanup_manager \<Rightarrow> directory \<Rightarrow> nat \<times> nat \<times> directory" where
  "run_cleanup now stuck listing m d =
     (case listing of
        None \<Rightarrow> (0, 0, d)
      | Some names \<Rightarrow> fold (clean_file now (ttl_ms m) stuck) names (0, 0, d))"

definition stop_cleanup :: "temp_cleanup_manager \<Rightarrow> temp_cleanup_manager" where
  "stop_cleanup m = m\<lparr>cleanup_timer := None\<rparr>"

definition start_cleanup :: "temp_cleanup_manager \<Rightarrow> temp_cleanup_manager" where
  "start_cleanup m = (stop_cleanup m)\<lparr>cleanup_timer := Some (interval_ms m)\<rparr>"

section \<open>What a run removes\<close>

text \<open>The names of a listing whose file is expired, and the bytes under some names.\<close>

definition expired_names :: "rat \<Rightarrow> nat \<Rightarrow> directory \<Rightarrow> jstr list \<Rightarrow> jstr list" where
  "expired_names now ttl d names =
     filter (\<lambda>x. case d x of None \<Rightarrow> False | Some e \<Rightarrow> expired now ttl e) names"

definition bytes_under :: "directory \<Rightarrow> jstr list \<Rightarrow> nat" where
  "bytes_under d names = sum_list (map (\<lambda>x. case d x of None \<Rightarrow> 0 | Some e \<Rightarrow> entry_size e) names)"

definition without :: "jstr list \<Rightarrow> directory \<Rightarrow> directory" where
  "without names d = (\<lambda>x. if x \<in> set names then None else d x)"

lemma unlisted:
  "x \<notin> set names \<Longrightarrow> expired_names now ttl (d(x := y)) names = expired_names now ttl d names"
  "x \<notin> set names \<Longrightarrow> bytes_under (d(x := y)) names = bytes_under d names"
  by (induction names) (auto simp: expired_names_def bytes_under_def)

lemma listed:
  "expired_names now ttl d (x # names) =
     (if (case d x of None \<Rightarrow> False | Some e \<Rightarrow> expired now ttl e) then [x] else []) @ expired_names now ttl d names"
  "bytes_under d (x # names) = (case d x of None \<Rightarrow> 0 | Some e \<Rightarrow> entry_size e) + bytes_under d names"
  "without (x # names) d = without names (d(x := None))" "without [] d = d"
  by (auto simp: expired_names_def bytes_under_def without_def)

lemma clean_step:
  "d x = None \<Longrightarrow> clean_file now ttl stuck x (n, b, d) = (n, b, d)"
  "d x = Some e \<Longrightarrow> clean_file now ttl stuck x (n, b, d) =
     (if expired now ttl e then (if stuck x then n else n + 1, b + entry_size e, if stuck x then d else d(x := None))
      else (n, b, d))"
  by (simp_all add: clean_file_def)

lemma clean_files:
  assumes "distinct names"
  shows "fold (clean_file now ttl stuck) names (n, b, d) =
     (let old = expired_names now ttl d names; gone = filter (\<lambda>x. \<not> stuck x) old
      in (n + length gone, b + bytes_under d old, without gone d))"
  using assms
proof (induction names arbitrary: n b d)
  case Nil
  then show ?case by (simp add: expired_names_def bytes_under_def without_def)
next
  case (Cons x names)
  then have IH: "fold (clean_file now ttl stuck) names (n, b, d) =
     (let old = expired_names now ttl d names; gone = filter (\<lambda>x. \<not> stuck x) old
      in (n + length gone, b + bytes_under d old, without gone d))" for n b d
    by simp
  have "x \<notin> set (expired_names now ttl d names)"
    using Cons.prems by (simp add: expired_names_def)
  then have sizes: "bytes_under (d(x := None)) (expired_names now ttl d names) = bytes_under d (expired_names now ttl d names)"
    by (rule unlisted)
  show ?case
    using Cons.prems sizes
    by (cases "d x") (simp_all add: clean_step IH Let_def listed unlisted)
qed

text \<open>
  A run over the names of the directory removes exactly the files that are older than the
  limit and can be removed, and counts them. The bytes it reports are those of the removed
  files plus those of the expired files it failed to remove, and a second run at the same
  time removes nothing.
\<close>

theorem cleanup_removes_expired:
  assumes "distinct names"
  shows "let old = expired_names now (ttl_ms m) d names;
       gone = filter (\<lambda>x. \<not> stuck x) old; kept = filter stuck old
     in run_cleanup now stuck (Some names) m d = (length gone, bytes_under d gone + bytes_under d kept, without gone d) \<and>
        run_cleanup now stuck (Some names) m (without gone d) = (0, bytes_under d kept, without gone d)"
proof -
  let ?old = "expired_names now (ttl_ms m) d names"
  let ?gone = "filter (\<lambda>x. \<not> stuck x) ?old" and ?kept = "filter stuck ?old"
  have split: "bytes_under d xs = bytes_under d (filter (\<lambda>x. \<not> stuck x) xs) + bytes_under d (filter stuck xs)" for xs
    by (induction xs) (auto simp: bytes_under_def)
  have later: "expired_names now (ttl_ms m) (without ?gone d) names = ?kept"
    unfolding expired_names_def filter_filter
    by (rule filter_cong) (auto simp: without_def expired_names_def split: option.split)
  have same: "bytes_under (without ?gone d) ?kept = bytes_under d ?kept"
    unfolding bytes_under_def by (rule arg_cong [of _ _ sum_list], rule map_cong) (auto simp: without_def)
  show ?thesis
    unfolding run_cleanup_def option.case Let_def clean_files [OF assms] later
    using split [of ?old] same by (auto simp: without_def filter_empty_conv)
qed

theorem cleanup_removes_expired_witness:
  "run_cleanup 2000000 (\<lambda>x. x = [3]) (Some [[1], [2], [3]]) (new_temp_cleanup_manager [] None None)
     [[1] \<mapsto> \<lparr>is_file = True, mtime_ms = 0, entry_size = 5\<rparr>, [2] \<mapsto> \<lparr>is_file = True, mtime_ms = 1999999, entry_size = 7\<rparr>,
      [3] \<mapsto> \<lparr>is_file = True, mtime_ms = 1, entry_size = 9\<rparr>] =
   (1, 14, [[2] \<mapsto> \<lparr>is_file = True, mtime_ms = 1999999, entry_size = 7\<rparr>,
      [3] \<mapsto> \<lparr>is_file = True, mtime_ms = 1, entry_size = 9\<rparr>])"
proof -
  have "distinct [[1], [2], [3 :: cunit]]" by simp
  note run = cleanup_removes_expired [OF this, of 2000000 "new_temp_cleanup_manager [] None None"
      "[[1] \<mapsto> \<lparr>is_file = True, mtime_ms = 0, entry_size = 5\<rparr>, [2] \<mapsto> \<lparr>is_file = True, mtime_ms = 1999999, entry_size = 7\<rparr>,
        [3] \<mapsto> \<lparr>is_file = True, mtime_ms = 1, entry_size = 9\<rparr>]" "\<lambda>x. x = [3]", unfolded Let_def, THEN conjunct1]
  show ?thesis
    unfolding run by (auto simp: expired_names_def expired_def new_temp_cleanup_manager_def bytes_under_def without_def fun_eq_iff)
qed

end
