(* ===== verification/Qr_Page.thy ===== *)
theory Qr_Page
  imports Js_Number
begin

text \<open>
  The page the monitoring server shows for logging in (\<^verbatim>\<open>renderQrPage\<close> of
  \<^verbatim>\<open>packages/wazeko/src/observability/monitoring-server.ts\<close>): the text of its template, line by
  line, with the connection state and the code of the login inserted as they are.
\<close>

definition text_lines :: "jstr list \<Rightarrow> jstr" where
  "text_lines ls = concat (map (\<lambda>l. l @ [10]) ls)"

text \<open>\<^verbatim>\<open>toUpperCase\<close> of a connection state.\<close>

definition upper_case :: "jstr \<Rightarrow> jstr" where
  "upper_case = map (\<lambda>c. if 97 \<le> c \<and> c \<le> 122 then c - 32 else c)"

definition page_style :: jstr where
  "page_style = text_lines [
    js ''<!DOCTYPE html>'',
    js ''<html lang=\"id\">'',
    js ''<head>'',
    js ''  <meta charset=\"UTF-8\">'',
    js ''  <meta name=\"viewport\" content=\"width=device-width, initial-scale=1.0\">'',
    js ''  <title>Wazeko WhatsApp Auth & Monitor</title>'',
    js ''  <style>'',
    js ''    :root {'',
    js ''      --bg: #0d1117;'',
    js ''      --card: #161b22;'',
    js ''      --border: #30363d;'',
    js ''      --text: #c9d1d9;'',
    js ''      --accent: #238636;'',
    js ''      --accent-hover: #2ea043;'',
    js ''      --tag-green: #238636;'',
    js ''      --tag-yellow: #d29922;'',
    js ''    }'',
    js ''    body {'',
    js ''      font-family: -apple-system, BlinkMacSystemFont, \"Segoe UI\", Roboto, Helvetica, Arial, sans-serif;'',
    js ''      background: var(--bg);'',
    js ''      color: var(--text);'',
    js ''      display: flex;'',
    js ''      flex-direction: column;'',
    js ''      align-items: center;'',
    js ''      justify-content: center;'',
    js ''      min-height: 100vh;'',
    js ''      margin: 0;'',
    js ''      padding: 20px;'',
    js ''      box-sizing: border-box;'',
    js ''    }'',
    js ''    .container {'',
    js ''      background: var(--card);'',
    js ''      border: 1px solid var(--border);'',
    js ''      border-radius: 12px;'',
    js ''      padding: 32px;'',
    js ''      max-width: 480px;'',
    js ''      width: 100%;'',
    js ''      box-shadow: 0 8px 24px rgba(0,0,0,0.5);'',
    js ''      text-align: center;'',
    js ''    }'',
    js ''    h1 {'',
    js ''      margin-top: 0;'',
    js ''      font-size: 1.5rem;'',
    js ''      color: #58a6ff;'',
    js ''    }'',
    js ''    .badge {'',
    js ''      display: inline-block;'',
    js ''      padding: 4px 12px;'',
    js ''      border-radius: 20px;'',
    js ''      font-size: 0.85rem;'',
    js ''      font-weight: 600;'',
    js ''      background: #21262d;'',
    js ''      border: 1px solid var(--border);'',
    js ''      margin-bottom: 20px;'',
    js ''    }'',
    js ''    .badge.connected { color: #3fb950; border-color: #238636; }'',
    js ''    .badge.authenticating { color: #d29922; border-color: #9e6a03; }'',
    js ''    .badge.disconnected { color: #f85149; border-color: #da3633; }'',
    js ''    .qr-box {'',
    js ''      background: #ffffff;'',
    js ''      padding: 16px;'',
    js ''      border-radius: 8px;'',
    js ''      display: inline-block;'',
    js ''      margin: 16px 0;'',
    js ''      min-width: 256px;'',
    js ''      min-height: 256px;'',
    js ''      box-sizing: border-box;'',
    js ''    }'',
    js ''    .qr-text {'',
    js ''      word-break: break-all;'',
    js ''      font-family: monospace;'',
    js ''      font-size: 0.8rem;'',
    js ''      color: #8b949e;'',
    js ''      background: #0d1117;'',
    js ''      padding: 12px;'',
    js ''      border-radius: 6px;'',
    js ''      max-height: 80px;'',
    js ''      overflow-y: auto;'',
    js ''    }'',
    js ''    .instructions {'',
    js ''      font-size: 0.9rem;'',
    js ''      color: #8b949e;'',
    js ''      line-height: 1.5;'',
    js ''      text-align: left;'',
    js ''      margin-top: 20px;'',
    js ''    }'',
    js ''    .instructions ol { padding-left: 20px; margin: 8px 0; }'',
    js ''  </style>'']"

definition page_status :: "jstr \<Rightarrow> jstr" where
  "page_status connState = text_lines [
    js ''  <script src=\"https://cdn.jsdelivr.net/npm/qrcode@1.5.3/build/qrcode.min.js\"></script>'',
    js ''</head>'',
    js ''<body>'',
    js ''  <div class=\"container\">'',
    js ''    <h1>Wazeko WhatsApp Engine</h1>'',
    js ''    <div id=\"statusBadge\" class=\"badge '' @ connState @ js ''\">Status: '' @ upper_case connState @ js ''</div>'',
    js ''    '',
    js ''    <div id=\"qrContainer\">'',
    js ''      '' @
      (if connState = js ''connected''
       then js ''<div style=\"color: #3fb950; padding: 40px 0; font-size: 1.2rem; font-weight: 600;\">'' @ [0x2713] @ js '' WhatsApp Terhubung!</div>''
       else js ''<canvas id=\"qrCanvas\" class=\"qr-box\"></canvas>'')]"

definition page_help :: jstr where
  "page_help = text_lines [
    js ''    </div>'',
    [],
    js ''    <div class=\"instructions\">'',
    js ''      <strong>Cara Menghubungkan:</strong>'',
    js ''      <ol>'',
    js ''        <li>Buka WhatsApp di Smartphone Anda</li>'',
    js ''        <li>Buka <b>Pengaturan</b> / <b>Titik Tiga</b> > <b>Perangkat Tertaut</b></li>'',
    js ''        <li>Pilih <b>Tautkan Perangkat</b> lalu pindai kode QR di atas</li>'',
    js ''      </ol>'',
    js ''    </div>'',
    [],
    js ''    <div style=\"margin-top: 16px;\">'',
    js ''      <a href=\"/health\" style=\"color: #58a6ff; font-size: 0.85rem; text-decoration: none; margin-right: 12px;\">'' @ [0xD83D, 0xDCCA] @ js '' Health API</a>'',
    js ''      <a href=\"/metrics\" style=\"color: #58a6ff; font-size: 0.85rem; text-decoration: none;\">'' @ [0xD83D, 0xDCC8] @ js '' Metrics API</a>'',
    js ''    </div>'',
    js ''  </div>'']"

definition page_script :: "jstr option \<Rightarrow> jstr" where
  "page_script qr = text_lines [
    [],
    js ''  <script>'',
    js ''    let currentRaw = \"'' @ (case qr of None \<Rightarrow> [] | Some q \<Rightarrow> q) @ js ''\";'',
    js ''    '',
    js ''    function drawQr(raw) {'',
    js ''      const canvas = document.getElementById(\"qrCanvas\");'',
    js ''      if (!canvas || !raw) return;'',
    js ''      QRCode.toCanvas(canvas, raw, { width: 256, margin: 1 }, function (error) {'',
    js ''        if (error) console.error(error);'',
    js ''      });'',
    js ''    }'',
    [],
    js ''    if (currentRaw) {'',
    js ''      drawQr(currentRaw);'',
    js ''    }'',
    [],
    js ''    // Auto-polling state & QR code every 2 seconds'',
    js ''    setInterval(async () => {'',
    js ''      try {'',
    js ''        const res = await fetch(\"/api/qr\");'',
    js ''        const data = await res.json();'',
    js ''        const badge = document.getElementById(\"statusBadge\");'',
    js ''        if (badge) {'',
    js ''          badge.className = \"badge \" + data.state;'',
    js ''          badge.innerText = \"Status: \" + data.state.toUpperCase();'',
    js ''        }'',
    [],
    js ''        if (data.state === \"connected\") {'',
    js ''          document.getElementById(\"qrContainer\").innerHTML = '<div style=\"color: #3fb950; padding: 40px 0; font-size: 1.2rem; font-weight: 600;\">'' @ [0x2713] @ js '' WhatsApp Terhubung!</div>';'',
    js ''        } else if (data.qr && data.qr !== currentRaw) {'',
    js ''          currentRaw = data.qr;'',
    js ''          drawQr(data.qr);'',
    js ''        }'',
    js ''      } catch (e) {}'',
    js ''    }, 2000);'',
    js ''  </script>'',
    js ''</body>''] @ js ''</html>''"

definition qr_page :: "jstr option \<Rightarrow> jstr \<Rightarrow> jstr" where
  "qr_page qr connState = page_style @ page_status connState @ page_help @ page_script qr"

end
