(* ===== verification/Monitoring.thy ===== *)
theory Monitoring
  imports Client_Properties Message_Queue Js_Json Qr_Page
begin

text \<open>
  The monitoring server (\<^verbatim>\<open>packages/wazeko/src/observability/monitoring-server.ts\<close>): its life and
  its answers to requests. The client, the queue and the registry it was given are read at
  the time of a request; the clock, the memory figures and the path that \<^verbatim>\<open>new URL\<close> finds in a
  request (or its error) are arguments. The results: the health answer shows the state the
  client announced last and the counts of the queue, what a reader of the JSON finds on every path
  but those of the login page, and a server that was stopped once cannot be stopped again.
\<close>

section \<open>The server\<close>

text \<open>\<open>http_server\<close> is the server object \<open>start\<close> made, and whether it is listening.\<close>

record monitoring_server =
  http_server :: "bool option"
  monitor_port :: nat
  monitor_host :: jstr
  start_time :: int
  qr_supplier :: "(unit \<Rightarrow> jstr option) option"

definition new_monitoring_server ::
    "int \<Rightarrow> nat option \<Rightarrow> jstr option \<Rightarrow> (unit \<Rightarrow> jstr option) option \<Rightarrow> monitoring_server" where
  "new_monitoring_server now port host supplier =
     \<lparr>http_server = None, monitor_port = (case port of None \<Rightarrow> 3000 | Some p \<Rightarrow> p),
      monitor_host = (case host of None \<Rightarrow> js ''0.0.0.0'' | Some h \<Rightarrow> h), start_time = now,
      qr_supplier = supplier\<rparr>"

definition set_qr_supplier :: "(unit \<Rightarrow> jstr option) \<Rightarrow> monitoring_server \<Rightarrow> monitoring_server" where
  "set_qr_supplier supplier m = m\<lparr>qr_supplier := Some supplier\<rparr>"

text \<open>
  \<open>bound\<close>: whether the port could be bound. If not, \<open>start\<close> never settles and the server's
  unheard \<^verbatim>\<open>error\<close> event is thrown: the outcome \<^const>\<open>None\<close>.
\<close>

definition monitor_start :: "bool \<Rightarrow> monitoring_server \<Rightarrow> unit option \<times> monitoring_server" where
  "monitor_start bound m = (if bound then Some () else None, m\<lparr>http_server := Some bound\<rparr>)"

definition not_running :: js_error where
  "not_running = PlatformError (js ''Server is not running.'')"

text \<open>\<open>server.close\<close> reports an error when the server is not listening.\<close>

definition monitor_stop :: "monitoring_server \<Rightarrow> (js_error + unit) \<times> monitoring_server" where
  "monitor_stop m =
     (case http_server m of
        None \<Rightarrow> (Inr (), m)
      | Some listening \<Rightarrow> (if listening then Inr () else Inl not_running, m\<lparr>http_server := Some False\<rparr>))"

section \<open>Requests\<close>

text \<open>A response: its status, its content type and its body.\<close>

datatype response = Response nat jstr jstr

record memory_usage =
  rss :: nat
  heap_used :: nat
  heap_total :: nat

fun state_text :: "connection_state \<Rightarrow> jstr" where
  "state_text Disconnected = js ''disconnected''"
| "state_text Connecting = js ''connecting''"
| "state_text Authenticating = js ''authenticating''"
| "state_text Connected = js ''connected''"
| "state_text Reconnecting = js ''reconnecting''"
| "state_text LoggedOut = js ''logged_out''"

definition reported_state :: "'p client option \<Rightarrow> jstr" where
  "reported_state cl = (case cl of None \<Rightarrow> js ''unknown'' | Some c \<Rightarrow> state_text (get_connection_state c))"

text \<open>
  \<^verbatim>\<open>Number((n / (1024 * 1024)).toFixed(2))\<close>: the nearest hundredth, the larger of two, printed
  without trailing zeros.
\<close>

definition hundredths :: "nat \<Rightarrow> jstr" where
  "hundredths h =
     (let q = nat_to_js (h div 100); r = h mod 100
      in if r = 0 then q
         else if r mod 10 = 0 then q @ js ''.'' @ nat_to_js (r div 10)
         else q @ js ''.'' @ nat_to_js (r div 10) @ nat_to_js (r mod 10))"

definition megabytes :: "nat \<Rightarrow> jstr" where
  "megabytes n = hundredths ((n * 200 + 1048576) div 2097152)"

definition nat_value :: "nat \<Rightarrow> json" where
  "nat_value n = JNum (nat_to_js n)"

definition int_value :: "int \<Rightarrow> json" where
  "int_value k = JNum (num_to_js (Fin k))"

definition uptime_seconds :: "int \<Rightarrow> monitoring_server \<Rightarrow> json" where
  "uptime_seconds now m = int_value ((now - start_time m) div 1000)"

definition stats_value :: "queue_stats \<Rightarrow> json" where
  "stats_value st = JObj
     [(js ''pendingCount'', nat_value (pending_total st)), (js ''highPriorityCount'', nat_value (high_count st)),
      (js ''normalPriorityCount'', nat_value (normal_count st)), (js ''lowPriorityCount'', nat_value (low_count st)),
      (js ''processingCount'', int_value (stat_processing st)), (js ''completedCount'', int_value (stat_completed st)),
      (js ''failedCount'', int_value (stat_failed st))]"

definition health_value ::
    "int \<Rightarrow> jstr \<Rightarrow> memory_usage \<Rightarrow> 'p client option \<Rightarrow> message_queue option \<Rightarrow> monitoring_server \<Rightarrow> json" where
  "health_value now stamp mem cl mq m = JObj (
     [(js ''status'', JStr (js ''healthy'')),
      (js ''timestamp'', JStr stamp),
      (js ''uptimeSeconds'', uptime_seconds now m),
      (js ''connection'', JObj
        [(js ''state'', JStr (reported_state cl)),
         (js ''authenticatedUser'', case Option.bind cl get_me of None \<Rightarrow> JNull | Some j \<Rightarrow> JStr (user j))]),
      (js ''memory'', JObj
        [(js ''rssMb'', JNum (megabytes (rss mem))),
         (js ''heapUsedMb'', JNum (megabytes (heap_used mem))),
         (js ''heapTotalMb'', JNum (megabytes (heap_total mem)))])] @
     property ''queue'' (\<lambda>q. stats_value (get_stats q)) mq)"

definition metrics_value ::
    "int \<Rightarrow> memory_usage \<Rightarrow> message_queue option \<Rightarrow> 'x command_registry option \<Rightarrow> monitoring_server \<Rightarrow> json" where
  "metrics_value now mem mq reg m =
     (let st = map_option get_stats mq
      in JObj
        [(js ''wazeko_uptime_seconds'', uptime_seconds now m),
         (js ''wazeko_memory_heap_used_bytes'', nat_value (heap_used mem)),
         (js ''wazeko_memory_rss_bytes'', nat_value (rss mem)),
         (js ''wazeko_registered_commands'', nat_value (case reg of None \<Rightarrow> 0 | Some r \<Rightarrow> length (list_commands r))),
         (js ''wazeko_queue_pending'', case st of None \<Rightarrow> nat_value 0 | Some s \<Rightarrow> nat_value (pending_total s)),
         (js ''wazeko_queue_completed'', case st of None \<Rightarrow> nat_value 0 | Some s \<Rightarrow> int_value (stat_completed s)),
         (js ''wazeko_queue_failed'', case st of None \<Rightarrow> nat_value 0 | Some s \<Rightarrow> int_value (stat_failed s))])"

definition current_qr :: "monitoring_server \<Rightarrow> jstr option" where
  "current_qr m = (case qr_supplier m of None \<Rightarrow> None | Some f \<Rightarrow> f ())"

definition qr_value :: "'p client option \<Rightarrow> monitoring_server \<Rightarrow> json" where
  "qr_value cl m = JObj
     [(js ''qr'', case current_qr m of None \<Rightarrow> JNull | Some q \<Rightarrow> JStr q), (js ''state'', JStr (reported_state cl))]"

definition json_type :: jstr where "json_type = js ''application/json''"

definition handle_request ::
    "int \<Rightarrow> jstr \<Rightarrow> memory_usage \<Rightarrow> 'p client option \<Rightarrow> message_queue option \<Rightarrow> 'x command_registry option \<Rightarrow>
     js_error + jstr \<Rightarrow> monitoring_server \<Rightarrow> js_error + response" where
  "handle_request now stamp mem cl mq reg pathname m =
     bindE pathname (\<lambda>path.
       if path = js ''/health'' \<or> path = js ''/status'' then
         Inr (Response 200 json_type (stringify 2 (health_value now stamp mem cl mq m)))
       else if path = js ''/metrics'' then
         Inr (Response 200 json_type (stringify 2 (metrics_value now mem mq reg m)))
       else if path = js ''/qr'' \<or> path = js ''/login'' then
         Inr (Response 200 (js ''text/html; charset=utf-8'') (qr_page (current_qr m) (reported_state cl)))
       else if path = js ''/api/qr'' then
         Inr (Response 200 json_type (stringify 0 (qr_value cl m)))
       else
         Inr (Response 404 json_type (stringify 0 (JObj [(js ''error'', JStr (js ''Not Found'')), (js ''path'', JStr path)]))))"

section \<open>Every answer is JSON\<close>

lemma digit_range: "r < 10 \<Longrightarrow> nat_to_js r = [digit_cu r]"
  by (simp add: nat_to_js_def digits_less)

lemma number_ok_fraction: 
  assumes "list_all is_digit f" and "f \<noteq> []"
  shows "number_ok (nat_to_js q @ js ''.'' @ f)"
proof -
  obtain c u where q: "nat_to_js q = c # u" by (cases "nat_to_js q") simp_all
  then have digs: "is_digit c" "list_all is_digit u"
    using nat_to_js_digits [of _ q] by (auto simp: list_all_iff)
  have zero: "c = 48 \<longrightarrow> u = []" using nat_to_js_zero [of q] q by auto
  have tw: "takeWhile is_digit (u @ 0x2E # f) = u" "dropWhile is_digit (u @ 0x2E # f) = 0x2E # f"
      "takeWhile is_digit f = f" "dropWhile is_digit f = []"
    using digs(2) assms(1) by (auto simp: takeWhile_append dropWhile_append takeWhile_eq_all_conv list_all_iff is_digit_def)
  have "c \<noteq> 0x2D" "\<not> is_digit 0x2E" using digs(1) by (auto simp: is_digit_def)
  then show ?thesis
    using digs assms zero unfolding q js_def
    by (auto simp: number_ok_def valid_number_def num_char_def list_all_iff cu_def tw Let_def valid_exponent_def)
qed

lemma number_ok_hundredths: "number_ok (hundredths h)"
proof -
  have "list_all is_digit (nat_to_js a)" for a using nat_to_js_digits by (simp add: list_all_iff)
  then show ?thesis
    unfolding hundredths_def Let_def by (simp add: number_ok_nat number_ok_fraction)
qed

definition counters_ok :: "message_queue \<Rightarrow> bool" where
  "counters_ok q = (safe_int (processing_count q) \<and> safe_int (completed_count q) \<and> safe_int (failed_count q))"

definition clock_ok :: "int \<Rightarrow> message_queue option \<Rightarrow> monitoring_server \<Rightarrow> bool" where
  "clock_ok now mq m =
     (safe_int ((now - start_time m) div 1000) \<and> (case mq of None \<Rightarrow> True | Some q \<Rightarrow> counters_ok q))"

lemma numbers_ok_values: "numbers_ok (nat_value n)" "safe_int k \<Longrightarrow> numbers_ok (int_value k)"
  by (simp_all add: nat_value_def int_value_def number_ok_nat number_ok_int del: num_to_js.simps)

lemma numbers_ok_stats: "counters_ok q \<Longrightarrow> numbers_ok (stats_value (get_stats q))"
  by (simp add: stats_value_def numbers_ok_values get_stats_def counters_ok_def)

lemma numbers_ok_answers:
  assumes "clock_ok now mq m"
  shows "numbers_ok (health_value now stamp mem cl mq m)" and "numbers_ok (metrics_value now mem mq reg m)"
    and "numbers_ok (qr_value cl m)"
proof -
  have up: "numbers_ok (uptime_seconds now m)"
    using assms by (simp add: clock_ok_def uptime_seconds_def numbers_ok_values)
  have queue: "mq = Some q \<Longrightarrow> counters_ok q" for q
    using assms by (simp add: clock_ok_def)
  have property: "list_all (\<lambda>p. numbers_ok (snd p)) (property ''queue'' (\<lambda>q. stats_value (get_stats q)) mq)"
    using queue by (intro numbers_ok_property) (simp add: numbers_ok_stats)
  show "numbers_ok (health_value now stamp mem cl mq m)"
    using up property by (simp add: health_value_def megabytes_def number_ok_hundredths split: option.split)
  show "numbers_ok (metrics_value now mem mq reg m)"
    using up queue
    by (cases mq) (simp_all add: metrics_value_def numbers_ok_values get_stats_def counters_ok_def Let_def)
  show "numbers_ok (qr_value cl m)" by (simp add: qr_value_def split: option.split)
qed

lemma plain_answers:
  "plain (health_value now stamp mem cl mq m) = health_value now stamp mem cl mq m"
  "plain (metrics_value now mem mq reg m) = metrics_value now mem mq reg m"
  "plain (qr_value cl m) = qr_value cl m"
  by (rule plain_id;
      simp add: health_value_def metrics_value_def qr_value_def stats_value_def nat_value_def int_value_def
        uptime_seconds_def property_def Let_def split: option.split)+

lemma parse_answer: "numbers_ok v \<Longrightarrow> plain v = v \<Longrightarrow> parse_json (stringify i v) = Some v"
  using parse_stringify by metis

text \<open>
  C40. What the monitor of a client answers on each path, as a reader of the JSON sees it: on the two
  health paths the connection state, the account, the memory in megabytes and all counts of the
  queue; on \<^verbatim>\<open>/metrics\<close> the memory in bytes, the number of commands and three of the counts; on
  \<^verbatim>\<open>/api/qr\<close> the code to scan and the state; on any other path, but the two of the login page, a
  status of 404 and the path.
\<close>

theorem monitor_answers:
  assumes "clock_ok now (Some q) m" and "path \<notin> {js ''/qr'', js ''/login''}"
  shows "\<exists>body. handle_request now stamp mem (Some c) (Some q) (Some r) (Inr path) m =
       Inr (Response (if path \<in> {js ''/health'', js ''/status'', js ''/metrics'', js ''/api/qr''} then 200 else 404)
         (js ''application/json'') body) \<and>
     parse_json body = Some (JObj (
       if path = js ''/health'' \<or> path = js ''/status'' then
         [(js ''status'', JStr (js ''healthy'')), (js ''timestamp'', JStr stamp),
          (js ''uptimeSeconds'', JNum (num_to_js (Fin ((now - start_time m) div 1000)))),
          (js ''connection'', JObj
            [(js ''state'', JStr (state_text (conn_state c))),
             (js ''authenticatedUser'', case me (client_creds c) of None \<Rightarrow> JNull | Some j \<Rightarrow> JStr (user j))]),
          (js ''memory'', JObj
            [(js ''rssMb'', JNum (megabytes (rss mem))), (js ''heapUsedMb'', JNum (megabytes (heap_used mem))),
             (js ''heapTotalMb'', JNum (megabytes (heap_total mem)))]),
          (js ''queue'', JObj
            [(js ''pendingCount'', JNum (nat_to_js (length (pending q)))),
             (js ''highPriorityCount'', JNum (nat_to_js (length (high_queue q)))),
             (js ''normalPriorityCount'', JNum (nat_to_js (length (normal_queue q)))),
             (js ''lowPriorityCount'', JNum (nat_to_js (length (low_queue q)))),
             (js ''processingCount'', JNum (num_to_js (Fin (processing_count q)))),
             (js ''completedCount'', JNum (num_to_js (Fin (completed_count q)))),
             (js ''failedCount'', JNum (num_to_js (Fin (failed_count q))))])]
       else if path = js ''/metrics'' then
         [(js ''wazeko_uptime_seconds'', JNum (num_to_js (Fin ((now - start_time m) div 1000)))),
          (js ''wazeko_memory_heap_used_bytes'', JNum (nat_to_js (heap_used mem))),
          (js ''wazeko_memory_rss_bytes'', JNum (nat_to_js (rss mem))),
          (js ''wazeko_registered_commands'', JNum (nat_to_js (length (list_commands r)))),
          (js ''wazeko_queue_pending'', JNum (nat_to_js (length (pending q)))),
          (js ''wazeko_queue_completed'', JNum (num_to_js (Fin (completed_count q)))),
          (js ''wazeko_queue_failed'', JNum (num_to_js (Fin (failed_count q))))]
       else if path = js ''/api/qr'' then
         [(js ''qr'', case Option.bind (qr_supplier m) (\<lambda>f. f ()) of None \<Rightarrow> JNull | Some t \<Rightarrow> JStr t),
          (js ''state'', JStr (state_text (conn_state c)))]
       else [(js ''error'', JStr (js ''Not Found'')), (js ''path'', JStr path)]))"
proof -
  note defs = stats_value_def get_stats_def nat_value_def int_value_def uptime_seconds_def property_def
    reported_state_def get_connection_state_def get_me_def pending_def current_qr_def
  note parsed = numbers_ok_answers(1) [OF assms(1), THEN parse_answer, OF plain_answers(1)]
    numbers_ok_answers(2) [OF assms(1), THEN parse_answer, OF plain_answers(2)]
    numbers_ok_answers(3) [OF assms(1), THEN parse_answer, OF plain_answers(3)]
  have other: "parse_json (stringify 0 v) = Some v"
    if "v = JObj [(js ''error'', JStr (js ''Not Found'')), (js ''path'', JStr path)]" for v
    unfolding that by (rule parse_answer, simp, rule plain_id, simp)
  have ne: "js ''/metrics'' \<noteq> js ''/health''" "js ''/metrics'' \<noteq> js ''/status''" "js ''/api/qr'' \<noteq> js ''/health''"
    "js ''/api/qr'' \<noteq> js ''/status''" "js ''/api/qr'' \<noteq> js ''/metrics''"
    "js ''/api/qr'' \<noteq> js ''/qr''" "js ''/api/qr'' \<noteq> js ''/login''"
    by code_simp+
  consider "path = js ''/health'' \<or> path = js ''/status''" | "path = js ''/metrics''" | "path = js ''/api/qr''"
    | "path \<noteq> js ''/health''" "path \<noteq> js ''/status''" "path \<noteq> js ''/metrics''" "path \<noteq> js ''/api/qr''" by blast
  then show ?thesis
  proof cases
    case 1
    then have "handle_request now stamp mem (Some c) (Some q) (Some r) (Inr path) m =
        Inr (Response 200 json_type (stringify 2 (health_value now stamp mem (Some c) (Some q) m)))"
      by (simp only: handle_request_def bindE.simps if_True)
    moreover have "path \<in> {js ''/health'', js ''/status'', js ''/metrics'', js ''/api/qr''}" using 1 by (simp only: insert_iff) blast
    ultimately show ?thesis
      using parsed(1) [of 2 stamp mem "Some c"]
      by (simp only: 1 if_True json_type_def) (simp add: health_value_def defs add.assoc del: num_to_js.simps)
  next
    case 2
    have "handle_request now stamp mem (Some c) (Some q) (Some r) (Inr path) m =
        Inr (Response 200 json_type (stringify 2 (metrics_value now mem (Some q) (Some r) m)))"
      by (simp only: handle_request_def bindE.simps if_True if_False 2 ne simp_thms)
    then show ?thesis
      using parsed(2) [of 2 mem "Some r"]
      by (simp only: 2 ne simp_thms if_True if_False insert_iff json_type_def) (simp add: metrics_value_def defs Let_def add.assoc del: num_to_js.simps)
  next
    case 3
    have "handle_request now stamp mem (Some c) (Some q) (Some r) (Inr path) m =
        Inr (Response 200 json_type (stringify 0 (qr_value (Some c) m)))"
      by (simp only: handle_request_def bindE.simps if_True if_False 3 ne simp_thms)
    then show ?thesis
      using parsed(3) [of 0 "Some c"]
      by (simp only: 3 ne simp_thms if_True if_False insert_iff json_type_def) (simp add: qr_value_def defs split: option.split)
  next
    case 4
    have "path \<noteq> js ''/qr''" "path \<noteq> js ''/login''" using assms(2) by blast+
    with 4 show ?thesis using other [OF refl]
      by (simp only: handle_request_def bindE.simps simp_thms if_True if_False insert_iff empty_iff json_type_def) blast
  qed
qed

text \<open>A request whose URL cannot be parsed is not answered: the error is thrown out of the handler.\<close>

lemma unparsable_url: "handle_request now stamp mem cl mq reg (Inl e) m = Inl e"
  by (simp add: handle_request_def)

theorem monitor_answers_witness:
  "\<exists>body. handle_request 5000 (js ''t'') \<lparr>rss = 1, heap_used = 2, heap_total = 3\<rparr>
       (Some (new_client (default_client_config 0) [] 0 ())) (Some (new_message_queue 0 \<lparr>q_concurrency = None, q_rate_limiter = None, q_auto_start = None\<rparr>))
       (Some (new_command_registry None None None int :: unit command_registry)) (Inr (js ''/api/qr'')) (new_monitoring_server 0 None None None) =
       Inr (Response 200 (js ''application/json'') body) \<and>
     parse_json body = Some (JObj [(js ''qr'', JNull), (js ''state'', JStr (js ''disconnected''))])"
proof -
  have paths: "js ''/api/qr'' \<notin> {js ''/qr'', js ''/login''}"
    "js ''/api/qr'' \<notin> {js ''/health'', js ''/status'', js ''/metrics''}" by code_simp+
  have ok: "clock_ok 5000 (Some (new_message_queue 0 \<lparr>q_concurrency = None, q_rate_limiter = None, q_auto_start = None\<rparr>))
      (new_monitoring_server 0 None None None)"
    by (simp add: clock_ok_def counters_ok_def new_monitoring_server_def safe_int_def new_message_queue_def)
  from monitor_answers [OF ok paths(1), of "js ''t''" "\<lparr>rss = 1, heap_used = 2, heap_total = 3\<rparr>"
      "new_client (default_client_config 0) [] 0 ()" "new_command_registry None None None int :: unit command_registry"]
  show ?thesis using paths(2) by (simp add: new_client_def new_monitoring_server_def)
qed

text \<open>
  The health answer for a client, after any calls on it, shows the connection state of the
  last update the client emitted, and the counts of the queue at that time.
\<close>

theorem health_reports:
  assumes "reaches (quietly om) (new_client cfg rnd16 rnd p) c" and "clock_ok now (Some q) m"
  shows "\<exists>body ps conn. handle_request now stamp mem (Some c) (Some q) reg (Inr (js ''/health'')) m =
       Inr (Response 200 json_type body) \<and>
     parse_json body = Some (JObj ps) \<and> map_of ps (js ''connection'') = Some (JObj conn) \<and>
     map_of conn (js ''state'') = Some (JStr (state_text (announced Disconnected (emissions c)))) \<and>
     map_of ps (js ''queue'') = Some (stats_value (get_stats q))"
proof -
  let ?v = "health_value now stamp mem (Some c) (Some q) m"
  have keys: "distinct [js ''queue'', js ''status'', js ''timestamp'', js ''uptimeSeconds'', js ''connection'', js ''memory'']"
    by code_simp
  obtain ps where ps: "?v = JObj ps" by (simp add: health_value_def)
  have "handle_request now stamp mem (Some c) (Some q) reg (Inr (js ''/health'')) m =
      Inr (Response 200 json_type (stringify 2 ?v))"
    by (simp add: handle_request_def)
  moreover have "parse_json (stringify 2 ?v) = Some (JObj ps)"
    using parse_stringify [OF numbers_ok_answers(1) [OF assms(2)]] plain_answers ps by metis
  moreover have "map_of ps (js ''connection'') = Some (JObj
      [(js ''state'', JStr (state_text (conn_state c))),
       (js ''authenticatedUser'', case get_me c of None \<Rightarrow> JNull | Some j \<Rightarrow> JStr (user j))])"
      "map_of ps (js ''queue'') = Some (stats_value (get_stats q))"
    using ps keys by (auto simp: health_value_def reported_state_def get_connection_state_def property_def)
  ultimately show ?thesis using announced_reach [OF assms(1)] by auto
qed

theorem health_reports_witness:
  "\<exists>body ps conn. handle_request 1 [] \<lparr>rss = 1, heap_used = 2, heap_total = 3\<rparr>
       (Some (disconnect (quietly (\<lambda>_ p. p)) [] (new_client (default_client_config 0) [] 0 ()))) (Some (new_message_queue 0 \<lparr>q_concurrency = None, q_rate_limiter = None, q_auto_start = None\<rparr>))
       (None :: unit command_registry option) (Inr (js ''/health'')) (new_monitoring_server 0 None None None) =
       Inr (Response 200 json_type body) \<and>
     parse_json body = Some (JObj ps) \<and> map_of ps (js ''connection'') = Some (JObj conn) \<and>
     map_of conn (js ''state'') = Some (JStr (js ''disconnected''))"
proof -
  have "clock_ok 1 (Some (new_message_queue 0 \<lparr>q_concurrency = None, q_rate_limiter = None, q_auto_start = None\<rparr>)) (new_monitoring_server 0 None None None)"
    by (simp add: clock_ok_def counters_ok_def new_monitoring_server_def safe_int_def new_message_queue_def)
  moreover have "reaches (quietly (\<lambda>_ p. p)) (new_client (default_client_config 0) [] 0 ())
      (disconnect (quietly (\<lambda>_ p. p)) [] (new_client (default_client_config 0) [] 0 ()))"
    by (intro reaches.disconnected reaches.start)
  ultimately show ?thesis
    using health_reports [of "\<lambda>_ p. p" "default_client_config 0" "[]" 0 "()"] by (fastforce simp: disconnect_fields announced_append)
qed

section \<open>The monitor of a client\<close>

text \<open>
  The monitor the client's constructor makes: it serves this client, its queue and its registry,
  and asks the client's QR manager for the current code.
\<close>

definition client_monitor :: "int \<Rightarrow> 'p client \<Rightarrow> monitoring_server" where
  "client_monitor now c =
     new_monitoring_server now None None (Some (\<lambda>_. map_option raw (qr_mgr c)))"

text \<open>
  The path \<^verbatim>\<open>/api/qr\<close> serves the code to scan: once a client without a registered account has
  connected by QR code, the answer holds the raw text of the QR event emitted last and the
  state in which the client waits for the scan.
\<close>

theorem login_code_is_served:
  assumes "auth_method_of (client_cfg c) = QrMethod"
    and "\<not> registered (case saved of None \<Rightarrow> client_creds c | Some cr \<Rightarrow> cr)"
  shows "\<exists>ev body. let d = snd (connect (quietly om) (Inr saved) rs draws c) in
     last (emissions d) = Qr ev \<and>
     handle_request now stamp mem (Some d) mq reg (Inr (js ''/api/qr'')) (client_monitor t0 d) =
       Inr (Response 200 json_type body) \<and>
     parse_json body = Some (JObj [(js ''qr'', JStr (raw ev)), (js ''state'', JStr (js ''authenticating''))])"
proof -
  let ?d = "snd (connect (quietly om) (Inr saved) rs draws c)"
  let ?ev = "\<lparr>raw = qr_challenge rs, attempts = attempt (reconnect_mgr c) + 1, timeout_seconds = 60\<rparr>"
  let ?v = "qr_value (Some ?d) (client_monitor t0 ?d)"
  have d: "last (emissions ?d) = Qr ?ev" "qr_mgr ?d = Some ?ev" "conn_state ?d = Authenticating"
    using assms by (cases saved; simp add: connect_defs run_connection_lifecycle_def update_qr_def Let_def)+
  have "?v = JObj [(js ''qr'', JStr (raw ?ev)), (js ''state'', JStr (js ''authenticating''))]"
    by (simp add: qr_value_def current_qr_def client_monitor_def new_monitoring_server_def reported_state_def
        get_connection_state_def d)
  moreover from this have "parse_json (stringify 0 ?v) = Some ?v"
    using parse_stringify [of ?v 0] by simp
  moreover have paths: "js ''/api/qr'' \<notin> {js ''/health'', js ''/status'', js ''/metrics'', js ''/qr'', js ''/login''}"
    by code_simp
  ultimately show ?thesis
    unfolding Let_def
    by (intro exI [of _ ?ev] exI [of _ "stringify 0 ?v"]) (simp add: handle_request_def d(1))
qed

theorem login_code_is_served_witness:
  "\<exists>(ev :: qr_code_event) body. handle_request 1 [] \<lparr>rss = 1, heap_used = 2, heap_total = 3\<rparr>
       (Some (snd (connect (quietly (\<lambda>_ p. p)) (Inr None) ([1], [2], [3]) (\<lambda>_. 0) (new_client (default_client_config 0) [] 0 ()))))
       None (None :: unit command_registry option) (Inr (js ''/api/qr''))
       (client_monitor 0 (snd (connect (quietly (\<lambda>_ p. p)) (Inr None) ([1], [2], [3]) (\<lambda>_. 0) (new_client (default_client_config 0) [] 0 ())))) =
       Inr (Response 200 json_type body) \<and>
     parse_json body = Some (JObj [(js ''qr'', JStr (raw ev)), (js ''state'', JStr (js ''authenticating''))])"
proof -
  let ?c = "new_client (default_client_config 0) [] 0 ()"
  have pre: "auth_method_of (client_cfg ?c) = QrMethod"
      "\<not> registered (case None of None \<Rightarrow> client_creds ?c | Some cr \<Rightarrow> cr)"
    by (simp_all add: new_client_def default_client_config_def init_credentials_def)
  show ?thesis
    using login_code_is_served [OF pre, of "\<lambda>_ p. p" "([1], [2], [3])" "\<lambda>_. 0" 1 "[]"
        "\<lparr>rss = 1, heap_used = 2, heap_total = 3\<rparr>" None "None :: unit command_registry option" 0]
    unfolding Let_def by blast
qed

section \<open>Stopping\<close>

text \<open>\<open>disconnect\<close> of the client, which ends by stopping its monitor.\<close>

definition client_disconnect ::
    "'p listeners \<Rightarrow> jstr \<Rightarrow> 'p client \<times> monitoring_server \<Rightarrow> (js_error + unit) \<times> 'p client \<times> monitoring_server" where
  "client_disconnect om reason s =
     (let c = disconnect om reason (fst s); (r, m) = monitor_stop (snd s) in (r, c, m))"

text \<open>
  A client whose monitor was started disconnects once; every later disconnect still changes
  the client but is rejected, because the stopped server is kept and cannot be stopped again.
  Without a monitor every disconnect succeeds.
\<close>

theorem second_disconnect_rejects:
  "let s = (c, snd (monitor_start True m)); (r1, s1) = client_disconnect (quietly om) reason s; (r2, s2) = client_disconnect (quietly om) reason' s1
   in r1 = Inr () \<and> r2 = Inl not_running \<and> conn_state (fst s2) = Disconnected \<and>
      fst (client_disconnect (quietly om) reason (c, m\<lparr>http_server := None\<rparr>)) = Inr ()"
  by (simp add: client_disconnect_def monitor_start_def monitor_stop_def Let_def disconnect_fields)

end
