(* ===== verification/Logger.thy ===== *)
theory Logger
  imports Js_Json Js_Object "HOL-Library.Sublist"
begin

text \<open>
  The structured logger (\<^verbatim>\<open>packages/wazeko/src/observability/logger.ts\<close>). The destination is the
  list of the lines it was called with; time stamps and measured durations are arguments.
  Metadata is a plain object of JSON values, a logged error an \<^verbatim>\<open>Error\<close> or the text of another
  value, and none when the value is falsy. The results: a line is one JSON object without
  a line break, and the fields of the log are those of the call unless the metadata has
  properties of their names.
\<close>

datatype log_level = Debug | Info | Warn | Error

fun level_name :: "log_level \<Rightarrow> jstr" where
  "level_name Debug = js ''debug''"
| "level_name Info = js ''info''"
| "level_name Warn = js ''warn''"
| "level_name Error = js ''error''"

fun log_level_weight :: "log_level \<Rightarrow> nat" where
  "log_level_weight Debug = 10"
| "log_level_weight Info = 20"
| "log_level_weight Warn = 30"
| "log_level_weight Error = 40"

record structured_logger =
  log_threshold :: log_level
  service_name :: jstr

definition new_structured_logger :: "log_level option \<Rightarrow> jstr option \<Rightarrow> structured_logger" where
  "new_structured_logger lvl svc =
     \<lparr>log_threshold = (case lvl of None \<Rightarrow> Info | Some l \<Rightarrow> l),
      service_name = (case svc of None \<Rightarrow> js ''wazeko'' | Some n \<Rightarrow> n)\<rparr>"

definition should_log :: "log_level \<Rightarrow> structured_logger \<Rightarrow> bool" where
  "should_log lvl lg = (log_level_weight lvl \<ge> log_level_weight (log_threshold lg))"

datatype logged_error =
    ErrorObject jstr jstr "jstr option" "json option"  \<comment> \<open>name, message, stack, code\<close>
  | OtherValue jstr

fun format_error :: "logged_error \<Rightarrow> json" where
  "format_error (ErrorObject n m stack code) =
     JObj ([(js ''name'', JStr n), (js ''message'', JStr m)] @ property ''stack'' JStr stack @ property ''code'' id code)"
| "format_error (OtherValue s) = JObj [(js ''raw'', JStr s)]"

text \<open>
  \<^verbatim>\<open>{...ps, ...src}\<close>: every property of \<open>src\<close> is created in turn, also one of the name
  \<^verbatim>\<open>__proto__\<close>.
\<close>

definition create_property :: "jstr \<Rightarrow> 'v \<Rightarrow> 'v jsobj \<Rightarrow> 'v jsobj" where
  "create_property k v ps = (if k = proto_key then AList.update k v ps else obj_set k v ps)"

definition spread :: "'v jsobj \<Rightarrow> 'v jsobj \<Rightarrow> 'v jsobj" where
  "spread ps src = foldl (\<lambda>ob (k, v). create_property k v ob) ps src"

definition log_entry ::
    "jstr \<Rightarrow> log_level \<Rightarrow> jstr \<Rightarrow> jstr \<Rightarrow> json jsobj \<Rightarrow> logged_error option \<Rightarrow> json jsobj" where
  "log_entry timestamp lvl svc msg meta err =
     spread (spread
       [(js ''timestamp'', JStr timestamp), (js ''level'', JStr (level_name lvl)),
        (js ''service'', JStr svc), (js ''msg'', JStr msg)] meta)
       (case err of None \<Rightarrow> [] | Some e \<Rightarrow> [(js ''err'', format_error e)])"

definition log_message ::
    "jstr \<Rightarrow> log_level \<Rightarrow> jstr \<Rightarrow> json jsobj \<Rightarrow> logged_error option \<Rightarrow> structured_logger \<Rightarrow> jstr list \<Rightarrow> jstr list" where
  "log_message timestamp lvl msg meta err lg lines =
     (if \<not> should_log lvl lg then lines
      else lines @ [stringify 0 (JObj (log_entry timestamp lvl (service_name lg) msg meta err))])"

definition meta_or_empty :: "json jsobj option \<Rightarrow> json jsobj" where
  "meta_or_empty meta = (case meta of None \<Rightarrow> [] | Some m \<Rightarrow> m)"

definition log_debug :: "jstr \<Rightarrow> jstr \<Rightarrow> json jsobj option \<Rightarrow> structured_logger \<Rightarrow> jstr list \<Rightarrow> jstr list" where
  "log_debug ts msg meta = log_message ts Debug msg (meta_or_empty meta) None"

definition log_info :: "jstr \<Rightarrow> jstr \<Rightarrow> json jsobj option \<Rightarrow> structured_logger \<Rightarrow> jstr list \<Rightarrow> jstr list" where
  "log_info ts msg meta = log_message ts Info msg (meta_or_empty meta) None"

definition log_warn ::
    "jstr \<Rightarrow> jstr \<Rightarrow> json jsobj option \<Rightarrow> logged_error option \<Rightarrow> structured_logger \<Rightarrow> jstr list \<Rightarrow> jstr list" where
  "log_warn ts msg meta err = log_message ts Warn msg (meta_or_empty meta) err"

definition log_error ::
    "jstr \<Rightarrow> jstr \<Rightarrow> logged_error option \<Rightarrow> json jsobj option \<Rightarrow> structured_logger \<Rightarrow> jstr list \<Rightarrow> jstr list" where
  "log_error ts msg err meta = log_message ts Error msg (meta_or_empty meta) err"

text \<open>
  \<open>time\<close> of an action: what the action gave or threw, and the lines after it. The duration
  is the literal of the measured number.
\<close>

definition log_time ::
    "jstr \<Rightarrow> jstr \<Rightarrow> jstr \<Rightarrow> logged_error + 'a \<Rightarrow> json jsobj \<Rightarrow> structured_logger \<Rightarrow> jstr list \<Rightarrow>
     (logged_error + 'a) \<times> jstr list" where
  "log_time ts durationMs name result meta lg lines =
     (case result of
        Inr x \<Rightarrow> (result, log_info ts (name @ js '' completed'') (Some (spread meta [(js ''durationMs'', JNum durationMs)])) lg lines)
      | Inl e \<Rightarrow> (result, log_error ts (name @ js '' failed'') (Some e)
                  (Some (spread meta [(js ''durationMs'', JNum durationMs)])) lg lines))"

section \<open>The order of levels\<close>

text \<open>The levels in the order of their weights.\<close>

instantiation log_level :: linorder
begin

definition less_eq_log_level :: "log_level \<Rightarrow> log_level \<Rightarrow> bool" where
  "less_eq_log_level a b = (log_level_weight a \<le> log_level_weight b)"

definition less_log_level :: "log_level \<Rightarrow> log_level \<Rightarrow> bool" where
  "less_log_level a b = (log_level_weight a < log_level_weight b)"

instance
proof
  fix a b :: log_level
  show "a \<le> b \<Longrightarrow> b \<le> a \<Longrightarrow> a = b"
    by (cases a; cases b) (simp_all add: less_eq_log_level_def)
qed (auto simp: less_eq_log_level_def less_log_level_def)

end

lemma should_log_iff: "should_log lvl lg \<longleftrightarrow> log_threshold lg \<le> lvl"
  by (simp add: should_log_def less_eq_log_level_def)

text \<open>
  The same calls on two loggers of one service: what the one with the higher threshold writes is
  part of what the other writes, in the same order.
\<close>

type_synonym log_call = "jstr \<times> log_level \<times> jstr \<times> json jsobj \<times> logged_error option"

definition log_calls :: "structured_logger \<Rightarrow> log_call list \<Rightarrow> jstr list" where
  "log_calls lg cs = concat (map (\<lambda>(ts, lvl, msg, meta, err). log_message ts lvl msg meta err lg []) cs)"

lemma log_message_append: "log_message ts lvl msg meta err lg lines = lines @ log_message ts lvl msg meta err lg []"
  by (simp add: log_message_def)

lemma higher_threshold_subseq:
  assumes "log_threshold lg \<le> log_threshold lg'" and "service_name lg = service_name lg'"
  shows "subseq (log_calls lg' cs) (log_calls lg cs)"
  unfolding log_calls_def
  by (induction cs) (use assms in \<open>auto simp: log_message_def should_log_iff intro: list_emb_append_mono\<close>)

section \<open>Spreading\<close>

lemma map_of_create: "map_of (create_property k v ps) = (map_of ps)(k \<mapsto> v)"
  by (simp add: create_property_def obj_set_lookup update_conv')

lemma map_of_spread:
  "distinct (map fst src) \<Longrightarrow> map_of (spread ps src) k = (case map_of src k of None \<Rightarrow> map_of ps k | Some v \<Rightarrow> Some v)"
proof (induction src arbitrary: ps)
  case (Cons p src)
  then show ?case
    by (cases p) (auto simp: spread_def map_of_create map_of_eq_None_iff image_iff split: option.split dest: map_of_SomeD)
qed (simp add: spread_def)

lemma set_create: "set (create_property k v ps) \<subseteq> insert (k, v) (set ps)"
proof
  fix p assume "p \<in> set (create_property k v ps)"
  moreover have "set (AList.update k v ps) \<subseteq> insert (k, v) (set ps)"
    by (induction ps) auto
  ultimately show "p \<in> insert (k, v) (set ps)"
    by (auto simp: create_property_def obj_set_def set_insert_index split: if_splits option.splits)
qed

lemma set_spread: "set (spread ps src) \<subseteq> set ps \<union> set src"
proof (induction src arbitrary: ps)
  case (Cons p src)
  then show ?case using set_create by (cases p) (fastforce simp: spread_def)
qed (simp add: spread_def)

section \<open>One line per call\<close>

text \<open>Printed without indentation, a value has no control character.\<close>

abbreviation on_one_line :: "jstr \<Rightarrow> bool" where
  "on_one_line s \<equiv> list_all (\<lambda>c. 32 \<le> c) s"

lemma one_line_hex: "n < 16 \<Longrightarrow> 32 \<le> hex_digit n"
  using hex_digit_range [of n] by (auto intro: order_trans [rotated])

lemma one_line_escape: "on_one_line (escape_u c)" "on_one_line (escape_char c)"
proof -
  show u: "on_one_line (escape_u c)"
    by (simp add: escape_u_def hex4_def Let_def one_line_hex cu_def)
  show "on_one_line (escape_char c)"
    using u by (auto simp: escape_char_def not_less)
qed

lemma one_line_surrogate: "is_high c \<or> is_low c \<Longrightarrow> 32 \<le> c"
  by (auto simp: is_high_def is_low_def word_le_nat_alt)

lemma one_line_quote: "on_one_line (quote s)"
proof -
  have "on_one_line (quote_body s)"
    by (induction s rule: quote_body.induct) (auto simp: one_line_escape one_line_surrogate)
  then show ?thesis by (simp add: quote_def)
qed

lemma one_line_join: "on_one_line sep \<Longrightarrow> list_all on_one_line xs \<Longrightarrow> on_one_line (join sep xs)"
  by (induction sep xs rule: join.induct) auto

lemma one_line_wrap: "32 \<le> l \<Longrightarrow> 32 \<le> r \<Longrightarrow> list_all on_one_line xs \<Longrightarrow> on_one_line (wrap [] ind l r xs)"
  by (simp add: wrap_def nl_def one_line_join)

lemma one_line_nat: "on_one_line (nat_to_js n)"
  using nat_to_js_digits [of _ n] by (fastforce simp: list_all_iff is_digit_def word_le_nat_alt)

lemma one_line_print: "numbers_ok v \<Longrightarrow> on_one_line (print_json [] ind v)"
proof (induction v arbitrary: ind)
  case (JNum n)
  then show ?case
    by (auto simp: number_ok_def list_all_iff num_char_def is_digit_def word_le_nat_alt)
next
  case (JObj ps)
  have "on_one_line (print_json [] ind (snd p))" if "p \<in> set ps" for p ind
    using JObj(1) [OF that, of "snd p" ind] JObj(2) that by (cases p) (auto simp: list_all_iff)
  then have "list_all on_one_line (map (\<lambda>p. entry [] (fst p) (print_json [] (ind @ []) (snd p))) ps)"
    by (simp add: list_all_iff [of _ ps] list_all_iff [of _ "map f ps" for f] entry_def one_line_quote)
  then show ?case by (simp only: print_json.simps) (rule one_line_wrap; simp)
next
  case (JArr vs)
  then have "list_all on_one_line (map (print_json [] (ind @ [])) vs)" by (auto simp: list_all_iff)
  then show ?case by (simp only: print_json.simps) (rule one_line_wrap; simp)
next
  case (JBytes bs)
  have "list_all on_one_line (map (\<lambda>(i, b). entry [] (nat_to_js i) (nat_to_js (unat b))) (enumerate 0 bs))"
    by (simp add: list_all_iff [of _ "map f xs" for f xs] entry_def one_line_quote one_line_nat case_prod_unfold)
  then show ?case by (simp only: print_json.simps) (rule one_line_wrap; simp)
qed (simp_all add: one_line_quote js_def cu_def)

lemma numbers_ok_spread:
  "list_all (\<lambda>p. numbers_ok (snd p)) ps \<Longrightarrow> list_all (\<lambda>p. numbers_ok (snd p)) src \<Longrightarrow>
     list_all (\<lambda>p. numbers_ok (snd p)) (spread ps src)"
  using set_spread [of ps src] by (auto simp: list_all_iff)

definition error_ok :: "logged_error option \<Rightarrow> bool" where
  "error_ok err = (case err of Some (ErrorObject n m st (Some c)) \<Rightarrow> numbers_ok c | _ \<Rightarrow> True)"

lemma numbers_ok_entry:
  assumes "list_all (\<lambda>p. numbers_ok (snd p)) meta" and "error_ok err"
  shows "numbers_ok (JObj (log_entry ts lvl svc msg meta err))"
proof -
  have "list_all (\<lambda>p. numbers_ok (snd p)) (case err of None \<Rightarrow> [] | Some e \<Rightarrow> [(js ''err'', format_error e)])"
    using assms(2) by (auto simp: error_ok_def property_def split: option.splits logged_error.splits)
  then show ?thesis using assms(1) by (simp add: log_entry_def numbers_ok_spread)
qed

text \<open>
  A call below the threshold writes nothing. Any other call writes one line: it has no
  control character, it parses as one object, and in the object the level, the service and
  the message are those of the call, except that metadata with a property of that name
  replaces them, and an error given to the call replaces a metadata property \<^verbatim>\<open>err\<close>.
\<close>

theorem logged_line:
  assumes "list_all (\<lambda>p. numbers_ok (snd p)) meta" and "distinct (map fst meta)" and "error_ok err"
  shows "\<exists>line ps. log_message ts lvl msg meta err lg lines =
       (if log_level_weight lvl < log_level_weight (log_threshold lg) then lines else lines @ [line]) \<and>
     on_one_line line \<and> parse_json line = Some (plain (JObj ps)) \<and>
     map_of ps (js ''level'') = Some (case map_of meta (js ''level'') of None \<Rightarrow> JStr (level_name lvl) | Some v \<Rightarrow> v) \<and>
     map_of ps (js ''service'') = Some (case map_of meta (js ''service'') of None \<Rightarrow> JStr (service_name lg) | Some v \<Rightarrow> v) \<and>
     map_of ps (js ''msg'') = Some (case map_of meta (js ''msg'') of None \<Rightarrow> JStr msg | Some v \<Rightarrow> v) \<and>
     map_of ps (js ''err'') = (case err of None \<Rightarrow> map_of meta (js ''err'') | Some e \<Rightarrow> Some (format_error e))"
proof -
  let ?ps = "log_entry ts lvl (service_name lg) msg meta err"
  have ok: "numbers_ok (JObj ?ps)" using assms(1,3) by (rule numbers_ok_entry)
  have keys: "js ''level'' \<noteq> js ''timestamp''" "js ''service'' \<noteq> js ''timestamp''" "js ''msg'' \<noteq> js ''timestamp''"
      "js ''service'' \<noteq> js ''level''" "js ''msg'' \<noteq> js ''level''" "js ''msg'' \<noteq> js ''service''"
      "js ''err'' \<notin> {js ''timestamp'', js ''level'', js ''service'', js ''msg''}"
      "js ''err'' \<noteq> js ''level''" "js ''err'' \<noteq> js ''service''" "js ''err'' \<noteq> js ''msg''"
    by code_simp+
  have fields: "map_of ?ps k =
      (case map_of (case err of None \<Rightarrow> [] | Some e \<Rightarrow> [(js ''err'', format_error e)]) k of
         Some v \<Rightarrow> Some v
       | None \<Rightarrow> (case map_of meta k of Some v \<Rightarrow> Some v
           | None \<Rightarrow> map_of [(js ''timestamp'', JStr ts), (js ''level'', JStr (level_name lvl)),
               (js ''service'', JStr (service_name lg)), (js ''msg'', JStr msg)] k))" for k
    unfolding log_entry_def using assms(2)
    by (subst map_of_spread) (auto simp: map_of_spread split: option.split)
  have line: "on_one_line (stringify 0 (JObj ?ps))" "parse_json (stringify 0 (JObj ?ps)) = Some (plain (JObj ?ps))"
    unfolding stringify_def using one_line_print [OF ok] parse_stringify [OF ok, of 0, unfolded stringify_def]
    by (simp_all only: replicate_0)
  have "log_message ts lvl msg meta err lg lines =
      (if log_level_weight lvl < log_level_weight (log_threshold lg) then lines else lines @ [stringify 0 (JObj ?ps)])"
    by (simp add: log_message_def should_log_def)
  then show ?thesis
    using line keys
    by (intro exI [of _ "stringify 0 (JObj ?ps)"] exI [of _ ?ps])
      (simp add: fields keys(1-6,8-10) [THEN not_sym] split: option.split)
qed

theorem logged_line_witness:
  "\<exists>line ps. log_info (js ''t'') [10] (Some [(js ''msg'', JNull)]) (new_structured_logger None None) [] = [line] \<and>
     on_one_line line \<and> parse_json line = Some (plain (JObj ps)) \<and> map_of ps (js ''msg'') = Some JNull"
  using logged_line [of "[(js ''msg'', JNull)]" None "js ''t''" Info "[10]" "new_structured_logger None None" "[]"]
  by (auto simp: error_ok_def log_info_def meta_or_empty_def new_structured_logger_def)

end
