(* ===== verification/Queue_Sender.thy ===== *)
theory Queue_Sender
  imports Queue_Properties Messaging "HOL-Library.Sublist"
begin

text \<open>
  The queue with whatever sends its messages (the \<^verbatim>\<open>MessageSender\<close> of
  \<^verbatim>\<open>packages/wazeko/src/queue/message-queue.ts\<close>, for which \<^verbatim>\<open>packages/wazeko/src/client.ts\<close> passes
  \<^verbatim>\<open>messaging.sendMessage\<close>). A sender is a function on a state of its own, \<^const>\<open>None\<close> when the
  call does not come back. The locale \<open>job_sender\<close> says what the queue relies on; in it: what
  the queue resolves promises with is what its sender logged, a job for a destination that the
  sender accepts is never refused, and the workers alone come to rest with every promise resolved.
\<close>

type_synonym 'c sender =
  "bytes \<Rightarrow> int \<Rightarrow> jid + jstr \<Rightarrow> message_content \<Rightarrow> 'c \<Rightarrow> ((enc_error + message) \<times> 'c) option"

fun enc_error_text :: "enc_error \<Rightarrow> jstr" where
  "enc_error_text (ListSizeExceeds n) = js ''List size exceeds 65535: '' @ nat_to_js n"
| "enc_error_text StringLengthExceeds = js ''String length exceeds 65535''"

section \<open>Moves of the workers\<close>

text \<open>What \<^verbatim>\<open>processJob\<close> does with the outcome of \<^verbatim>\<open>sendMessage\<close>.\<close>

definition send_outcome :: "nat \<Rightarrow> message_job \<Rightarrow> enc_error + message \<Rightarrow> message_queue \<Rightarrow> message_queue" where
  "send_outcome i job r q =
     (case r of Inr m \<Rightarrow> job_sent i job m q | Inl e \<Rightarrow> job_send_failed i job (enc_error_text e) q)"

inductive sender_step :: "'c sender \<Rightarrow> message_queue \<times> 'c \<Rightarrow> message_queue \<times> 'c \<Rightarrow> bool" for send where
  sends: "length rnd8 = 8 \<Longrightarrow> i < length (workers q) \<Longrightarrow> workers q ! i = Sending job \<Longrightarrow>
    send rnd8 (Message_Queue.clock q) (job_to job) (job_content job) c = Some (r, c') \<Longrightarrow>
    sender_step send (q, c) (send_outcome i job r q, c')"
| acquires: "i < length (workers q) \<Longrightarrow> workers q ! i = Acquiring job until \<Longrightarrow> 0 \<le> rnd \<Longrightarrow> rnd < 1 \<Longrightarrow>
    until + pause (jitter_of rnd job q) \<le> Message_Queue.clock q \<Longrightarrow> sender_step send (q, c) (acquired i job q, c)"
| backs_off: "i < length (workers q) \<Longrightarrow> workers q ! i = Backoff job due \<Longrightarrow> due \<le> Message_Queue.clock q \<Longrightarrow>
    sender_step send (q, c) (backoff_over i job q, c)"
| finishes: "i < length (workers q) \<Longrightarrow> workers q ! i = Finishing \<Longrightarrow> sender_step send (q, c) (job_finished i q, c)"

text \<open>The workers and the clock alone.\<close>

inductive sender_quiet :: "'c sender \<Rightarrow> message_queue \<times> 'c \<Rightarrow> message_queue \<times> 'c \<Rightarrow> bool" for send where
  worker: "sender_step send s s' \<Longrightarrow> sender_quiet send s s'"
| time: "Message_Queue.clock q \<le> t \<Longrightarrow> sender_quiet send (q, c) (q\<lparr>Message_Queue.clock := t\<rparr>, c)"

lemma sender_step_work: "sender_step send s s' \<Longrightarrow> work_step (fst s) (fst s')"
  by (induction rule: sender_step.induct) (auto simp: send_outcome_def intro: work_step.intros split: sum.split)

lemma sender_quiet_step: "sender_quiet send s s' \<Longrightarrow> queue_step (fst s) (fst s')"
  by (induction rule: sender_quiet.induct) (auto intro: queue_step.intros sender_step_work)

lemma sender_quiet_keeps:
  "rtranclp (sender_quiet send) s s' \<Longrightarrow> is_processing (fst s') = is_processing (fst s) \<and>
     max_concurrency (fst s') = max_concurrency (fst s) \<and> promises (fst s') = promises (fst s) \<and> cleared (fst s') = cleared (fst s)"
  by (induction rule: rtranclp_induct) (auto elim!: sender_quiet.cases dest!: sender_step_work work_keeps)

section \<open>What was asked for, and no failures\<close>

text \<open>What the queue has resolved promises with, in order.\<close>

definition delivered :: "message_queue \<Rightarrow> message list" where
  "delivered q = [m. (job, Inr m) \<leftarrow> settled q]"

text \<open>The message that a job asks for.\<close>

definition carries :: "message \<Rightarrow> jid + jstr \<Rightarrow> message_content \<Rightarrow> bool" where
  "carries m dest body = (msg_content m = body \<and> chat (source m) = resolve_recipient dest)"

definition in_step :: "message_queue \<Rightarrow> message list \<Rightarrow> bool" where
  "in_step q ms = (subseq (delivered q) ms \<and>
     (\<forall>job m. (job, Inr m) \<in> set (settled q) \<longrightarrow> carries m (job_to job) (job_content job)))"

text \<open>No job to a destination outside \<open>ok\<close>, none that is being retried, and none rejected.\<close>

fun worker_clean :: "(jid + jstr \<Rightarrow> bool) \<Rightarrow> worker \<Rightarrow> bool" where
  "worker_clean ok (Acquiring job until) = ok (job_to job)"
| "worker_clean ok (Sending job) = ok (job_to job)"
| "worker_clean ok (Backoff job due) = False"
| "worker_clean ok Finishing = True"

definition clean :: "(jid + jstr \<Rightarrow> bool) \<Rightarrow> message_queue \<Rightarrow> bool" where
  "clean ok q = ((\<forall>job \<in> set (pending q). ok (job_to job)) \<and> (\<forall>w \<in> set (workers q). worker_clean ok w) \<and>
     (\<forall>job r. (job, r) \<in> set (settled q) \<longrightarrow> \<not> isl r))"

lemma in_step_settled: "settled q' = settled q \<Longrightarrow> in_step q ms \<Longrightarrow> in_step q' ms"
  by (simp add: in_step_def delivered_def)

lemma in_step_more: "in_step q ms \<Longrightarrow> in_step q (ms @ ns)"
  unfolding in_step_def by (metis prefix_imp_subseq prefixI subseq_order.order_trans)

lemma settled_pieces [simp]:
  "settled (acquired i job q) = settled q" "settled (backoff_over i job q) = settled q"
  "settled (job_finished i q) = settled q" "settled (enqueue g dest body opts q) = settled q"
  "settled (start_queue q) = settled q" "settled (pause_queue q) = settled q" "settled (clear_queue q) = settled q"
  "settled (job_sent i job m q) = settled q @ [(job\<lparr>job_status := JobCompleted\<rparr>, Inr m)]"
  by (simp_all add: acquired_def backoff_over_def job_finished_def enqueue_def start_queue_def pause_queue_def
      clear_queue_def job_sent_def push_job_def unshift_job_def split: priority.split)

lemma delivered_failed: "delivered (job_send_failed i job e q) = delivered q"
  "(job', Inr m) \<in> set (settled (job_send_failed i job e q)) \<longleftrightarrow> (job', Inr m) \<in> set (settled q)"
  by (auto simp: job_send_failed_def delivered_def Let_def)

lemma clean_worker:
  assumes "clean ok q" and "worker_clean ok w"
  shows "clean ok (set_worker i w q)"
  using assms set_update_subset_insert [of "workers q" i w] by (auto simp: clean_def)

lemma clean_fields:
  "clean ok q \<Longrightarrow> pending q' = pending q \<Longrightarrow> workers q' = workers q \<Longrightarrow> settled q' = settled q \<Longrightarrow> clean ok q'"
  by (simp add: clean_def)

lemma clean_trigger:
  assumes "clean ok q"
  shows "clean ok (trigger_processing q)"
  using assms by (auto simp: clean_def trigger_fields start_worker_def dest: in_set_dropD in_set_takeD)

lemma clean_push:
  "clean ok q \<Longrightarrow> ok (job_to job) \<Longrightarrow> clean ok (push_job job (q\<lparr>promises := n\<rparr>))"
  by (auto simp: clean_def push_job_def pending_def split: priority.split)

lemma clean_acquired:
  assumes "clean ok q" and "i < length (workers q)" and "workers q ! i = Acquiring job until"
  shows "clean ok (acquired i job q)"
proof -
  have "ok (job_to job)" using assms by (metis clean_def nth_mem worker_clean.simps(1))
  moreover have "clean ok (q\<lparr>limiter := l, recorded := rs, sends := ss\<rparr>)" for l rs ss
    using assms(1) by (rule clean_fields) (simp_all add: pending_def)
  ultimately show ?thesis by (simp add: acquired_def clean_worker)
qed

lemma clean_finished:
  assumes "clean ok q"
  shows "clean ok (job_finished i q)"
proof -
  have "clean ok (q\<lparr>workers := take i (workers q) @ drop (Suc i) (workers q), running_workers := r, processing_count := n\<rparr>)" for r n
    using assms by (auto simp: clean_def pending_def dest: in_set_takeD in_set_dropD)
  then show ?thesis by (simp add: job_finished_def clean_trigger)
qed

lemma clean_no_backoff: "clean ok q \<Longrightarrow> i < length (workers q) \<Longrightarrow> workers q ! i \<noteq> Backoff job due"
  by (metis clean_def nth_mem worker_clean.simps(3))

text \<open>What the queue's user and the clock do, with the destinations that may be enqueued.\<close>

inductive user_step :: "(jid + jstr \<Rightarrow> bool) \<Rightarrow> message_queue \<Rightarrow> message_queue \<Rightarrow> bool" for ok where
  enqueue: "ok dest \<Longrightarrow> user_step ok q (enqueue generatedId dest body opts q)"
| start: "user_step ok q (start_queue q)"
| pause: "user_step ok q (pause_queue q)"
| clear: "user_step ok q (clear_queue q)"
| tick: "Message_Queue.clock q \<le> t \<Longrightarrow> user_step ok q (q\<lparr>Message_Queue.clock := t\<rparr>)"

lemma user_queue_step: "user_step ok q q' \<Longrightarrow> queue_step q q'"
  by (auto elim!: user_step.cases intro: queue_step.intros)

lemma user_settled: "user_step ok q q' \<Longrightarrow> settled q' = settled q"
  by (auto elim!: user_step.cases)

lemma clean_user:
  assumes "user_step ok q q'" and "clean ok q"
  shows "clean ok q'"
  using assms(1)
proof cases
  case (enqueue dest generatedId body opts)
  then show ?thesis
    using clean_push [OF assms(2)] by (simp add: Message_Queue.enqueue_def clean_trigger new_job_def)
next
  case start
  have "clean ok (q\<lparr>is_processing := True\<rparr>)"
    using assms(2) by (rule clean_fields) (simp_all add: pending_def)
  then show ?thesis using start by (simp add: start_queue_def clean_trigger)
qed (use assms(2) in \<open>auto simp: pause_queue_def clear_queue_def clean_def pending_def\<close>)

lemma clean_new: "clean ok (new_message_queue now opts)"
  by (simp add: clean_def pending_def new_message_queue_def)

section \<open>The contract of a sender\<close>

text \<open>
  In a state that satisfies \<open>inv\<close>: a call comes back, an answer is logged (maybe with other messages sent
  on the way, after it) and is what was asked for, a failure changes nothing, and a
  destination that is accepted never fails.
\<close>

locale job_sender =
  fixes send :: "'c sender"
    and log :: "'c \<Rightarrow> message list"
    and accepts :: "jid + jstr \<Rightarrow> bool"
    and inv :: "'c \<Rightarrow> bool"
  assumes returns: "inv c \<Longrightarrow> length rnd8 = 8 \<Longrightarrow> send rnd8 now dest body c \<noteq> None"
    and keeps: "inv c \<Longrightarrow> length rnd8 = 8 \<Longrightarrow> send rnd8 now dest body c = Some (r, c') \<Longrightarrow> inv c'"
    and answered: "inv c \<Longrightarrow> length rnd8 = 8 \<Longrightarrow> send rnd8 now dest body c = Some (Inr m, c') \<Longrightarrow>
      (\<exists>others. log c' = log c @ m # others) \<and> carries m dest body"
    and refused: "inv c \<Longrightarrow> length rnd8 = 8 \<Longrightarrow> send rnd8 now dest body c = Some (Inl e, c') \<Longrightarrow> c' = c"
    and accepted: "inv c \<Longrightarrow> length rnd8 = 8 \<Longrightarrow> accepts dest \<Longrightarrow> send rnd8 now dest body c \<noteq> Some (Inl e, c')"
begin

lemma step_keeps: "sender_step send s s' \<Longrightarrow> inv (snd s) \<Longrightarrow> inv (snd s')"
  by (induction rule: sender_step.induct) (auto dest: keeps)

lemma outcome_in_step:
  assumes "inv c" and "length rnd8 = 8" and "in_step q (log c)" and "send rnd8 now (job_to job) (job_content job) c = Some (r, c')"
  shows "in_step (send_outcome i job r q) (log c')"
proof (cases r)
  case (Inl e)
  then have "c' = c" using assms refused by blast
  with assms(3) Inl show ?thesis by (simp add: in_step_def delivered_failed send_outcome_def)
next
  case (Inr m)
  then obtain others where "log c' = log c @ m # others" "carries m (job_to job) (job_content job)"
    using assms answered by blast
  moreover have "subseq (delivered q @ [m]) ((log c @ [m]) @ others)"
    using assms(3) by (intro list_emb_append2 [where xs = "delivered q @ [m]"] subseq_rev_drop_many
        list_emb_append_mono) (simp_all add: in_step_def)
  ultimately show ?thesis using assms(3) Inr by (auto simp: in_step_def delivered_def send_outcome_def)
qed

lemma step_in_step: "sender_step send s s' \<Longrightarrow> inv (snd s) \<Longrightarrow> in_step (fst s) (log (snd s)) \<Longrightarrow> in_step (fst s') (log (snd s'))"
proof (induction rule: sender_step.induct)
  case (sends rnd8 i q job c r c')
  then show ?case using outcome_in_step by simp
qed (auto intro: in_step_settled [rotated])

lemma outcome_clean:
  assumes "clean accepts q" and "i < length (workers q)" and "workers q ! i = Sending job" and "inv c" and "length rnd8 = 8"
    and "send rnd8 now (job_to job) (job_content job) c = Some (r, c')"
  shows "clean accepts (send_outcome i job r q)"
proof -
  have "accepts (job_to job)" using assms(1-3) by (metis clean_def nth_mem worker_clean.simps(2))
  then obtain m where r: "r = Inr m" using accepted [OF assms(4,5)] assms(6) by (metis sum.exhaust)
  have "clean accepts (q\<lparr>completed_count := completed_count q + 1,
      settled := settled q @ [(job\<lparr>job_status := JobCompleted\<rparr>, Inr m)]\<rparr>)"
    using assms(1) by (auto simp: clean_def pending_def)
  then show ?thesis unfolding r by (simp add: job_sent_def clean_worker send_outcome_def)
qed

lemma step_clean: "sender_step send s s' \<Longrightarrow> inv (snd s) \<Longrightarrow> clean accepts (fst s) \<Longrightarrow> clean accepts (fst s')"
  by (induction rule: sender_step.induct) (auto intro: outcome_clean clean_acquired clean_finished dest: clean_no_backoff)

text \<open>Whatever a worker of the queue can do, it can do with this sender.\<close>

lemma can_step:
  assumes "work_step q q'" and "inv c"
  shows "\<exists>s. sender_step send (q, c) s"
proof -
  have "\<exists>s. sender_step send (q, c) s" if i: "i < length (workers q)" "workers q ! i = Sending job" for i job
    using sender_step.sends [of "replicate 8 0" i q job send c] returns [OF assms(2), of "replicate 8 0"] i by fastforce
  with assms(1) show ?thesis by cases (blast intro: sender_step.intros)+
qed

lemma comes_to_rest:
  assumes "inv c"
  shows "\<exists>q' c'. rtranclp (sender_quiet send) (q, c) (q', c') \<and> workers q' = []"
  using assms
proof (induction "work_left q" arbitrary: q c rule: less_induct)
  case less
  show ?case
  proof (cases "workers q = []")
    case False
    then obtain t q1 where t: "Message_Queue.clock q \<le> t" "work_step (q\<lparr>Message_Queue.clock := t\<rparr>) q1"
      using worker_progress by blast
    then obtain q2 c2 where v: "sender_step send (q\<lparr>Message_Queue.clock := t\<rparr>, c) (q2, c2)"
      using can_step less.prems by (metis surj_pair)
    then have "work_left q2 < work_left q" "inv c2"
      using work_decreases [OF sender_step_work [OF v]] step_keeps [OF v] less.prems by simp_all
    then obtain q' c' where "rtranclp (sender_quiet send) (q2, c2) (q', c')" "workers q' = []" using less.hyps by blast
    moreover have "rtranclp (sender_quiet send) (q, c) (q2, c2)"
      using converse_rtranclp_into_rtranclp [OF sender_quiet.time [OF t(1)] r_into_rtranclp [where r = "sender_quiet send"]]
        sender_quiet.worker [OF v] by blast
    ultimately show ?thesis by (meson rtranclp_trans)
  qed blast
qed

text \<open>What stays true while only the workers move.\<close>

definition sound :: "message_queue \<times> 'c \<Rightarrow> bool" where
  "sound s = (reachable (fst s) \<and> inv (snd s) \<and> in_step (fst s) (log (snd s)) \<and> clean accepts (fst s))"

lemma sound_quiet: "sender_quiet send s s' \<Longrightarrow> sound s \<Longrightarrow> sound s'"
proof (induction rule: sender_quiet.induct)
  case (worker s s')
  then show ?case
    using step_keeps step_in_step step_clean reachable.step [OF _ sender_quiet_step [OF sender_quiet.worker]]
    unfolding sound_def by blast
next
  case (time q t c)
  have "user_step accepts q (q\<lparr>Message_Queue.clock := t\<rparr>)" using time(1) by (rule user_step.tick)
  then show ?case
    using time clean_user reachable.step user_queue_step in_step_settled [of "q\<lparr>Message_Queue.clock := t\<rparr>" q]
    by (auto simp: sound_def)
qed

lemma sound_quiets: "rtranclp (sender_quiet send) s s' \<Longrightarrow> sound s \<Longrightarrow> sound s'"
  by (induction rule: rtranclp_induct) (auto intro: sound_quiet)

text \<open>At rest, every promise has been resolved with a logged message.\<close>

lemma rest_resolved:
  assumes "sound (q, c)" and "is_processing q" and "0 < max_concurrency q" and "workers q = []"
    and "n < promises q" and "n \<notin> set (cleared q)"
  shows "\<exists>job m. job_promise job = n \<and> (job, Inr m) \<in> set (settled q) \<and> m \<in> set (log c)"
proof -
  have q: "reachable q" "in_step q (log c)" "clean accepts q" using assms(1) by (simp_all add: sound_def)
  have "pending q = []"
    using queue_inv_reachable [OF q(1)] assms(2-4) by (simp add: queue_inv_def counted_def busy_def)
  then have m: "mset (map (job_promise \<circ> fst) (settled q) @ cleared q) = mset [0..<promises q]"
    using placed_reachable [OF q(1)] assms(4) by (simp add: placed_def places_def)
  have "n \<in> set (map (job_promise \<circ> fst) (settled q) @ cleared q)"
    using mset_eq_setD [OF m] assms(5) by simp
  then obtain job res where job: "job_promise job = n" "(job, res) \<in> set (settled q)" using assms(6) by auto
  moreover obtain m where "res = Inr m" using q(3) job(2) by (metis clean_def isl_def sum.exhaust)
  moreover have "set (delivered q) \<subseteq> set (log c)"
    using q(2) unfolding in_step_def by (meson subsetI subseq_order.order_trans subseq_singleton_left)
  ultimately show ?thesis by (force simp: delivered_def)
qed

lemma delivers:
  assumes "sound (q, c)" and "is_processing q" and "0 < max_concurrency q"
    and "rtranclp (sender_quiet send) (q, c) (q', c')" and "workers q' = []" and "n < promises q" and "n \<notin> set (cleared q)"
  shows "\<exists>job m. job_promise job = n \<and> (job, Inr m) \<in> set (settled q') \<and> m \<in> set (log c')"
  using rest_resolved [OF sound_quiets [OF assms(4,1)]] sender_quiet_keeps [OF assms(4)] assms by simp

end

end
