(* ===== verification/Listeners.thy ===== *)
theory Listeners
  imports Client_Properties "HOL-Library.Multiset"
begin

text \<open>
  Listeners that call the client back (\<^verbatim>\<open>emitEvent\<close> of \<^verbatim>\<open>packages/wazeko/src/client.ts\<close>). A listener runs
  inside the emission of its event, so what it emits is nested in it: the emissions of a client
  form a forest. \<open>activity\<close> says what code with a client in hand can do to it by calls of its methods;
  \<open>lawful\<close> listeners do nothing else. The order in which the calls of \<^verbatim>\<open>emit\<close> begin is the preorder of
  the forest; the order in which events reach the last listener and the event queue is its
  postorder.
\<close>

section \<open>Nested emissions\<close>

datatype emission = Emission event "emission list"

fun begun :: "emission list \<Rightarrow> event list" where
  "begun [] = []"
| "begun (Emission ev inner # ts) = ev # begun inner @ begun ts"

fun ended :: "emission list \<Rightarrow> event list" where
  "ended [] = []"
| "ended (Emission ev inner # ts) = ended inner @ ev # ended ts"

lemma begun_append [simp]: "begun (ts @ us) = begun ts @ begun us"
  by (induction ts rule: begun.induct) simp_all

lemma ended_append [simp]: "ended (ts @ us) = ended ts @ ended us"
  by (induction ts rule: ended.induct) simp_all

lemma begun_ended: "mset (ended ts) = mset (begun ts)"
  by (induction ts rule: begun.induct) simp_all

section \<open>What code can do with a client\<close>

definition same_events :: "'p client \<Rightarrow> 'p client \<Rightarrow> bool" where
  "same_events c d =
     (emissions d = emissions c \<and> heard d = heard c \<and> event_q d = event_q c \<and>
      next_calls d = next_calls c \<and> next_answers d = next_answers c)"

text \<open>
  The events that methods emit: of messages, those that \<^verbatim>\<open>messaging\<close> makes, and those that the user
  passes to \<^verbatim>\<open>dispatchNode\<close>, with \<open>given\<close> what these may be.
\<close>

definition raised :: "(message \<Rightarrow> bool) \<Rightarrow> event \<Rightarrow> bool" where
  "raised given ev =
     (case ev of
        MessageReceived m \<Rightarrow> given m \<or> (\<exists>rnd8 now j i body. m = new_message rnd8 now j i body)
      | DisconnectEvent r \<Rightarrow> False
      | _ \<Rightarrow> True)"

text \<open>\<open>activity given c ts d\<close>: from \<open>c\<close> to \<open>d\<close>, with the emissions \<open>ts\<close>.\<close>

inductive activity :: "(message \<Rightarrow> bool) \<Rightarrow> 'p client \<Rightarrow> emission list \<Rightarrow> 'p client \<Rightarrow> bool" for given where
  silent: "same_events c d \<Longrightarrow> activity given c [] d"
| emits: "raised given ev \<Longrightarrow> activity given (begin_emit ev c) ts d \<Longrightarrow>
    activity given c [Emission ev ts] (end_emit ev d)"
| disconnects: "activity given (begin_emit (DisconnectEvent r) c) ts d \<Longrightarrow>
    activity given c [Emission (DisconnectEvent r) ts] (close_events (end_emit (DisconnectEvent r) d))"
| reads: "activity given c [] (snd (client_next who c))"
| sequence: "activity given c ts d \<Longrightarrow> activity given d us e \<Longrightarrow> activity given c (ts @ us) e"

definition lawful :: "(message \<Rightarrow> bool) \<Rightarrow> 'p listeners \<Rightarrow> bool" where
  "lawful given om = (\<forall>ev c. \<exists>ts. activity given c ts (om ev c))"

definition does :: "(message \<Rightarrow> bool) \<Rightarrow> 'p client \<Rightarrow> 'p client \<Rightarrow> bool" where
  "does given c d = (\<exists>ts. activity given c ts d)"

lemma does_refl: "does given c c"
  unfolding does_def by (rule exI, rule activity.silent) (simp add: same_events_def)

lemma does_trans: "does given c d \<Longrightarrow> does given d e \<Longrightarrow> does given c e"
  unfolding does_def by (blast intro: activity.sequence)

lemma does_silent: "same_events c d \<Longrightarrow> does given c d"
  unfolding does_def by (blast intro: activity.silent)

lemma activity_logs:
  "activity given c ts d \<Longrightarrow> emissions d = emissions c @ begun ts \<and> heard d = heard c @ ended ts"
proof (induction rule: activity.induct)
  case (reads c who)
  then show ?case by (simp add: client_next_def split_beta)
qed (simp_all add: same_events_def)

lemma activity_raised:
  "activity given c ts d \<Longrightarrow> MessageReceived m \<in> set (begun ts) \<Longrightarrow> given m \<or> is_from_me (source m)"
proof (induction rule: activity.induct)
  case (emits ev c ts d)
  then show ?case by (auto simp: raised_def new_message_def)
qed auto

lemma activity_silent_first: "same_events c c' \<Longrightarrow> activity given c' ts d \<Longrightarrow> activity given c ts d"
  using activity.sequence [OF activity.silent] by fastforce

section \<open>The methods\<close>

lemma emit_activity:
  assumes "lawful given om" and "raised given ev"
  shows "\<exists>ts. activity given c [Emission ev ts] (emit_event om ev c)"
proof -
  obtain ts where "activity given (begin_emit ev c) ts (om ev (begin_emit ev c))"
    using assms(1) by (auto simp: lawful_def)
  with assms(2) show ?thesis unfolding emit_event_def by (blast intro: activity.emits)
qed

lemma does_emit: "lawful given om \<Longrightarrow> raised given ev \<Longrightarrow> does given c (emit_event om ev c)"
  unfolding does_def using emit_activity by blast

lemma does_set_state: "lawful given om \<Longrightarrow> does given c (set_state om st c)"
  unfolding set_state_def
  by (rule does_trans [OF does_silent does_emit]) (simp_all add: same_events_def raised_def)

lemma does_disconnect:
  assumes "lawful given om"
  shows "does given c (disconnect om reason c)"
proof -
  let ?ev = "DisconnectEvent reason" and ?c = "set_state om Disconnected c"
  obtain ts where "activity given (begin_emit ?ev ?c) ts (om ?ev (begin_emit ?ev ?c))"
    using assms by (auto simp: lawful_def)
  then have "does given ?c (disconnect om reason c)"
    unfolding does_def disconnect_def Let_def emit_event_def by (blast intro: activity.disconnects)
  with does_set_state [OF assms] show ?thesis by (rule does_trans)
qed

lemma same_events_log_node: "same_events c (log_node bs c)"
  by (simp add: same_events_def)

lemma does_dispatch:
  assumes "lawful given om" and "\<And>msg. m = Some msg \<Longrightarrow> raised given (MessageReceived msg)"
  shows "does given c (snd (dispatch_node om n m c))"
  using assms
  by (auto simp: dispatch_node_def Let_def does_refl does_silent same_events_log_node
      intro: does_trans [OF does_silent [OF same_events_log_node] does_emit] split: sum.split option.split)

lemma raised_new_message: "raised given (MessageReceived (new_message rnd8 now j i body))"
  by (simp add: raised_def) blast

lemma does_send: "lawful given om \<Longrightarrow> does given c (snd (send_message om rnd8 now dest body c))"
  unfolding send_message_def Let_def split_beta snd_conv
  by (rule does_dispatch) (auto simp: raised_new_message)

lemma does_login:
  assumes "lawful given om"
  shows "does given c (run_connection_lifecycle om rs draws c)"
proof -
  have emit: "does given c (emit_event om ev (d\<lparr>qr_mgr := q\<rparr>))" "does given c (emit_event om ev (d\<lparr>pairing_mgr := m\<rparr>))"
    if "does given c d" "raised given ev" for ev d q m
    by (rule does_trans [OF does_trans [OF that(1) does_silent] does_emit [OF assms that(2)]]; simp add: same_events_def)+
  have raised: "raised given (Authenticated j)" "raised given (Qr q)" "raised given (PairingCode p)" for j q p
    by (simp_all add: raised_def)
  show ?thesis
    unfolding run_connection_lifecycle_def Let_def split_beta
    by (auto intro!: emit does_set_state assms raised does_trans [OF does_set_state [OF assms] does_emit [OF assms]]
        split: option.split auth_method.split)
qed

lemma does_connect_start: "lawful given om \<Longrightarrow> does given c (connect_start om c)"
  unfolding connect_start_def by (rule does_trans [OF does_set_state does_silent]) (simp_all add: same_events_def)

lemma does_connect_loaded:
  assumes "lawful given om"
  shows "does given c (snd (connect_loaded om loaded rs draws c))"
proof -
  have "same_events c (c\<lparr>loading := k\<rparr>)" "same_events c (c\<lparr>loading := k, client_creds := cr\<rparr>)" for k cr
    by (simp_all add: same_events_def)
  then show ?thesis
    by (auto simp: connect_loaded_def Let_def intro: does_silent does_trans [OF does_silent does_login [OF assms]]
        split: sum.split option.split)
qed

lemma does_next: "does given c (snd (client_next who c))"
  unfolding does_def by (rule exI, rule activity.reads)

text \<open>Listeners that do not call the client are lawful.\<close>

lemma lawful_quietly: "lawful given (quietly om)"
  unfolding lawful_def by (intro allI exI, rule activity.silent) (simp add: same_events_def)

end
