(* ===== verification/Wazeko.thy ===== *)
theory Wazeko
  imports Monitoring Logger Queue_Sender Listeners
begin

text \<open>
  The client with all it is made of (\<^verbatim>\<open>packages/wazeko/src/client.ts\<close>): its constructor, the wiring of
  the message event to the command registry and the logger, of the queue's workers to
  \<^verbatim>\<open>messaging\<close>, and of the monitor to the client; then the whole as a step relation in which the
  calls of a user, the workers of the queue, the readers of the events and the clock interleave. A
  destination a user may pass to the queue is restricted by \<open>ok\<close>, a message passed to
  \<^verbatim>\<open>dispatchNode\<close> by \<open>given\<close>. Sending is one step, with all that the listeners of its event do
  inside it: the code has no suspension between the call of the sender and the push of the event;
  \<^verbatim>\<open>connect\<close> is two steps, with anything in between. A listener may call the client (\<open>om\<close> is a
  function on it); what it calls of the queue is a step of its own before its event, as queue
  and client share no state.
\<close>

section \<open>The constructor and its wiring\<close>

text \<open>
  \<^verbatim>\<open>e.name\<close>: every error class of the library has the name its root class sets; \<open>kind\<close> is that of an
  error of the platform (\<^verbatim>\<open>Error\<close>, \<^verbatim>\<open>TypeError\<close> and so on).
\<close>

fun error_name :: "jstr \<Rightarrow> js_error \<Rightarrow> jstr" where
  "error_name kind (PlatformError m) = kind"
| "error_name kind (LibraryError k c m e) = js ''WazekoError''"

fun error_code_text :: "wazeko_error_code \<Rightarrow> jstr" where
  "error_code_text CONNECTION = js ''CONNECTION''"
| "error_code_text AUTHENTICATION = js ''AUTHENTICATION''"
| "error_code_text PROTOCOL = js ''PROTOCOL''"
| "error_code_text SESSION = js ''SESSION''"
| "error_code_text MESSAGE = js ''MESSAGE''"
| "error_code_text MEDIA = js ''MEDIA''"

definition logged :: "jstr \<Rightarrow> jstr option \<Rightarrow> js_error \<Rightarrow> logged_error" where
  "logged kind stack e = ErrorObject (error_name kind e) (err_message e) stack
     (case e of PlatformError m \<Rightarrow> None | LibraryError k c m x \<Rightarrow> Some (JStr (error_code_text c)))"

definition client_logger :: structured_logger where
  "client_logger = new_structured_logger None (Some (js ''wazeko-client''))"

text \<open>
  What the listener of the \<^verbatim>\<open>message\<close> event keeps: the registry, and the lines of the logger, where an
  error of a command ends up. \<open>handle\<close> is the registry's \<^verbatim>\<open>handleMessage\<close>.
\<close>

type_synonym 'x plugin_world = "'x command_registry \<times> jstr list"

definition plugin_listener ::
    "(message \<Rightarrow> 'x command_registry \<Rightarrow> (js_error + bool) \<times> 'x command_registry) \<Rightarrow> jstr \<Rightarrow> jstr \<Rightarrow>
     jstr option \<Rightarrow> message \<Rightarrow> 'x plugin_world \<Rightarrow> 'x plugin_world" where
  "plugin_listener handle ts kind stack m p =
     (let (res, r) = handle m (fst p)
      in (r, case res of
               Inr b \<Rightarrow> snd p
             | Inl e \<Rightarrow> log_error ts (js ''Plugin handler execution failed'') (Some (logged kind stack e)) None client_logger (snd p)))"

record 'p wazeko =
  wz_client :: "'p client"
  wz_queue :: message_queue
  wz_monitor :: monitoring_server

text \<open>A monitor without a supplier of its own asks the client's QR manager.\<close>

definition new_wazeko :: "client_config \<Rightarrow> bytes \<Rightarrow> real \<Rightarrow> int \<Rightarrow> 'p \<Rightarrow> 'p wazeko" where
  "new_wazeko cfg rnd16 rnd now p =
     \<lparr>wz_client = new_client cfg rnd16 rnd p,
      wz_queue = new_message_queue now no_queue_options,
      wz_monitor = new_monitoring_server now None None None\<rparr>"

definition active_monitor :: "'p wazeko \<Rightarrow> monitoring_server" where
  "active_monitor w =
     (case qr_supplier (wz_monitor w) of
        None \<Rightarrow> (wz_monitor w)\<lparr>qr_supplier := Some (\<lambda>_. map_option raw (current_qr_code (qr_mgr (wz_client w))))\<rparr>
      | Some f \<Rightarrow> wz_monitor w)"

definition wazeko_request ::
    "int \<Rightarrow> jstr \<Rightarrow> memory_usage \<Rightarrow> js_error + jstr \<Rightarrow> 'x plugin_world wazeko \<Rightarrow> js_error + response" where
  "wazeko_request now stamp mem pathname w =
     handle_request now stamp mem (Some (wz_client w)) (Some (wz_queue w)) (Some (fst (plugin_state (wz_client w))))
       pathname (active_monitor w)"

section \<open>The methods that forward\<close>

definition client_events :: "'p wazeko \<Rightarrow> event_queue" where
  "client_events w = event_q (wz_client w)"

definition wazeko_send ::
    "'p listeners \<Rightarrow> bytes \<Rightarrow> int \<Rightarrow> jid + jstr \<Rightarrow> message_content \<Rightarrow> 'p wazeko \<Rightarrow> (enc_error + message) \<times> 'p wazeko" where
  "wazeko_send om rnd8 now dest body w =
     (let (r, c) = send_message om rnd8 now dest body (wz_client w) in (r, w\<lparr>wz_client := c\<rparr>))"

definition wazeko_send_image ::
    "'p listeners \<Rightarrow> bytes \<Rightarrow> int \<Rightarrow> jid + jstr \<Rightarrow> media_source \<Rightarrow> jstr option \<Rightarrow> jstr option \<Rightarrow> 'p wazeko \<Rightarrow>
     (enc_error + message) \<times> 'p wazeko" where
  "wazeko_send_image om rnd8 now dest img caption mimetype w =
     (let (r, c) = send_image om rnd8 now dest img caption mimetype (wz_client w) in (r, w\<lparr>wz_client := c\<rparr>))"

definition wazeko_reply ::
    "'p listeners \<Rightarrow> bytes \<Rightarrow> int \<Rightarrow> message \<Rightarrow> jstr \<Rightarrow> 'p wazeko \<Rightarrow> (enc_error + message) \<times> 'p wazeko" where
  "wazeko_reply om rnd8 now original t w =
     (let (r, c) = reply_to om rnd8 now original t (wz_client w) in (r, w\<lparr>wz_client := c\<rparr>))"

definition enqueue_message ::
    "jstr \<Rightarrow> jid + jstr \<Rightarrow> message_content \<Rightarrow> message_job_options \<Rightarrow> 'p wazeko \<Rightarrow> 'p wazeko" where
  "enqueue_message generatedId dest body opts w = w\<lparr>wz_queue := enqueue generatedId dest body opts (wz_queue w)\<rparr>"

definition wazeko_connect ::
    "'p listeners \<Rightarrow> js_error + credentials option \<Rightarrow> bytes \<times> bytes \<times> bytes \<Rightarrow> (nat \<Rightarrow> real) \<Rightarrow> 'p wazeko \<Rightarrow> 'p wazeko" where
  "wazeko_connect om loaded rs draws w = w\<lparr>wz_client := snd (connect om loaded rs draws (wz_client w))\<rparr>"

definition wazeko_disconnect ::
    "'p listeners \<Rightarrow> jstr \<Rightarrow> 'p wazeko \<Rightarrow> (js_error + unit) \<times> 'p wazeko" where
  "wazeko_disconnect om reason w =
     (let (r, c, m) = client_disconnect om reason (wz_client w, wz_monitor w) in (r, w\<lparr>wz_client := c, wz_monitor := m\<rparr>))"

definition wazeko_dispatch ::
    "'p listeners \<Rightarrow> node \<Rightarrow> message option \<Rightarrow> 'p wazeko \<Rightarrow> (enc_error + unit) \<times> 'p wazeko" where
  "wazeko_dispatch om n m w = (let (r, c) = dispatch_node om n m (wz_client w) in (r, w\<lparr>wz_client := c\<rparr>))"

definition wazeko_next :: "nat \<Rightarrow> 'p wazeko \<Rightarrow> next_result \<times> 'p wazeko" where
  "wazeko_next who w = (let (r, c) = client_next who (wz_client w) in (r, w\<lparr>wz_client := c\<rparr>))"

section \<open>The queue's workers send through the client\<close>

definition worker_sends :: "'p listeners \<Rightarrow> bytes \<Rightarrow> nat \<Rightarrow> message_job \<Rightarrow> 'p wazeko \<Rightarrow> 'p wazeko" where
  "worker_sends om rnd8 i job w =
     (let (r, w) = wazeko_send om rnd8 (Message_Queue.clock (wz_queue w)) (job_to job) (job_content job) w
      in case r of
           Inr m \<Rightarrow> w\<lparr>wz_queue := job_sent i job m (wz_queue w)\<rparr>
         | Inl e \<Rightarrow> w\<lparr>wz_queue := job_send_failed i job (enc_error_text e) (wz_queue w)\<rparr>)"

section \<open>Runs of the whole\<close>

text \<open>
  A move of a worker: it sends, by the client; or it leaves the limiter, the backoff or the
  queue, which does not touch the client.
\<close>

inductive worker_step :: "'p listeners \<Rightarrow> 'p wazeko \<Rightarrow> 'p wazeko \<Rightarrow> bool" for om where
  sends: "length rnd8 = 8 \<Longrightarrow> i < length (workers (wz_queue w)) \<Longrightarrow> workers (wz_queue w) ! i = Sending job \<Longrightarrow>
    worker_step om w (worker_sends om rnd8 i job w)"
| acquires: "i < length (workers (wz_queue w)) \<Longrightarrow> workers (wz_queue w) ! i = Acquiring job until \<Longrightarrow>
    0 \<le> rnd \<Longrightarrow> rnd < 1 \<Longrightarrow> until + pause (jitter_of rnd job (wz_queue w)) \<le> Message_Queue.clock (wz_queue w) \<Longrightarrow>
    worker_step om w (w\<lparr>wz_queue := acquired i job (wz_queue w)\<rparr>)"
| backs_off: "i < length (workers (wz_queue w)) \<Longrightarrow> workers (wz_queue w) ! i = Backoff job due \<Longrightarrow>
    due \<le> Message_Queue.clock (wz_queue w) \<Longrightarrow> worker_step om w (w\<lparr>wz_queue := backoff_over i job (wz_queue w)\<rparr>)"
| finishes: "i < length (workers (wz_queue w)) \<Longrightarrow> workers (wz_queue w) ! i = Finishing \<Longrightarrow>
    worker_step om w (w\<lparr>wz_queue := job_finished i (wz_queue w)\<rparr>)"

definition time_passes :: "int \<Rightarrow> 'p wazeko \<Rightarrow> 'p wazeko" where
  "time_passes t w = w\<lparr>wz_queue := (wz_queue w)\<lparr>Message_Queue.clock := t\<rparr>\<rparr>"

text \<open>
  \<open>plugins\<close>: commands are registered, or one that was suspended goes on. \<open>monitor\<close>: the monitor is started, stopped
  or given a supplier.
\<close>

inductive wz_step ::
    "'p listeners \<Rightarrow> (jid + jstr \<Rightarrow> bool) \<Rightarrow> (message \<Rightarrow> bool) \<Rightarrow> 'p wazeko \<Rightarrow> 'p wazeko \<Rightarrow> bool" for om ok given where
  worker: "worker_step om w w' \<Longrightarrow> wz_step om ok given w w'"
| time: "Message_Queue.clock (wz_queue w) \<le> t \<Longrightarrow> wz_step om ok given w (time_passes t w)"
| enqueue: "ok dest \<Longrightarrow> wz_step om ok given w (enqueue_message generatedId dest body opts w)"
| start: "wz_step om ok given w (w\<lparr>wz_queue := start_queue (wz_queue w)\<rparr>)"
| pause: "wz_step om ok given w (w\<lparr>wz_queue := pause_queue (wz_queue w)\<rparr>)"
| clear: "wz_step om ok given w (w\<lparr>wz_queue := clear_queue (wz_queue w)\<rparr>)"
| send: "length rnd8 = 8 \<Longrightarrow> wz_step om ok given w (snd (wazeko_send om rnd8 now dest body w))"
| send_image: "length rnd8 = 8 \<Longrightarrow>
    wz_step om ok given w (snd (wazeko_send_image om rnd8 now dest img caption mimetype w))"
| reply: "length rnd8 = 8 \<Longrightarrow> wz_step om ok given w (snd (wazeko_reply om rnd8 now original t w))"
| dispatch: "(\<And>msg. m = Some msg \<Longrightarrow> given msg) \<Longrightarrow> wz_step om ok given w (snd (wazeko_dispatch om n m w))"
| read: "wz_step om ok given w (snd (wazeko_next who w))"
| plugins: "wz_step om ok given w (w\<lparr>wz_client := (wz_client w)\<lparr>plugin_state := p\<rparr>\<rparr>)"
| monitor: "wz_step om ok given w (w\<lparr>wz_monitor := m\<rparr>)"
| connect_start: "wz_step om ok given w (w\<lparr>wz_client := connect_start om (wz_client w)\<rparr>)"
| connect_loaded: "0 < loading (wz_client w) \<Longrightarrow>
    wz_step om ok given w (w\<lparr>wz_client := snd (connect_loaded om loaded rs draws (wz_client w))\<rparr>)"
| disconnect: "wz_step om ok given w (snd (wazeko_disconnect om reason w))"

inductive wz_reach ::
    "'p listeners \<Rightarrow> (jid + jstr \<Rightarrow> bool) \<Rightarrow> (message \<Rightarrow> bool) \<Rightarrow> client_config \<Rightarrow> bytes \<Rightarrow> real \<Rightarrow> int \<Rightarrow> 'p \<Rightarrow>
     'p wazeko \<Rightarrow> bool"
  for om ok given cfg rnd16 rnd now p where
  new: "wz_reach om ok given cfg rnd16 rnd now p (new_wazeko cfg rnd16 rnd now p)"
| step: "wz_reach om ok given cfg rnd16 rnd now p w \<Longrightarrow> wz_step om ok given w w' \<Longrightarrow>
    wz_reach om ok given cfg rnd16 rnd now p w'"

lemmas forward_defs = wazeko_send_def wazeko_send_image_def wazeko_reply_def wazeko_dispatch_def wazeko_next_def
  wazeko_connect_def wazeko_disconnect_def enqueue_message_def time_passes_def

end
