(* ===== verification/Wazeko_Properties.thy ===== *)
theory Wazeko_Properties
  imports Wazeko
begin

text \<open>
  What the client promises as a whole, in every state that its calls, the workers of its queue
  and the clock can reach: it refines the queue and the client taken alone, what the queue
  resolves is what the client emitted, every message to an address that fits is delivered,
  and no message that the client emits comes from anybody else.
\<close>

section \<open>What the parts see of a step\<close>

lemma wazeko_send_fields [simp]:
  "wz_queue (snd (wazeko_send om rnd8 now dest body w)) = wz_queue w"
  "wz_client (snd (wazeko_send om rnd8 now dest body w)) = snd (send_message om rnd8 now dest body (wz_client w))"
  "fst (wazeko_send om rnd8 now dest body w) = fst (send_message om rnd8 now dest body (wz_client w))"
  by (simp_all add: wazeko_send_def split_beta)

lemma worker_sends_client: "wz_client (worker_sends om rnd8 i job w) =
    snd (send_message om rnd8 (Message_Queue.clock (wz_queue w)) (job_to job) (job_content job) (wz_client w))"
  by (auto simp: worker_sends_def split_beta Let_def split: sum.split)

lemma worker_sends_queue: "wz_queue (worker_sends om rnd8 i job w) =
    (case fst (send_message om rnd8 (Message_Queue.clock (wz_queue w)) (job_to job) (job_content job) (wz_client w)) of
       Inr m \<Rightarrow> job_sent i job m (wz_queue w)
     | Inl e \<Rightarrow> job_send_failed i job (enc_error_text e) (wz_queue w))"
  by (auto simp: worker_sends_def split_beta Let_def split: sum.split)

lemma worker_step_work:
  assumes "worker_step om w w'"
  shows "work_step (wz_queue w) (wz_queue w')"
  using assms
proof cases
  case (sends rnd8 i job)
  then show ?thesis by (auto simp: worker_sends_queue intro: work_step.intros split: sum.split)
qed (auto intro: work_step.intros)

lemma wz_step_queue:
  assumes "wz_step om ok given w w'"
  shows "wz_queue w' = wz_queue w \<or> queue_step (wz_queue w) (wz_queue w')"
  using assms
proof cases
  case worker
  then show ?thesis by (blast intro: queue_step.work worker_step_work)
qed (auto simp: forward_defs split_beta intro: queue_step.intros)

lemma client_disconnect_client: "fst (snd (client_disconnect om reason s)) = disconnect om reason (fst s)"
  by (simp add: client_disconnect_def Let_def split_beta)

lemma worker_step_client:
  "lawful given om \<Longrightarrow> worker_step om w w' \<Longrightarrow> does given (wz_client w) (wz_client w')"
  by (erule worker_step.cases) (auto simp: worker_sends_client does_send does_refl)

lemma wz_step_client:
  assumes "lawful given om" and "wz_step om ok given w w'"
  shows "does given (wz_client w) (wz_client w')"
  using assms(2)
proof cases
  case worker
  then show ?thesis by (rule worker_step_client [OF assms(1)])
next
  case (dispatch m n)
  then show ?thesis
    by (auto simp: forward_defs split_beta raised_def intro!: does_dispatch [OF assms(1)])
next
  case (plugins p)
  then show ?thesis by (auto simp: same_events_def intro!: does_silent)
qed (simp_all add: forward_defs split_beta does_send [OF assms(1)] send_image_def reply_to_def client_disconnect_client
    does_refl does_connect_start [OF assms(1)] does_connect_loaded [OF assms(1)] does_disconnect [OF assms(1)] does_next)

lemma wz_reach_parts:
  assumes "lawful given om" and "wz_reach om ok given cfg rnd16 rnd now p w"
  shows "reachable (wz_queue w) \<and> does given (new_client cfg rnd16 rnd p) (wz_client w)"
  using assms(2)
proof (induction rule: wz_reach.induct)
  case new
  then show ?case by (simp add: new_wazeko_def reachable.new does_refl)
next
  case (step w w')
  then show ?case
    using wz_step_queue [of om ok given w w'] wz_step_client [OF assms(1), of ok w w'] reachable.step does_trans by metis
qed

section \<open>The client as the sender of its queue\<close>

text \<open>The messages a client emitted, in order.\<close>

definition received :: "'p client \<Rightarrow> message list" where
  "received c = [m. MessageReceived m \<leftarrow> emissions c]"

definition client_send :: "'p listeners \<Rightarrow> 'p client sender" where
  "client_send om rnd8 now dest body c = Some (send_message om rnd8 now dest body c)"

definition parts :: "'p wazeko \<Rightarrow> message_queue \<times> 'p client" where
  "parts w = (wz_queue w, wz_client w)"

text \<open>A message is sent by an emission, in which others may be nested.\<close>

lemma received_activity:
  "activity given c (Emission (MessageReceived m) ts # us) d \<Longrightarrow> \<exists>others. received d = received c @ m # others"
  by (drule activity_logs) (simp add: received_def)

lemma received_does: "does given c d \<Longrightarrow> \<exists>ns. received d = received c @ ns"
  by (auto simp: does_def received_def dest!: activity_logs)

lemma send_message_cases:
  assumes "lawful given om" and "send_message om rnd8 now dest body c = (r, c')"
  shows "(\<exists>e. r = Inl e) \<and> c' = c \<or>
     (\<exists>m ts. r = Inr m \<and> activity given c [Emission (MessageReceived m) ts] c' \<and> carries m dest body)"
proof -
  let ?m = "new_message rnd8 now (resolve_recipient dest) (case get_me c of None \<Rightarrow> jid_user (js ''0'') | Some j \<Rightarrow> j) body"
  have "carries ?m dest body" by (simp add: carries_def new_message_def)
  moreover have "\<exists>ts. activity given c [Emission (MessageReceived ?m) ts] (emit_event om (MessageReceived ?m) (log_node bs c))" for bs
    using emit_activity [OF assms(1) raised_new_message] same_events_log_node activity_silent_first by metis
  ultimately show ?thesis
    using assms(2) by (auto simp: send_message_def dispatch_node_def Let_def split: sum.splits)
qed

definition destination_fits :: "jid + jstr \<Rightarrow> bool" where
  "destination_fits dest = string_fits (jid_to_string (resolve_recipient dest))"

interpretation client_sender: job_sender "client_send om" received destination_fits "\<lambda>_. lawful given om" for om given
proof unfold_locales
  fix rnd8 now dest body c c' and m :: message and e :: enc_error
  assume om: "lawful given om"
  show "client_send om rnd8 now dest body c = Some (Inr m, c') \<Longrightarrow>
      (\<exists>others. received c' = received c @ m # others) \<and> carries m dest body"
    using send_message_cases [OF om, of rnd8 now dest body c "Inr m" c'] received_activity by (auto simp: client_send_def)
  show "client_send om rnd8 now dest body c = Some (Inl e, c') \<Longrightarrow> c' = c"
    using send_message_cases [OF om, of rnd8 now dest body c "Inl e" c'] by (auto simp: client_send_def)
next
  fix rnd8 :: bytes and now dest body c c' and e :: enc_error
  assume "destination_fits dest" and "length rnd8 = 8"
  then show "client_send om rnd8 now dest body c \<noteq> Some (Inl e, c')"
    using send_message_fits [of rnd8 dest om now body c] by (auto simp: client_send_def destination_fits_def Let_def)
qed (simp_all add: client_send_def)

text \<open>The workers of the whole are those of a queue with this sender.\<close>

lemma worker_step_sender:
  assumes "worker_step om w w'"
  shows "sender_step (client_send om) (parts w) (parts w')"
  using assms
proof cases
  case (sends rnd8 i job)
  have "parts w' = (send_outcome i job (fst (send_message om rnd8 (Message_Queue.clock (wz_queue w)) (job_to job) (job_content job) (wz_client w)))
      (wz_queue w), snd (send_message om rnd8 (Message_Queue.clock (wz_queue w)) (job_to job) (job_content job) (wz_client w)))"
    by (simp add: parts_def sends(1) worker_sends_client worker_sends_queue send_outcome_def)
  then show ?thesis
    using sender_step.sends [OF sends(2-4), of "client_send om" "wz_client w"] by (simp add: parts_def client_send_def)
qed (auto simp: parts_def intro: sender_step.intros)

lemma sender_worker_step:
  assumes "sender_step (client_send om) (parts w) s"
  shows "\<exists>w'. worker_step om w w' \<and> parts w' = s"
  using assms
proof cases
  case (sends rnd8 i q job c r c')
  then have "parts (worker_sends om rnd8 i job w) = s"
    by (auto simp: parts_def client_send_def worker_sends_client worker_sends_queue send_outcome_def)
  moreover have "worker_step om w (worker_sends om rnd8 i job w)"
    using sends by (intro worker_step.sends) (simp_all add: parts_def)
  ultimately show ?thesis by blast
next
  case (acquires i q job until rnd c)
  then show ?thesis
    using worker_step.acquires [of i w job until rnd om]
    by (intro exI [of _ "w\<lparr>wz_queue := acquired i job q\<rparr>"]) (simp add: parts_def)
next
  case (backs_off i q job due c)
  then show ?thesis
    using worker_step.backs_off [of i w job due om]
    by (intro exI [of _ "w\<lparr>wz_queue := backoff_over i job q\<rparr>"]) (simp add: parts_def)
next
  case (finishes i q c)
  then show ?thesis
    using worker_step.finishes [of i w om] by (intro exI [of _ "w\<lparr>wz_queue := job_finished i q\<rparr>"]) (simp add: parts_def)
qed

section \<open>Invariants of the whole\<close>

lemma wz_step_in_step:
  assumes "lawful given om" and "wz_step om ok given w w'" and "in_step (wz_queue w) (received (wz_client w))"
  shows "in_step (wz_queue w') (received (wz_client w'))"
proof (cases "worker_step om w w'")
  case True
  from client_sender.step_in_step [OF worker_step_sender [OF this]] assms(1,3) show ?thesis by (simp add: parts_def)
next
  case False
  with assms(2) have "settled (wz_queue w') = settled (wz_queue w)"
    by cases (simp_all add: forward_defs split_beta)
  moreover obtain ns where "received (wz_client w') = received (wz_client w) @ ns"
    using received_does [OF wz_step_client [OF assms(1,2)]] by blast
  ultimately show ?thesis using assms(3) in_step_more in_step_settled by metis
qed

lemma wz_reach_in_step:
  assumes "lawful given om" and "wz_reach om ok given cfg rnd16 rnd now p w"
  shows "in_step (wz_queue w) (received (wz_client w))"
  using assms(2)
proof (induction rule: wz_reach.induct)
  case new
  then show ?case by (simp add: in_step_def delivered_def new_wazeko_def new_message_queue_def)
next
  case (step w w')
  then show ?case by (blast intro: wz_step_in_step [OF assms(1)])
qed

lemma wz_step_user:
  assumes "wz_step om ok given w w'"
  shows "worker_step om w w' \<or> wz_queue w' = wz_queue w \<or> user_step ok (wz_queue w) (wz_queue w')"
  using assms by cases (auto simp: forward_defs split_beta intro: user_step.intros)

lemma clean_wz_step:
  assumes "lawful given om" and "wz_step om destination_fits given w w'" and "clean destination_fits (wz_queue w)"
  shows "clean destination_fits (wz_queue w')"
  using wz_step_user [OF assms(2)] client_sender.step_clean [OF worker_step_sender] clean_user assms(1,3)
  by (fastforce simp: parts_def)

lemma clean_reach:
  assumes "lawful given om" and "wz_reach om destination_fits given cfg rnd16 rnd now p w"
  shows "clean destination_fits (wz_queue w)"
  using assms(2)
proof (induction rule: wz_reach.induct)
  case new
  then show ?case by (simp add: new_wazeko_def clean_new)
next
  case (step w w')
  then show ?case by (blast intro: clean_wz_step [OF assms(1)])
qed

text \<open>The workers and the clock alone.\<close>

inductive quiet_step :: "'p listeners \<Rightarrow> 'p wazeko \<Rightarrow> 'p wazeko \<Rightarrow> bool" for om where
  worker: "worker_step om w w' \<Longrightarrow> quiet_step om w w'"
| time: "Message_Queue.clock (wz_queue w) \<le> t \<Longrightarrow> quiet_step om w (time_passes t w)"

lemma time_passes_queue [simp]: "wz_queue (time_passes t w) = (wz_queue w)\<lparr>Message_Queue.clock := t\<rparr>"
  by (simp add: time_passes_def)

lemma quiet_step_sender: "quiet_step om w w' \<Longrightarrow> sender_quiet (client_send om) (parts w) (parts w')"
  by (induction rule: quiet_step.induct) (auto simp: parts_def time_passes_def intro: sender_quiet.intros worker_step_sender [unfolded parts_def])

lemma sender_quiet_wz: "sender_quiet (client_send om) (parts w) s \<Longrightarrow> \<exists>w'. quiet_step om w w' \<and> parts w' = s"
proof (erule sender_quiet.cases)
  fix s0 s1 assume "parts w = s0" "s = s1" "sender_step (client_send om) s0 s1"
  then show "\<exists>w'. quiet_step om w w' \<and> parts w' = s" using sender_worker_step quiet_step.worker by blast
next
  fix q t c assume "parts w = (q, c)" "s = (q\<lparr>Message_Queue.clock := t\<rparr>, c)" "Message_Queue.clock q \<le> t"
  then show "\<exists>w'. quiet_step om w w' \<and> parts w' = s"
    using quiet_step.time [of w t om] by (auto simp: parts_def time_passes_def intro!: exI [of _ "time_passes t w"])
qed

lemma quiets_sender: "rtranclp (quiet_step om) w w' \<Longrightarrow> rtranclp (sender_quiet (client_send om)) (parts w) (parts w')"
  by (induction rule: rtranclp_induct) (auto intro: rtranclp.rtrancl_into_rtrancl quiet_step_sender)

lemma sender_quiets_wz:
  "rtranclp (sender_quiet (client_send om)) (parts w) s \<Longrightarrow> \<exists>w'. rtranclp (quiet_step om) w w' \<and> parts w' = s"
proof (induction rule: rtranclp_induct)
  case (step s s')
  then show ?case using sender_quiet_wz by (metis rtranclp.rtrancl_into_rtrancl)
qed blast

lemma workers_rest:
  "lawful given om \<Longrightarrow> \<exists>w'. rtranclp (quiet_step om) w w' \<and> workers (wz_queue w') = []"
  using client_sender.comes_to_rest [where c = "wz_client w" and q = "wz_queue w" and om = om] sender_quiets_wz [of om w]
  by (fastforce simp: parts_def)

lemma one_sender:
  assumes "wz_reach om ok given cfg rnd16 rnd now p w"
  shows "max_concurrency (wz_queue w) = 1"
  using assms
proof (induction rule: wz_reach.induct)
  case new
  then show ?case by (simp add: new_wazeko_def new_message_queue_def no_queue_options_def or_default_def)
next
  case (step w w')
  then show ?case using wz_step_queue concurrency_kept by metis
qed

lemma own_messages_reach:
  assumes "lawful given om" and "wz_reach om ok given cfg rnd16 rnd now p w"
    and "MessageReceived m \<in> set (emissions (wz_client w))"
  shows "is_from_me (source m) \<or> given m"
proof -
  obtain ts where ts: "activity given (new_client cfg rnd16 rnd p) ts (wz_client w)"
    using wz_reach_parts [OF assms(1,2)] by (auto simp: does_def)
  from activity_logs [OF this] have "emissions (wz_client w) = begun ts" by (simp add: new_client_def)
  with activity_raised [OF ts] assms(3) show ?thesis by auto
qed

section \<open>A run\<close>

text \<open>One message enqueued (0), the jitter waited out (2), the limiter left (3), and the message sent (4).\<close>

definition demo_wazeko :: "nat \<Rightarrow> nat wazeko" where
  "demo_wazeko k =
     (let om = quietly (\<lambda>_ p. p);
          w = enqueue_message (js ''j'') (Inr (js ''1'')) (Text (js ''hi''))
            \<lparr>opt_priority = None, opt_max_retries = None, opt_retry_delay_ms = None, opt_timeout_ms = None,
             opt_custom_id = None\<rparr> (new_wazeko (default_client_config 0) [] 0 0 0);
          w1 = time_passes 1500 w;
          w2 = w1\<lparr>wz_queue := acquired 0 demo_job (wz_queue w1)\<rparr>
      in if k = 0 then w else if k = 2 then w1 else if k = 3 then w2
         else worker_sends om (replicate 8 0) 0 demo_job w2)"

lemma demo_queues: "wz_queue (demo_wazeko 0) = demo_queue [Acquiring demo_job 0]"
  "wz_queue (demo_wazeko 3) = demo_sent [Sending demo_job]"
  by (simp_all add: demo_wazeko_def Let_def enqueue_message_def new_wazeko_def time_passes_def demo_enqueue)
    (simp add: acquired_def set_worker_def acquire_end_def demo_defs)

lemma demo_fits: "destination_fits (Inr (js ''1''))"
  unfolding destination_fits_def
  by (rule string_fits_short) (simp add: resolve_recipient_def jid_user_def jid_to_string_def js_def is_digit_def cu_def)

lemma demo_enqueued: "wz_reach om destination_fits given (default_client_config 0) [] 0 0 0 (demo_wazeko 0)"
  unfolding demo_wazeko_def Let_def by (simp add: wz_reach.step [OF wz_reach.new wz_step.enqueue] demo_fits)

lemma demo_wz_reach:
  "wz_reach (quietly (\<lambda>_ p. p)) destination_fits (\<lambda>_. False) (default_client_config 0) [] 0 0 0 (demo_wazeko 4)"
proof -
  let ?R = "wz_reach (quietly (\<lambda>_ p. p)) destination_fits (\<lambda>_. False) (default_client_config 0) [] 0 0 0"
  have "?R (demo_wazeko 2)"
  proof (rule wz_reach.step [OF demo_enqueued])
    have "demo_wazeko 2 = time_passes 1500 (demo_wazeko 0)" by (simp add: demo_wazeko_def Let_def)
    then show "wz_step (quietly (\<lambda>_ p. p)) destination_fits (\<lambda>_. False) (demo_wazeko 0) (demo_wazeko 2)"
      by (auto intro!: wz_step.time simp: demo_queues demo_defs)
  qed
  moreover have "worker_step (quietly (\<lambda>_ p. p)) (demo_wazeko 2) (demo_wazeko 3)"
  proof -
    have q: "wz_queue (demo_wazeko 2) = (demo_queue [Acquiring demo_job 0])\<lparr>Message_Queue.clock := 1500\<rparr>"
      using demo_queues(1) by (simp add: demo_wazeko_def Let_def time_passes_def)
    have "worker_step (quietly (\<lambda>_ p. p)) (demo_wazeko 2)
        ((demo_wazeko 2)\<lparr>wz_queue := acquired 0 demo_job (wz_queue (demo_wazeko 2))\<rparr>)"
      by (rule worker_step.acquires [where rnd = 0 and until = 0])
        (simp_all add: q jitter_of_def acquire_start_def get_quota_wait_time_def get_random_jitter_def demo_defs)
    then show ?thesis by (simp add: demo_wazeko_def Let_def)
  qed
  moreover have "worker_step (quietly (\<lambda>_ p. p)) (demo_wazeko 3) (demo_wazeko 4)"
  proof -
    have "worker_step (quietly (\<lambda>_ p. p)) (demo_wazeko 3) (worker_sends (quietly (\<lambda>_ p. p)) (replicate 8 0) 0 demo_job (demo_wazeko 3))"
      by (rule worker_step.sends) (simp_all add: demo_queues demo_defs)
    then show ?thesis by (simp add: demo_wazeko_def Let_def)
  qed
  ultimately show ?thesis by (meson wz_reach.step wz_step.worker)
qed

text \<open>The message that was sent.\<close>

definition demo_sent_message :: message where
  "demo_sent_message = new_message (replicate 8 0) 1500 (jid_user (js ''1'')) (jid_user (js ''0'')) (Text (js ''hi''))"

lemma demo_delivered:
  "settled (wz_queue (demo_wazeko 4)) = [(demo_job\<lparr>job_status := JobCompleted\<rparr>, Inr demo_sent_message)]"
  "emissions (wz_client (demo_wazeko 4)) = [MessageReceived demo_sent_message]"
proof -
  have c: "wz_client (demo_wazeko 3) = new_client (default_client_config 0) [] 0 0"
    by (simp add: demo_wazeko_def Let_def enqueue_message_def new_wazeko_def time_passes_def)
  obtain bs where send: "send_message (quietly (\<lambda>_ p. p)) (replicate 8 0) 1500 (Inr (js ''1'')) (Text (js ''hi'')) (wz_client (demo_wazeko 3)) =
      (Inr demo_sent_message, emit_event (quietly (\<lambda>_ p. p)) (MessageReceived demo_sent_message) (log_node bs (wz_client (demo_wazeko 3))))"
  proof -
    have "get_me (wz_client (demo_wazeko 3)) = None" by (simp add: c new_client_def get_me_def init_credentials_def)
    then show thesis
      using send_message_fits [of "replicate 8 0" "Inr (js ''1'')" "quietly (\<lambda>_ p. p)" 1500 "Text (js ''hi'')"
          "wz_client (demo_wazeko 3)"] demo_fits that
      by (auto simp: destination_fits_def Let_def demo_sent_message_def resolve_recipient_def)
  qed
  have w: "demo_wazeko 4 = worker_sends (quietly (\<lambda>_ p. p)) (replicate 8 0) 0 demo_job (demo_wazeko 3)"
    by (simp add: demo_wazeko_def Let_def)
  have job: "job_to demo_job = Inr (js ''1'')" "job_content demo_job = Text (js ''hi'')"
    "Message_Queue.clock (demo_sent ws) = 1500" "settled (demo_sent ws) = []" for ws
    by (simp_all add: demo_defs)
  show "settled (wz_queue (demo_wazeko 4)) = [(demo_job\<lparr>job_status := JobCompleted\<rparr>, Inr demo_sent_message)]"
    by (simp add: w worker_sends_queue demo_queues job send)
  show "emissions (wz_client (demo_wazeko 4)) = [MessageReceived demo_sent_message]"
    unfolding w worker_sends_client demo_queues job send by (simp add: c new_client_def)
qed

section \<open>Properties\<close>

text \<open>
  The whole refines its parts: whatever is called and however the workers interleave, its
  queue is in a state that the queue can reach with an arbitrary sender, and its client in one
  that calls of the client's methods alone can lead to. What was shown of either part holds in
  the whole.
\<close>

theorem client_refines_parts:
  assumes "lawful given om" and "wz_reach om ok given cfg rnd16 rnd now p w"
  shows "reachable (wz_queue w) \<and> does given (new_client cfg rnd16 rnd p) (wz_client w)"
  using assms by (rule wz_reach_parts)

theorem client_refines_parts_witness:
  "reachable (wz_queue (demo_wazeko 4)) \<and> does (\<lambda>_. False) (new_client (default_client_config 0) [] 0 0) (wz_client (demo_wazeko 4))"
  using lawful_quietly demo_wz_reach by (rule client_refines_parts)

text \<open>
  C10. What the queue resolves promises with is what the client sent: the messages of the resolved
  promises are, in the order of their resolution, among those the client emitted, and each has the
  content and the recipient of its job. The listeners may do with the client whatever its methods allow.
\<close>

theorem resolved_messages_were_sent:
  assumes "wz_reach om ok given cfg rnd16 rnd now p w" and "lawful given om"
  shows "subseq [m. (job, Inr m) \<leftarrow> settled (wz_queue w)] [m. MessageReceived m \<leftarrow> emissions (wz_client w)] \<and>
     (\<forall>job m. (job, Inr m) \<in> set (settled (wz_queue w)) \<longrightarrow>
        msg_content m = job_content job \<and> chat (source m) = resolve_recipient (job_to job))"
  using wz_reach_in_step [OF assms(2,1)] by (simp add: in_step_def delivered_def received_def carries_def)

theorem resolved_messages_were_sent_witness:
  "subseq [demo_sent_message] [demo_sent_message] \<and> msg_content demo_sent_message = Text (js ''hi'') \<and>
   chat (source demo_sent_message) = jid_user (js ''1'')"
  using resolved_messages_were_sent [OF demo_wz_reach lawful_quietly]
  by (simp add: demo_delivered demo_job_def resolve_recipient_def)

lemma wz_sound:
  assumes "lawful given om" and "wz_reach om destination_fits given cfg rnd16 rnd now p w"
  shows "client_sender.sound given om (parts w)"
  using assms(1) wz_reach_parts [OF assms] wz_reach_in_step [OF assms] clean_reach [OF assms]
  unfolding client_sender.sound_def parts_def by simp

text \<open>When no worker is left every promise is settled, as was to be.\<close>

lemma rest_delivers:
  assumes "lawful given om" and "wz_reach om destination_fits given cfg rnd16 rnd now p w" and "is_processing (wz_queue w)"
    and "rtranclp (quiet_step om) w w'" and "workers (wz_queue w') = []"
    and "n < promises (wz_queue w)" and "n \<notin> set (cleared (wz_queue w))"
  shows "\<exists>job m. job_promise job = n \<and> (job, Inr m) \<in> set (settled (wz_queue w')) \<and> MessageReceived m \<in> set (emissions (wz_client w'))"
  using client_sender.delivers [OF wz_sound [OF assms(1,2), unfolded parts_def] assms(3) _
      quiets_sender [OF assms(4), unfolded parts_def] assms(5-7)] one_sender [OF assms(2)]
  by (force simp: received_def)

text \<open>
  C6. Every message that can be sent is delivered. When the queue is processing and only messages to
  addresses that fit the format were enqueued, then from every state, whatever else was called
  and whatever the listeners do with the client,
  the workers and the clock alone can come to rest; and whenever they do, every promise made so far
  has been resolved with a message the client emitted, but for those dropped by \<^verbatim>\<open>clear\<close>.
\<close>

theorem enqueued_messages_are_delivered:
  assumes "wz_reach om destination_fits given cfg rnd16 rnd now p w" and "lawful given om" and "is_processing (wz_queue w)"
  shows "(\<exists>w'. rtranclp (quiet_step om) w w' \<and> workers (wz_queue w') = []) \<and>
     (\<forall>w' n. rtranclp (quiet_step om) w w' \<and> workers (wz_queue w') = [] \<and> n < promises (wz_queue w) \<and>
        n \<notin> set (cleared (wz_queue w)) \<longrightarrow>
        (\<exists>job m. job_promise job = n \<and> (job, Inr m) \<in> set (settled (wz_queue w')) \<and>
           MessageReceived m \<in> set (emissions (wz_client w'))))"
  using workers_rest [OF assms(2)] rest_delivers [OF assms(2,1,3)] by metis

theorem enqueued_messages_are_delivered_witness:
  "\<exists>w'. rtranclp (quiet_step (quietly (\<lambda>_ p. p))) (demo_wazeko 0) w' \<and>
     (\<exists>job m. job_promise job = 0 \<and> (job, Inr m) \<in> set (settled (wz_queue w')) \<and>
        MessageReceived m \<in> set (emissions (wz_client w')))"
proof -
  have "is_processing (wz_queue (demo_wazeko 0))" "promises (wz_queue (demo_wazeko 0)) = 1"
    "cleared (wz_queue (demo_wazeko 0)) = []"
    by (simp_all add: demo_queues demo_defs)
  with enqueued_messages_are_delivered [OF demo_enqueued lawful_quietly] show ?thesis by (metis empty_iff empty_set zero_less_one)
qed

text \<open>
  C24. Nobody else's message is ever announced: whatever is called, by a user or by a listener, every
  message the client emits is its own or one that a caller passed to \<^verbatim>\<open>dispatchNode\<close>. Nothing comes in
  from the network.
\<close>

theorem only_own_messages:
  assumes "wz_reach om ok given cfg rnd16 rnd now p w" and "lawful given om"
    and "MessageReceived m \<in> set (emissions (wz_client w))"
  shows "is_from_me (source m) \<or> given m"
  using assms(2,1,3) by (rule own_messages_reach)

theorem only_own_messages_witness: "is_from_me (source demo_sent_message)"
  using only_own_messages [OF demo_wz_reach lawful_quietly, of demo_sent_message] by (simp add: demo_delivered)

end
