(* ===== verification/Replies.thy ===== *)
theory Replies
  imports Listeners
begin

text \<open>
  Commands that answer (\<^verbatim>\<open>reply\<close> of the context in \<^verbatim>\<open>plugins/command-loader.ts\<close>, which sends through the
  client of \<^verbatim>\<open>client.ts\<close>, both under \<^verbatim>\<open>packages/wazeko/src\<close>). Emitting a message calls the registry, whose
  command sends its answer, which is emitted in turn: all this runs inside the first emission,
  because every call on the way is made before its caller suspends. Only this synchronous part is
  modelled here: of a command, the answers it sends before it first suspends; of the
  middlewares, the built-in ones up to their first \<^verbatim>\<open>await\<close>. What they do afterwards (the log
  of the execution) is in \<^verbatim>\<open>Command_Registry\<close>. The nesting is bounded by the depth of the stack. As long as
  the stack suffices this is an emission of \<^verbatim>\<open>Client\<close> with a lawful listener.
\<close>

section \<open>The synchronous part of a pipeline\<close>

primrec sync_body :: "'w middleware \<Rightarrow> ('w \<Rightarrow> 'w) \<Rightarrow> 'w \<Rightarrow> 'w" where
  "sync_body MwReturn nxt w = w"
| "sync_body (MwThrow e) nxt w = w"
| "sync_body (MwDo f m) nxt w = sync_body m nxt (f w)"
| "sync_body (MwRead f) nxt w = sync_body (f w) nxt w"
| "sync_body (MwNext k) nxt w = nxt w"

primrec sync_pipeline :: "'w middleware list \<Rightarrow> ('w \<Rightarrow> 'w) \<Rightarrow> 'w \<Rightarrow> 'w" where
  "sync_pipeline [] target w = target w"
| "sync_pipeline (m # ms) target w = sync_body m (sync_pipeline ms target) w"

text \<open>
  \<open>answers x ctx\<close>: the texts that the command \<open>x\<close> passes to \<^verbatim>\<open>ctx.reply\<close> before it suspends, in order; more
  than one when it does not await the first.
\<close>

type_synonym 'x answering = "'x \<Rightarrow> 'x command_context \<Rightarrow> jstr list"

definition sync_execute :: "'x answering \<Rightarrow> 'x \<Rightarrow> 'x world \<Rightarrow> 'x world" where
  "sync_execute answers x w =
     (fst w, fold log_reply (answers x (fst w)) (snd w))"

definition begin_handling ::
    "(jstr \<Rightarrow> jstr) \<Rightarrow> (rat \<Rightarrow> jstr) \<Rightarrow> 'x answering \<Rightarrow> message \<Rightarrow> 'x command_registry \<Rightarrow> 'x command_registry" where
  "begin_handling lower fixed1 answers m r =
     (case parse_command lower (cmd_prefix r) (extract_message_text (msg_content m)) of
        None \<Rightarrow> r
      | Some (commandName, as) \<Rightarrow>
          (case get_command lower commandName r of
             None \<Rightarrow> r
           | Some command \<Rightarrow>
               snd (sync_pipeline (default_pipeline fixed1) (sync_execute answers (cmd_execute command))
                 (make_context r m command commandName as, r))))"

section \<open>Answers are sent, and announced in turn\<close>

type_synonym 'x bot = "'x command_registry client"

text \<open>Sending with a given way to announce the message; random bytes and clock by the number of emissions.\<close>

definition send_via ::
    "(message \<Rightarrow> 'x bot \<Rightarrow> 'x bot option) \<Rightarrow> (nat \<Rightarrow> bytes) \<Rightarrow> (nat \<Rightarrow> int) \<Rightarrow> jid + jstr \<Rightarrow> message_content \<Rightarrow>
     'x bot \<Rightarrow> 'x bot option" where
  "send_via emits rnd8 now dest body c =
     (let k = length (emissions c);
          toJid = resolve_recipient dest;
          meJid = (case get_me c of None \<Rightarrow> jid_user (js ''0'') | Some j \<Rightarrow> j);
          m = new_message (rnd8 k) (now k) toJid meJid body
      in case encode (message_node (msg_id m) toJid) of Inl e \<Rightarrow> Some c | Inr encoded \<Rightarrow> emits m (log_node encoded c))"

definition answer_to :: "message \<Rightarrow> jstr \<Rightarrow> message_content" where
  "answer_to m t = Reply (msg_id m) (quoted_text (msg_content m)) t"

definition new_replies :: "'x command_registry \<Rightarrow> 'x command_registry \<Rightarrow> jstr list" where
  "new_replies r r' = drop (length (replies r)) (replies r')"

primrec send_answers :: "(jstr \<Rightarrow> 'x bot \<Rightarrow> 'x bot option) \<Rightarrow> jstr list \<Rightarrow> 'x bot \<Rightarrow> 'x bot option" where
  "send_answers sends [] c = Some c"
| "send_answers sends (t # ts) c =
     (case sends t c of None \<Rightarrow> None | Some c \<Rightarrow> send_answers sends ts c)"

text \<open>What the registry, the first listener, does inside the emission: the handling, and its answers sent.\<close>

definition handle_then_reply ::
    "(message \<Rightarrow> 'x bot \<Rightarrow> 'x bot option) \<Rightarrow> (jstr \<Rightarrow> jstr) \<Rightarrow> (rat \<Rightarrow> jstr) \<Rightarrow> 'x answering \<Rightarrow> (nat \<Rightarrow> bytes) \<Rightarrow>
     (nat \<Rightarrow> int) \<Rightarrow> message \<Rightarrow> 'x bot \<Rightarrow> 'x bot option" where
  "handle_then_reply emits lower fixed1 answers rnd8 now m c =
     (let r = plugin_state c; r' = begin_handling lower fixed1 answers m r
      in send_answers (\<lambda>t. send_via emits rnd8 now (Inl (chat (source m))) (answer_to m t)) (new_replies r r')
           (c\<lparr>plugin_state := r'\<rparr>))"

text \<open>
  The emission of a message, with the registry as listener, on a stack with room for \<open>s\<close> nested
  emissions: \<^const>\<open>None\<close> when it is not enough.
\<close>

primrec emit_message ::
    "(jstr \<Rightarrow> jstr) \<Rightarrow> (rat \<Rightarrow> jstr) \<Rightarrow> 'x answering \<Rightarrow> (nat \<Rightarrow> bytes) \<Rightarrow> (nat \<Rightarrow> int) \<Rightarrow> nat \<Rightarrow> message \<Rightarrow>
     'x bot \<Rightarrow> 'x bot option" where
  "emit_message lower fixed1 answers rnd8 now 0 m c = None"
| "emit_message lower fixed1 answers rnd8 now (Suc s) m c =
     map_option (end_emit (MessageReceived m))
       (handle_then_reply (emit_message lower fixed1 answers rnd8 now s) lower fixed1 answers rnd8 now m
         (begin_emit (MessageReceived m) c))"

declare emit_message.simps(2) [simp del]

section \<open>What the built-in middlewares do at once\<close>

lemma sync_reply: "sync_body (reply_and_return t) nxt (ctx, r) = (ctx, log_reply t r)"
  by (simp add: reply_and_return_def split: option.split)

lemma sync_logger: "sync_body (create_execution_logger onLog) nxt (ctx, r) = nxt (ctx, tick r)"
  by (simp add: create_execution_logger_def Let_def)

lemma sync_admin_guard:
  "sync_body create_admin_guard nxt (ctx, r) =
     (if truthy (Option.bind (ctx_command ctx) admin_only) \<and> \<not> truthy (is_admin ctx) \<and> \<not> truthy (is_owner ctx)
      then (ctx, log_reply admin_text r)
      else if truthy (Option.bind (ctx_command ctx) owner_only) \<and> \<not> truthy (is_owner ctx)
      then (ctx, log_reply owner_text r)
      else nxt (ctx, r))"
  by (simp add: create_admin_guard_def Let_def sync_reply await_next_def)

lemma sync_cooldown_guard:
  "sync_body (create_cooldown_guard fixed1) nxt (ctx, r) =
     (if 0 < cooldown_of ctx then
        if elapsed_seconds ctx r < cooldown_of ctx
        then (ctx, log_reply (cooldown_text fixed1 (cooldown_of ctx - elapsed_seconds ctx r)) (tick r))
        else nxt (ctx, set_cooldown ctx (tick r))
      else nxt (ctx, r))"
  by (simp add: create_cooldown_guard_def Let_def sync_reply await_next_def)

lemmas sync_default = default_pipeline_def sync_pipeline.simps sync_logger sync_admin_guard sync_cooldown_guard

lemma sync_refused:
  assumes "refusal fixed1 ctx r = Some t"
  shows "\<exists>k. snd (sync_pipeline (default_pipeline fixed1) target (ctx, r)) = refused_registry t k r"
proof -
  have "log_reply u (tick r) = refused_registry u 1 r" "log_reply u (tick (tick r)) = refused_registry u 2 r" for u
    by (simp_all add: log_reply_def tick_def refused_registry_def)
  then show ?thesis using assms by (auto simp: sync_default refusal_def split: if_splits)
qed

lemma sync_admitted:
  assumes "refusal fixed1 ctx r = None"
  shows "sync_pipeline (default_pipeline fixed1) target (ctx, r) =
     target (ctx, if 0 < cooldown_of ctx then set_cooldown ctx (tick (tick r)) else tick r)"
  using assms by (auto simp: sync_default refusal_def split: if_splits)

section \<open>What handling a message does to the registry at once\<close>

text \<open>Nothing that later commands depend on but the cooldowns and the clock.\<close>

definition same_commands :: "'x command_registry \<Rightarrow> 'x command_registry \<Rightarrow> bool" where
  "same_commands r r' = (cmd_prefix r' = cmd_prefix r \<and> commands r' = commands r \<and> aliases r' = aliases r)"

lemma get_command_same: "same_commands r r' \<Longrightarrow> get_command lower n r' = get_command lower n r"
  by (auto simp: get_command_def same_commands_def Let_def split: option.split)

lemma same_commands_simps [simp]:
  "same_commands r r" "same_commands r (tick r')  = same_commands r r'" "same_commands r (log_reply t r') = same_commands r r'"
  "same_commands r (set_cooldown ctx r') = same_commands r r'" "same_commands r (refused_registry t k r') = same_commands r r'"
  by (simp_all add: same_commands_def tick_def log_reply_def set_cooldown_def refused_registry_def)

lemma replies_simps [simp]:
  "replies (tick r) = replies r" "replies (log_reply t r) = replies r @ [t]"
  "replies (set_cooldown ctx r) = replies r" "replies (refused_registry t k r) = replies r @ [t]"
  by (simp_all add: tick_def log_reply_def set_cooldown_def refused_registry_def)

definition guard_texts :: "(rat \<Rightarrow> jstr) \<Rightarrow> jstr set" where
  "guard_texts fixed1 = {admin_text, owner_text} \<union> range (cooldown_text fixed1)"

lemma refusal_text: "refusal fixed1 ctx r = Some t \<Longrightarrow> t \<in> guard_texts fixed1"
  by (auto simp: refusal_def guard_texts_def split: if_splits)

lemma begin_no_command:
  "parse_command lower (cmd_prefix r) (extract_message_text (msg_content m)) = None \<Longrightarrow>
     begin_handling lower fixed1 answers m r = r"
  by (simp add: begin_handling_def)

lemma begin_command:
  assumes "parse_command lower (cmd_prefix r) (extract_message_text (msg_content m)) = Some (n, as)"
    and "get_command lower n r = Some cmd"
  shows "begin_handling lower fixed1 answers m r =
     snd (sync_pipeline (default_pipeline fixed1) (sync_execute answers (cmd_execute cmd)) (make_context r m cmd n as, r))"
  using assms by (simp add: begin_handling_def)

lemma replies_logged: "replies (fold log_reply ts r) = replies r @ ts" "same_commands r (fold log_reply ts r') = same_commands r r'"
  by (induction ts arbitrary: r r') simp_all

text \<open>What is to be answered to a message at once: nothing, the refusal of a guard, or what the command says.\<close>

definition due_answers ::
    "(jstr \<Rightarrow> jstr) \<Rightarrow> (rat \<Rightarrow> jstr) \<Rightarrow> 'x answering \<Rightarrow> message \<Rightarrow> 'x command_registry \<Rightarrow> jstr list" where
  "due_answers lower fixed1 answers m r =
     (case parse_command lower (cmd_prefix r) (extract_message_text (msg_content m)) of
        None \<Rightarrow> []
      | Some (n, as) \<Rightarrow>
          (case get_command lower n r of
             None \<Rightarrow> []
           | Some cmd \<Rightarrow>
               (case refusal fixed1 (make_context r m cmd n as) r of
                  Some t \<Rightarrow> [t]
                | None \<Rightarrow> answers (cmd_execute cmd) (make_context r m cmd n as))))"

lemma begin_answers:
  "new_replies r (begin_handling lower fixed1 answers m r) = due_answers lower fixed1 answers m r \<and>
   same_commands r (begin_handling lower fixed1 answers m r)"
proof (cases "\<exists>n as cmd. parse_command lower (cmd_prefix r) (extract_message_text (msg_content m)) = Some (n, as) \<and>
    get_command lower n r = Some cmd")
  case False
  then have "begin_handling lower fixed1 answers m r = r" "due_answers lower fixed1 answers m r = []"
    by (auto simp: begin_handling_def due_answers_def split: option.split)
  then show ?thesis by (simp add: new_replies_def)
next
  case True
  then obtain n as cmd where c: "parse_command lower (cmd_prefix r) (extract_message_text (msg_content m)) = Some (n, as)"
    "get_command lower n r = Some cmd" by blast
  let ?ctx = "make_context r m cmd n as"
  show ?thesis
  proof (cases "refusal fixed1 ?ctx r")
    case None
    then show ?thesis
      unfolding begin_command [OF c] sync_admitted [OF None]
      by (simp add: sync_execute_def new_replies_def replies_logged due_answers_def c)
  next
    case (Some t)
    then obtain k where k: "snd (sync_pipeline (default_pipeline fixed1) (sync_execute answers (cmd_execute cmd)) (?ctx, r)) =
        refused_registry t k r"
      using sync_refused by blast
    then show ?thesis
      unfolding begin_command [OF c] k using Some by (simp add: new_replies_def due_answers_def c)
  qed
qed

lemma due_texts:
  "t \<in> set (due_answers lower fixed1 answers m r) \<Longrightarrow> t \<in> guard_texts fixed1 \<or> (\<exists>x ctx. t \<in> set (answers x ctx))"
  by (auto simp: due_answers_def dest: refusal_text split: option.splits)

lemma due_no_command:
  "parse_command lower (cmd_prefix r) (extract_message_text (msg_content m)) = None \<Longrightarrow> due_answers lower fixed1 answers m r = []"
  by (simp add: due_answers_def)

section \<open>Emissions with answers\<close>

lemma answer_text [simp]: "extract_message_text (answer_to m t) = t"
  by (simp add: answer_to_def)

lemma handle_then_reply_due:
  "\<exists>r'. same_commands (plugin_state c) r' \<and>
     handle_then_reply emits lower fixed1 answers rnd8 now m c =
       send_answers (\<lambda>t. send_via emits rnd8 now (Inl (chat (source m))) (answer_to m t))
         (due_answers lower fixed1 answers m (plugin_state c)) (c\<lparr>plugin_state := r'\<rparr>)"
  using begin_answers [of "plugin_state c" lower fixed1 answers m] unfolding handle_then_reply_def Let_def by metis

text \<open>A message that is no command is announced to everybody, as by a listener that does nothing.\<close>

lemma emit_no_command:
  assumes "parse_command lower (cmd_prefix (plugin_state c)) (extract_message_text (msg_content m)) = None"
  shows "emit_message lower fixed1 answers rnd8 now (Suc s) m c = Some (emit_event (\<lambda>ev c. c) (MessageReceived m) c)"
  by (simp add: emit_message.simps(2) handle_then_reply_def begin_no_command assms new_replies_def emit_event_def Let_def)

lemma send_via_fits:
  assumes "\<And>k. length (rnd8 k) = 8"
  shows "if string_fits (jid_to_string j)
     then \<exists>bs. send_via emits rnd8 now (Inl j) body c =
       emits (new_message (rnd8 (length (emissions c))) (now (length (emissions c))) j
         (case get_me c of None \<Rightarrow> jid_user (js ''0'') | Some i \<Rightarrow> i) body) (log_node bs c)
     else send_via emits rnd8 now (Inl j) body c = Some c"
  using encode_new_message_node [OF assms, of "length (emissions c)" "now (length (emissions c))" j
      "case get_me c of None \<Rightarrow> jid_user (js ''0'') | Some i \<Rightarrow> i" body j]
  by (auto simp: send_via_def resolve_recipient_def Let_def split: sum.split)

text \<open>Answers that are no commands are sent one after the other.\<close>

definition pushes :: "event list \<Rightarrow> event_queue \<Rightarrow> event_queue" where
  "pushes evs q = fold (\<lambda>ev q. snd (push ev q)) evs q"

lemma pushes_open:
  "\<not> closed q \<Longrightarrow> waiters q = [] \<Longrightarrow> pushes evs q = q\<lparr>queue := queue q @ evs\<rparr>"
  by (induction evs arbitrary: q) (simp_all add: pushes_def push_def)

definition announces :: "'x bot \<Rightarrow> message list \<Rightarrow> 'x bot \<Rightarrow> bool" where
  "announces c as d =
     (emissions d = emissions c @ map MessageReceived as \<and> heard d = heard c @ map MessageReceived as \<and>
      event_q d = pushes (map MessageReceived as) (event_q c) \<and> next_calls d = next_calls c \<and>
      plugin_state d = plugin_state c)"

lemma announces_trans: "announces c as d \<Longrightarrow> announces d bs e \<Longrightarrow> announces c (as @ bs) e"
  by (simp add: announces_def pushes_def)

lemma announces_one: "announces c [m] (emit_event (\<lambda>ev c. c) (MessageReceived m) (log_node bs c))"
  by (simp add: announces_def emit_event_def pushes_def)

lemma send_answers_announces:
  assumes "\<And>k. length (rnd8 k) = 8"
    and "\<forall>t \<in> set ts. parse_command lower (cmd_prefix (plugin_state c)) t = None"
  shows "\<exists>d as. send_answers (\<lambda>t. send_via (emit_message lower fixed1 answers rnd8 now (Suc s)) rnd8 now
         (Inl (chat (source m))) (answer_to m t)) ts c = Some d \<and> announces c as d \<and>
     map msg_content as = (if string_fits (jid_to_string (chat (source m))) then map (answer_to m) ts else []) \<and>
     (\<forall>a \<in> set as. chat (source a) = chat (source m) \<and> is_from_me (source a))"
  using assms(2)
proof (induction ts arbitrary: c)
  case Nil
  then show ?case by (intro exI [of _ c] exI [of _ "[]"]) (simp add: announces_def pushes_def)
next
  case (Cons t ts)
  let ?send = "send_via (emit_message lower fixed1 answers rnd8 now (Suc s)) rnd8 now (Inl (chat (source m))) (answer_to m t)"
  let ?fits = "string_fits (jid_to_string (chat (source m)))"
  note via = send_via_fits [of rnd8 "chat (source m)" "emit_message lower fixed1 answers rnd8 now (Suc s)" now "answer_to m t" c,
      OF assms(1)]
  have one: "\<exists>d as. ?send c = Some d \<and> announces c as d \<and> map msg_content as = (if ?fits then [answer_to m t] else []) \<and>
      (\<forall>a \<in> set as. chat (source a) = chat (source m) \<and> is_from_me (source a))"
  proof (cases ?fits)
    case True
    let ?a = "new_message (rnd8 (length (emissions c))) (now (length (emissions c))) (chat (source m))
         (case get_me c of None \<Rightarrow> jid_user (js ''0'') | Some i \<Rightarrow> i) (answer_to m t)"
    obtain bs where "?send c = emit_message lower fixed1 answers rnd8 now (Suc s) ?a (log_node bs c)"
      using via True by auto
    also have "\<dots> = Some (emit_event (\<lambda>ev c. c) (MessageReceived ?a) (log_node bs c))"
      using Cons.prems by (intro emit_no_command) (simp add: new_message_def)
    finally show ?thesis
      using announces_one [of c ?a bs] True
      by (intro exI [of _ "emit_event (\<lambda>ev c. c) (MessageReceived ?a) (log_node bs c)"] exI [of _ "[?a]"])
        (simp add: new_message_def)
  next
    case False
    with via show ?thesis by (intro exI [of _ c] exI [of _ "[]"]) (simp add: announces_def pushes_def)
  qed
  then obtain d as where d: "?send c = Some d" "announces c as d" "map msg_content as = (if ?fits then [answer_to m t] else [])"
    "\<forall>a \<in> set as. chat (source a) = chat (source m) \<and> is_from_me (source a)" by blast
  have "\<forall>t \<in> set ts. parse_command lower (cmd_prefix (plugin_state d)) t = None"
    using Cons.prems d(2) by (simp add: announces_def)
  from Cons.IH [OF this] obtain e bs where e: "send_answers (\<lambda>t. send_via (emit_message lower fixed1 answers rnd8 now (Suc s)) rnd8 now
      (Inl (chat (source m))) (answer_to m t)) ts d = Some e" "announces d bs e"
    "map msg_content bs = (if ?fits then map (answer_to m) ts else [])"
    "\<forall>a \<in> set bs. chat (source a) = chat (source m) \<and> is_from_me (source a)" by blast
  show ?case
    using d e announces_trans [OF d(2) e(2)]
    by (intro exI [of _ e] exI [of _ "as @ bs"]) (auto split: if_splits)
qed

text \<open>A message whose answers are no commands, as it is announced with them.\<close>

lemma emit_announces:
  assumes "\<And>k. length (rnd8 k) = 8"
    and "\<forall>t \<in> set (due_answers lower fixed1 answers m (plugin_state c)). parse_command lower (cmd_prefix (plugin_state c)) t = None"
  shows "\<exists>c' as. emit_message lower fixed1 answers rnd8 now (Suc (Suc s)) m c = Some c' \<and>
     emissions c' = emissions c @ MessageReceived m # map MessageReceived as \<and>
     heard c' = heard c @ map MessageReceived as @ [MessageReceived m] \<and>
     event_q c' = pushes (map MessageReceived as @ [MessageReceived m]) (event_q c) \<and>
     map msg_content as = (if string_fits (jid_to_string (chat (source m)))
       then map (answer_to m) (due_answers lower fixed1 answers m (plugin_state c)) else []) \<and>
     (\<forall>a \<in> set as. chat (source a) = chat (source m) \<and> is_from_me (source a)) \<and>
     same_commands (plugin_state c) (plugin_state c') \<and> next_calls c' = next_calls c"
proof -
  let ?c = "begin_emit (MessageReceived m) c"
  obtain r' where r: "same_commands (plugin_state c) r'"
    "handle_then_reply (emit_message lower fixed1 answers rnd8 now (Suc s)) lower fixed1 answers rnd8 now m ?c =
       send_answers (\<lambda>t. send_via (emit_message lower fixed1 answers rnd8 now (Suc s)) rnd8 now (Inl (chat (source m))) (answer_to m t))
         (due_answers lower fixed1 answers m (plugin_state c)) (?c\<lparr>plugin_state := r'\<rparr>)"
    using handle_then_reply_due [of ?c "emit_message lower fixed1 answers rnd8 now (Suc s)" lower fixed1 answers rnd8 now m] by auto
  have "\<forall>t \<in> set (due_answers lower fixed1 answers m (plugin_state c)).
      parse_command lower (cmd_prefix (plugin_state (?c\<lparr>plugin_state := r'\<rparr>))) t = None"
    using assms(2) r(1) by (simp add: same_commands_def)
  from send_answers_announces [of rnd8, OF assms(1) this, of fixed1 answers now s m] r(2)
  obtain d as where d: "emit_message lower fixed1 answers rnd8 now (Suc (Suc s)) m c = Some (end_emit (MessageReceived m) d)"
    "announces (?c\<lparr>plugin_state := r'\<rparr>) as d"
    "map msg_content as = (if string_fits (jid_to_string (chat (source m)))
       then map (answer_to m) (due_answers lower fixed1 answers m (plugin_state c)) else [])"
    "\<forall>a \<in> set as. chat (source a) = chat (source m) \<and> is_from_me (source a)"
    by (auto simp: emit_message.simps(2) [of lower fixed1 answers rnd8 now "Suc s" m c])
  then show ?thesis
    using r(1)
    by (intro exI [of _ "end_emit (MessageReceived m) d"] exI [of _ as])
      (simp add: announces_def pushes_def same_commands_def)
qed

section \<open>The registry as a lawful listener\<close>

definition registry_listener ::
    "(jstr \<Rightarrow> jstr) \<Rightarrow> (rat \<Rightarrow> jstr) \<Rightarrow> 'x answering \<Rightarrow> (nat \<Rightarrow> bytes) \<Rightarrow> (nat \<Rightarrow> int) \<Rightarrow> nat \<Rightarrow>
     'x command_registry listeners" where
  "registry_listener lower fixed1 answers rnd8 now s ev c =
     (case ev of
        MessageReceived m \<Rightarrow>
          (case handle_then_reply (emit_message lower fixed1 answers rnd8 now s) lower fixed1 answers rnd8 now m c of
             None \<Rightarrow> c
           | Some d \<Rightarrow> d)
      | _ \<Rightarrow> c)"

lemma emit_message_listener:
  "emit_message lower fixed1 answers rnd8 now (Suc s) m c = Some d \<Longrightarrow>
     d = emit_event (registry_listener lower fixed1 answers rnd8 now s) (MessageReceived m) c"
  by (auto simp: emit_message.simps(2) emit_event_def registry_listener_def)

lemma send_answers_does:
  assumes "\<And>t c d. sends t c = Some d \<Longrightarrow> does given c d"
  shows "send_answers sends ts c = Some d \<Longrightarrow> does given c d"
  by (induction ts arbitrary: c) (auto simp: does_refl dest: assms intro: does_trans split: option.splits)

lemma send_via_does:
  assumes "\<And>m c d. raised given (MessageReceived m) \<Longrightarrow> emits m c = Some d \<Longrightarrow> does given c d"
    and "send_via emits rnd8 now dest body c = Some d"
  shows "does given c d"
  using assms(2)
  by (auto simp: send_via_def Let_def does_refl intro: does_trans [OF does_silent [OF same_events_log_node] assms(1)]
      raised_new_message split: sum.splits)

lemma handle_does:
  assumes "\<And>m c d. raised given (MessageReceived m) \<Longrightarrow> emits m c = Some d \<Longrightarrow> does given c d"
    and "handle_then_reply emits lower fixed1 answers rnd8 now m c = Some d"
  shows "does given c d"
proof -
  have "does given c (c\<lparr>plugin_state := r\<rparr>)" for r by (rule does_silent) (simp add: same_events_def)
  moreover have "does given (c\<lparr>plugin_state := r\<rparr>) d"
    if "send_answers (\<lambda>t. send_via emits rnd8 now j (answer_to m t)) ts (c\<lparr>plugin_state := r\<rparr>) = Some d" for j ts r
    using that by (rule send_answers_does [rotated]) (rule send_via_does [OF assms(1)])
  ultimately show ?thesis using assms(2) unfolding handle_then_reply_def Let_def by (blast intro: does_trans)
qed

lemma emit_message_does:
  "raised given (MessageReceived m) \<Longrightarrow> emit_message lower fixed1 answers rnd8 now s m c = Some d \<Longrightarrow> does given c d"
proof (induction s arbitrary: m c d)
  case (Suc s)
  obtain e where e: "handle_then_reply (emit_message lower fixed1 answers rnd8 now s) lower fixed1 answers rnd8 now m
      (begin_emit (MessageReceived m) c) = Some e" "d = end_emit (MessageReceived m) e"
    using Suc.prems(2) by (auto simp: emit_message.simps(2))
  have "does given (begin_emit (MessageReceived m) c) e" using Suc.IH e(1) by (rule handle_does)
  then show ?case unfolding e(2) does_def using Suc.prems(1) by (blast intro: activity.emits)
qed simp

lemma lawful_registry: "lawful given (registry_listener lower fixed1 answers rnd8 now s)"
proof -
  have "does given c (registry_listener lower fixed1 answers rnd8 now s ev c)" for ev c
    by (auto simp: registry_listener_def does_refl intro: handle_does [OF emit_message_does] split: event.split option.split)
  then show ?thesis by (simp add: lawful_def does_def)
qed

section \<open>Properties\<close>

text \<open>
  C19. Answers overtake the message they answer: the calls of \<^verbatim>\<open>emit\<close> and the constructor's own listener have
  the command first, but every listener registered after it, and the event queue with the
  readers of \<^verbatim>\<open>client.events()\<close>, get the command's answers before the command, because
  the first listener sends them before the others run and before the command is pushed.
\<close>

theorem answer_overtakes_command:
  assumes "parse_command lower (cmd_prefix (plugin_state c)) (extract_message_text (msg_content m)) = Some (n, as)"
    and "get_command lower n (plugin_state c) = Some cmd"
    and "refusal fixed1 (make_context (plugin_state c) m cmd n as) (plugin_state c) = None"
    and "answers (cmd_execute cmd) (make_context (plugin_state c) m cmd n as) = ts"
    and "\<forall>t \<in> set ts. parse_command lower (cmd_prefix (plugin_state c)) t = None"
    and "string_fits (jid_to_string (chat (source m)))" and "\<And>k. length (rnd8 k) = 8"
    and "\<not> closed (event_q c)" and "waiters (event_q c) = []"
  shows "\<exists>bs c'. emit_message lower fixed1 answers rnd8 now (Suc (Suc s)) m c = Some c' \<and>
     map msg_content bs = map (answer_to m) ts \<and> (\<forall>a \<in> set bs. chat (source a) = chat (source m)) \<and>
     emissions c' = emissions c @ MessageReceived m # map MessageReceived bs \<and>
     heard c' = heard c @ map MessageReceived bs @ [MessageReceived m] \<and>
     queue (event_q c') = queue (event_q c) @ map MessageReceived bs @ [MessageReceived m]"
proof -
  have due: "due_answers lower fixed1 answers m (plugin_state c) = ts"
    using assms(1-4) by (simp add: due_answers_def)
  have "\<forall>t \<in> set (due_answers lower fixed1 answers m (plugin_state c)). parse_command lower (cmd_prefix (plugin_state c)) t = None"
    using assms(5) by (simp add: due)
  from emit_announces [of rnd8, OF assms(7) this, of now s] show ?thesis
    using assms(6) pushes_open [OF assms(8,9)] by (fastforce simp: due)
qed

definition sample_bot :: "nat bot" where
  "sample_bot = new_client (default_client_config 0) [] 0 sample_registry"

lemma sample_bot_fields: "plugin_state sample_bot = sample_registry" "emissions sample_bot = []" "queue (event_q sample_bot) = []"
  "waiters (event_q sample_bot) = []" "\<not> closed (event_q sample_bot)" "heard sample_bot = []"
  by (simp_all add: sample_bot_def new_client_def new_event_queue_def)

lemma sample_address: "string_fits (jid_to_string (chat (source (sample_message t))))"
  by (rule string_fits_short) (simp add: sample_message_def jid_user_def jid_to_string_def js_def is_digit_def cu_def)

lemma pong_no_prefix: "\<not> starts_with (js ''!'') (js ''pong'')"
  by (simp add: starts_with_def js_def cu_def)

lemma no_prefix_no_command: "\<not> starts_with p t \<Longrightarrow> parse_command lower (PrefixText p) t = None"
  by (simp add: parse_command_def strip_prefix_def)

lemma sample_admitted:
  "refusal (\<lambda>_. []) (make_context (plugin_state sample_bot) (sample_message ''!pi'') (sample_command ''pi'') (js ''pi'') [])
     (plugin_state sample_bot) = None"
  by (simp add: refusal_def make_context_def truthy_def sample_command_def cooldown_of_def elapsed_seconds_def
      date_now_def tick_def sample_fields sample_bot_fields)

text \<open>A command that answers twice without waiting.\<close>

theorem answer_overtakes_command_witness:
  "\<exists>bs c'. emit_message id (\<lambda>_. []) (\<lambda>_ _. [js ''pong'', js ''pong'']) (\<lambda>_. replicate 8 0) (\<lambda>_. 0) 2 (sample_message ''!pi'') sample_bot = Some c' \<and>
     map msg_content bs = [answer_to (sample_message ''!pi'') (js ''pong''), answer_to (sample_message ''!pi'') (js ''pong'')] \<and>
     heard c' = map MessageReceived bs @ [MessageReceived (sample_message ''!pi'')] \<and>
     queue (event_q c') = map MessageReceived bs @ [MessageReceived (sample_message ''!pi'')]"
  using answer_overtakes_command [of id sample_bot "sample_message ''!pi''" "js ''pi''" "[]" "sample_command ''pi''"
      "\<lambda>_. []" "\<lambda>_ _. [js ''pong'', js ''pong'']" "[js ''pong'', js ''pong'']" "\<lambda>_. replicate 8 0" "\<lambda>_. 0" 0]
    sample_parses(2) sample_lookup(2) sample_admitted sample_address
  unfolding numeral_2_eq_2
  by (fastforce simp: sample_bot_fields sample_fields no_prefix_no_command [OF pong_no_prefix])

lemma same_commands_trans: "same_commands r r' \<Longrightarrow> same_commands r' r'' \<Longrightarrow> same_commands r r''"
  by (simp add: same_commands_def)

lemma send_answers_same:
  assumes "\<And>t c d. sends t c = Some d \<Longrightarrow> same_commands (plugin_state c) (plugin_state d)"
  shows "send_answers sends ts c = Some d \<Longrightarrow> same_commands (plugin_state c) (plugin_state d)"
  by (induction ts arbitrary: c) (auto dest: assms intro: same_commands_trans split: option.splits)

lemma send_via_same:
  assumes "\<And>m c d. emits m c = Some d \<Longrightarrow> same_commands (plugin_state c) (plugin_state d)"
    and "send_via emits rnd8 now dest body c = Some d"
  shows "same_commands (plugin_state c) (plugin_state d)"
  using assms(2) by (auto simp: send_via_def Let_def dest: assms(1) split: sum.splits)

lemma emit_message_same:
  "emit_message lower fixed1 answers rnd8 now s m c = Some d \<Longrightarrow> same_commands (plugin_state c) (plugin_state d)"
proof (induction s arbitrary: m c d)
  case (Suc s)
  let ?sends = "\<lambda>t. send_via (emit_message lower fixed1 answers rnd8 now s) rnd8 now (Inl (chat (source m))) (answer_to m t)"
  obtain r' where r: "same_commands (plugin_state c) r'"
    "handle_then_reply (emit_message lower fixed1 answers rnd8 now s) lower fixed1 answers rnd8 now m (begin_emit (MessageReceived m) c) =
      send_answers ?sends (due_answers lower fixed1 answers m (plugin_state c)) ((begin_emit (MessageReceived m) c)\<lparr>plugin_state := r'\<rparr>)"
    using handle_then_reply_due [of "begin_emit (MessageReceived m) c"] by fastforce
  have sends: "same_commands (plugin_state c) (plugin_state d)" if "?sends t c = Some d" for t c d
    using Suc.IH that by (rule send_via_same)
  have "same_commands (plugin_state c) (plugin_state d)" if "send_answers ?sends ts c = Some d" for ts c d
    using sends that by (rule send_answers_same)
  with Suc.prems r show ?case by (fastforce simp: emit_message.simps(2) intro: same_commands_trans)
qed simp

text \<open>Answers one of which cannot be sent.\<close>

lemma send_answers_stuck:
  assumes "t \<in> set ts" and "P c" and "\<And>c. P c \<Longrightarrow> sends t c = None"
    and "\<And>u c d. P c \<Longrightarrow> sends u c = Some d \<Longrightarrow> P d"
  shows "send_answers sends ts c = None"
  using assms(1,2)
proof (induction ts arbitrary: c)
  case (Cons u ts)
  then show ?case using assms(3,4) by (cases "u = t") (auto split: option.split)
qed simp

text \<open>
  C30. A command that answers with its own command line never comes to an end: each answer is
  emitted, handled and answered inside the emission before it, so a stack of any depth is
  exhausted.
\<close>

theorem self_answer_exhausts_stack:
  assumes "parse_command lower (cmd_prefix (plugin_state c)) (extract_message_text (msg_content m)) = Some (n, as)"
    and "parse_command lower (cmd_prefix (plugin_state c)) t = Some (n, as)"
    and "get_command lower n (plugin_state c) = Some cmd"
    and "cooldown_seconds cmd = None" and "\<not> truthy (admin_only cmd)" and "\<not> truthy (owner_only cmd)"
    and "\<And>ctx. t \<in> set (answers (cmd_execute cmd) ctx)"
    and "string_fits (jid_to_string (chat (source m)))" and "\<And>k. length (rnd8 k) = 8"
  shows "emit_message lower fixed1 answers rnd8 now s m c = None"
  using assms(1-3,8)
proof (induction s arbitrary: m c)
  case (Suc s)
  let ?c = "begin_emit (MessageReceived m) c"
  let ?sends = "\<lambda>t. send_via (emit_message lower fixed1 answers rnd8 now s) rnd8 now (Inl (chat (source m))) (answer_to m t)"
  define P where "P d = same_commands (plugin_state c) (plugin_state d)" for d :: "'a bot"
  obtain r' where r: "same_commands (plugin_state c) r'"
    "handle_then_reply (emit_message lower fixed1 answers rnd8 now s) lower fixed1 answers rnd8 now m ?c =
      send_answers ?sends (due_answers lower fixed1 answers m (plugin_state c)) (?c\<lparr>plugin_state := r'\<rparr>)"
    using handle_then_reply_due [of ?c] by fastforce
  have "refusal fixed1 (make_context (plugin_state c) m cmd n as) (plugin_state c) = None"
    using assms(4-6) by (simp add: refusal_def make_context_def cooldown_of_def)
  then have due: "t \<in> set (due_answers lower fixed1 answers m (plugin_state c))"
    using Suc.prems assms(7) by (simp add: due_answers_def)
  have nested: "?sends t d = None" if "P d" for d
  proof -
    have d: "same_commands (plugin_state c) (plugin_state (log_node bs d))" for bs using that by (simp add: P_def)
    have "emit_message lower fixed1 answers rnd8 now s (new_message (rnd8 k) now' (chat (source m)) i (answer_to m t)) (log_node bs d) = None"
      for k now' i bs
      using Suc.prems get_command_same [OF d] d by (intro Suc.IH) (simp_all add: new_message_def same_commands_def)
    then show ?thesis
      using send_via_fits [of rnd8 "chat (source m)" "emit_message lower fixed1 answers rnd8 now s" now "answer_to m t" d,
          OF assms(9)] Suc.prems(4) by auto
  qed
  have "P e" if "P d" "?sends u d = Some e" for u d e
  proof -
    have "same_commands (plugin_state d) (plugin_state e)" using emit_message_same that(2) by (rule send_via_same)
    with that(1) show ?thesis unfolding P_def by (rule same_commands_trans)
  qed
  with due nested have "send_answers ?sends (due_answers lower fixed1 answers m (plugin_state c)) (?c\<lparr>plugin_state := r'\<rparr>) = None"
    by (intro send_answers_stuck [where P = P and t = t]) (simp_all add: P_def r(1))
  then show ?case by (simp add: emit_message.simps(2) r(2))
qed simp

definition loop_bot :: "nat bot" where
  "loop_bot = new_client (default_client_config 0) [] 0
     (register id id ((sample_command ''pi'')\<lparr>cooldown_seconds := None\<rparr>) (new_command_registry None None None int))"

theorem self_answer_exhausts_stack_witness:
  "emit_message id (\<lambda>_. []) (\<lambda>_ _. [js ''!pi'']) (\<lambda>_. replicate 8 0) (\<lambda>_. 0) 1000 (sample_message ''!pi'') loop_bot = None"
proof -
  let ?cmd = "(sample_command ''pi'')\<lparr>cooldown_seconds := None\<rparr>"
  have r: "cmd_prefix (plugin_state loop_bot) = PrefixText (js ''!'')" "get_command id (js ''pi'') (plugin_state loop_bot) = Some ?cmd"
    by (simp_all add: loop_bot_def new_client_def register_def new_command_registry_def emit_def get_command_def
        sample_command_def Let_def)
  have "parse_command id (cmd_prefix (plugin_state loop_bot)) (js ''!pi'') = Some (js ''pi'', [])"
    using sample_parses(2) by (simp add: r sample_fields sample_message_def)
  then show ?thesis
    using r(2) sample_address
    by (intro self_answer_exhausts_stack [where n = "js ''pi''" and as = "[]" and t = "js ''!pi''" and cmd = ?cmd])
      (simp_all add: sample_message_def sample_command_def truthy_def)
qed

text \<open>Commands none of whose answers starts with the default prefix.\<close>

definition modest :: "'x answering \<Rightarrow> bool" where
  "modest answers = (\<forall>x ctx. \<forall>t \<in> set (answers x ctx). \<not> starts_with (js ''!'') t)"

lemma modest_due:
  assumes "cmd_prefix r = PrefixText (js ''!'')" and "modest answers" and "t \<in> set (due_answers lower fixed1 answers m r)"
  shows "parse_command lower (cmd_prefix r) t = None"
proof -
  have "\<not> starts_with (js ''!'') t"
    using due_texts [OF assms(3)] assms(2)
    by (auto simp: modest_def guard_texts_def admin_text_def owner_text_def cooldown_text_def starts_with_def js_def cu_def)
  then show ?thesis by (simp add: assms(1) no_prefix_no_command)
qed

text \<open>
  C27. Otherwise two nested emissions are enough: with the default prefix and commands none of whose
  answers starts with it, every message is announced, and right after it exactly the answers
  that are due, each as a reply to it in its chat: none to a message that is no command, the
  refusal of the first guard that refuses, else all the texts that the command replies with before
  it suspends, in their order. (None of them is sent when the address of the chat does not fit
  the format.)
\<close>

theorem answers_end:
  assumes "cmd_prefix (plugin_state c) = PrefixText (js ''!'')"
    and "\<And>x ctx t. t \<in> set (answers x ctx) \<Longrightarrow> \<not> starts_with (js ''!'') t" and "\<And>k. length (rnd8 k) = 8"
  shows "\<exists>c' bs. emit_message lower fixed1 answers rnd8 now (Suc (Suc s)) m c = Some c' \<and>
     emissions c' = emissions c @ MessageReceived m # map MessageReceived bs \<and>
     map msg_content bs = (if string_fits (jid_to_string (chat (source m)))
       then map (answer_to m)
         (case parse_command lower (PrefixText (js ''!'')) (extract_message_text (msg_content m)) of
            None \<Rightarrow> []
          | Some (n, as) \<Rightarrow>
              (case get_command lower n (plugin_state c) of
                 None \<Rightarrow> []
               | Some cmd \<Rightarrow>
                   (case refusal fixed1 (make_context (plugin_state c) m cmd n as) (plugin_state c) of
                      Some t \<Rightarrow> [t]
                    | None \<Rightarrow> answers (cmd_execute cmd) (make_context (plugin_state c) m cmd n as))))
       else []) \<and>
     (\<forall>a \<in> set bs. chat (source a) = chat (source m) \<and> is_from_me (source a))"
proof -
  have "modest answers" using assms(2) by (auto simp: modest_def)
  then have "\<forall>t \<in> set (due_answers lower fixed1 answers m (plugin_state c)). parse_command lower (cmd_prefix (plugin_state c)) t = None"
    using modest_due [OF assms(1)] by blast
  from emit_announces [of rnd8, OF assms(3) this, of now s] show ?thesis
    unfolding due_answers_def assms(1) by blast
qed

theorem answers_end_witness:
  "\<exists>c' bs. emit_message id (\<lambda>_. []) (\<lambda>_ _. [js ''pong'', js ''pong'']) (\<lambda>_. replicate 8 0) (\<lambda>_. 0) 2 (sample_message ''!pi'') sample_bot =
     Some c' \<and> emissions c' = MessageReceived (sample_message ''!pi'') # map MessageReceived bs \<and>
     map msg_content bs = [answer_to (sample_message ''!pi'') (js ''pong''), answer_to (sample_message ''!pi'') (js ''pong'')]"
proof -
  have "parse_command id (PrefixText (js ''!'')) (extract_message_text (msg_content (sample_message ''!pi''))) = Some (js ''pi'', [])"
    using sample_parses(2) by (simp add: sample_fields)
  then show ?thesis
    unfolding numeral_2_eq_2
    using answers_end [of sample_bot "\<lambda>_ _. [js ''pong'', js ''pong'']" "\<lambda>_. replicate 8 0" id "\<lambda>_. []" "\<lambda>_. 0" 0 "sample_message ''!pi''"]
      sample_lookup(2) sample_admitted sample_address
    by (fastforce simp: sample_bot_fields sample_fields pong_no_prefix)
qed

end
