(* ===== verification/Client_Events.thy ===== *)
theory Client_Events
  imports Wazeko_Properties Replies
begin

text \<open>
  The stream of \<^verbatim>\<open>client.events()\<close> (\<^verbatim>\<open>emitEvent\<close> and \<^verbatim>\<open>disconnect\<close> of
  \<^verbatim>\<open>packages/wazeko/src/client.ts\<close> with the queue of \<^verbatim>\<open>packages/wazeko/src/events.ts\<close>), with readers that
  call \<^verbatim>\<open>next\<close> in between and listeners that call the client back. What the client does to its queue
  is a sequence of calls of \<open>Event_Queue\<close>, a \<^verbatim>\<open>push\<close> at the end of each emission and a \<^verbatim>\<open>close\<close> after
  that of each disconnect event, so what was shown of the queue alone tells what the readers get.
\<close>

text \<open>The events up to the first disconnect event, this one included.\<close>

fun until_disconnect :: "event list \<Rightarrow> event list" where
  "until_disconnect [] = []"
| "until_disconnect (ev # evs) = ev # (case ev of DisconnectEvent r \<Rightarrow> [] | _ \<Rightarrow> until_disconnect evs)"

section \<open>The client as a caller of its queue\<close>

definition calls_of :: "event \<Rightarrow> eq_call list" where
  "calls_of ev = Push ev # (case ev of DisconnectEvent r \<Rightarrow> [Close] | _ \<Rightarrow> [])"

text \<open>Some sequence of calls on a queue explains what is seen: the client's own calls, and those of the readers.\<close>

definition explained :: "'p client \<Rightarrow> bool" where
  "explained c =
     (\<exists>cs. eq_run cs = (next_answers c, event_q c) \<and> callers cs = next_calls c \<and>
        filter (\<lambda>c. called_by c = []) cs = concat (map calls_of (heard c)))"

lemma explained_by:
  assumes "explained c" and "fold eq_step ds (next_answers c, event_q c) = (next_answers d, event_q d)"
    and "next_calls d = next_calls c @ callers ds" and "heard d = heard c @ evs"
    and "filter (\<lambda>c. called_by c = []) ds = concat (map calls_of evs)"
  shows "explained d"
proof -
  obtain cs where "eq_run cs = (next_answers c, event_q c)" "callers cs = next_calls c"
    "filter (\<lambda>c. called_by c = []) cs = concat (map calls_of (heard c))"
    using assms(1) by (auto simp: explained_def)
  with assms(2-5) show ?thesis
    unfolding explained_def by (intro exI [of _ "cs @ ds"]) (simp add: eq_run_def callers_def)
qed

lemma activity_explained: "activity given c ts d \<Longrightarrow> explained c \<Longrightarrow> explained d"
proof (induction rule: activity.induct)
  case (silent c d)
  then show ?case by (simp add: explained_def same_events_def)
next
  case (emits ev c ts d)
  then have d: "explained d" by (simp add: explained_def)
  have ev: "\<And>r. ev \<noteq> DisconnectEvent r" using emits(1) by (auto simp: raised_def)
  from d show ?case
    by (rule explained_by [of d "[Push ev]" _ "[ev]"])
      (use ev in \<open>auto simp: calls_of_def callers_def split_beta split: event.split\<close>)
next
  case (disconnects r c ts d)
  then have "explained d" by (simp add: explained_def)
  then show ?case
    by (rule explained_by [of d "[Push (DisconnectEvent r), Close]" _ "[DisconnectEvent r]"])
      (simp_all add: calls_of_def callers_def split_beta)
next
  case (reads c who)
  then show ?case
    by (rule explained_by [of c "[Next who]" _ "[]"])
      (auto simp: client_next_def callers_def split_beta split: next_result.split prod.split)
qed simp

text \<open>The events that reach the queue, and when it is closed, can be read off the client's own calls.\<close>

lemma pushed_filter: "pushed (filter (\<lambda>c. called_by c = []) cs) = pushed cs"
proof (induction cs)
  case (Cons c cs)
  then show ?case by (cases c) (simp_all add: pushed_def)
qed simp

lemma pushed_calls: "pushed (concat (map calls_of evs)) = until_disconnect evs"
proof (induction evs)
  case (Cons ev evs)
  then show ?case by (cases ev) (simp_all add: pushed_def calls_of_def)
qed (simp add: pushed_def)

lemma Close_calls: "Close \<in> set (concat (map calls_of evs)) \<longleftrightarrow> (\<exists>r. DisconnectEvent r \<in> set evs)"
  by (auto simp: calls_of_def split: event.splits)

text \<open>The log of a queue, by what was pushed to it before it was closed.\<close>

lemma expected_log_split:
  fixes cs :: "eq_call list"
  defines "evs \<equiv> pushed cs"
  shows "take (length evs) (expected_log cs) = zip (callers cs) (map Some evs)"
    and "Close \<in> set cs \<Longrightarrow> length (expected_log cs) = length (callers cs)"
    and "set (drop (length evs) (map snd (expected_log cs))) \<subseteq> {None, Some (DisconnectEvent (js ''queue closed''))}"
proof -
  show "take (length evs) (expected_log cs) = zip (callers cs) (map Some evs)"
    by (rule nth_equalityI) (auto simp: expected_log_def answer_def evs_def min_def split: if_splits)
  show "Close \<in> set cs \<Longrightarrow> length (expected_log cs) = length (callers cs)" by (simp add: expected_log_def)
  show "set (drop (length evs) (map snd (expected_log cs))) \<subseteq> {None, Some (DisconnectEvent (js ''queue closed''))}"
    by (auto simp: expected_log_def answer_def evs_def in_set_conv_nth split: if_splits)
qed

lemma wz_reach_explained:
  assumes "lawful given om" and "wz_reach om ok given cfg rnd16 rnd now p w"
  shows "explained (wz_client w) \<and> (\<exists>ts. emissions (wz_client w) = begun ts \<and> heard (wz_client w) = ended ts)"
proof -
  obtain ts where ts: "activity given (new_client cfg rnd16 rnd p) ts (wz_client w)"
    using wz_reach_parts [OF assms] by (auto simp: does_def)
  have "explained (new_client cfg rnd16 rnd p)"
    unfolding explained_def by (rule exI [of _ "[]"]) (simp add: eq_run_def callers_def new_client_def)
  with activity_explained [OF ts] activity_logs [OF ts] show ?thesis by (auto simp: new_client_def)
qed

section \<open>A run\<close>

text \<open>
  A client whose registry answers \<open>!pi\<close>: two readers wait, a command is dispatched, the client is disconnected, and a
  third reader asks.
\<close>

definition pong_listener :: "nat command_registry listeners" where
  "pong_listener = registry_listener id (\<lambda>_. []) (\<lambda>_ _. [js ''pong'']) (\<lambda>_. replicate 8 0) (\<lambda>_. 0) 1"

definition watched_node :: node where
  "watched_node = message_node [] (jid_user (js ''1''))"

definition demo_watched :: "nat \<Rightarrow> nat command_registry wazeko" where
  "demo_watched k =
     (let w0 = new_wazeko (default_client_config 0) [] 0 0 sample_registry;
          w1 = snd (wazeko_next 7 w0);
          w2 = snd (wazeko_next 8 w1);
          w3 = snd (wazeko_dispatch pong_listener watched_node (Some (sample_message ''!pi'')) w2);
          w4 = snd (wazeko_disconnect pong_listener (js ''bye'') w3);
          w5 = snd (wazeko_next 9 w4)
      in [w0, w1, w2, w3, w4, w5] ! k)"

lemma demo_watched_reach: "wz_reach pong_listener ok (\<lambda>_. True) (default_client_config 0) [] 0 0 sample_registry (demo_watched 5)"
proof -
  let ?R = "wz_reach pong_listener ok (\<lambda>_. True) (default_client_config 0) [] 0 0 sample_registry"
  have "?R (demo_watched 2)"
    unfolding demo_watched_def Let_def by (simp add: wz_reach.step [OF wz_reach.step [OF wz_reach.new wz_step.read] wz_step.read])
  then have "?R (snd (wazeko_dispatch pong_listener watched_node (Some (sample_message ''!pi'')) (demo_watched 2)))"
    by (rule wz_reach.step) (rule wz_step.dispatch, simp)
  then have "?R (demo_watched 3)" by (simp add: demo_watched_def Let_def numeral_eq_Suc)
  from wz_reach.step [OF wz_reach.step [OF this wz_step.disconnect] wz_step.read] show ?thesis
    by (simp add: demo_watched_def Let_def numeral_eq_Suc)
qed

text \<open>The emission of the command, with its answer nested in it.\<close>

lemma demo_watched_heard:
  "\<exists>a. msg_content a = answer_to (sample_message ''!pi'') (js ''pong'') \<and>
     emissions (wz_client (demo_watched 3)) = [MessageReceived (sample_message ''!pi''), MessageReceived a] \<and>
     heard (wz_client (demo_watched 3)) = [MessageReceived a, MessageReceived (sample_message ''!pi'')] \<and>
     next_calls (wz_client (demo_watched 3)) = [7, 8]"
proof -
  let ?c = "wz_client (demo_watched 2)" and ?m = "sample_message ''!pi''"
  have c: "plugin_state ?c = sample_registry" "emissions ?c = []" "heard ?c = []" "next_calls ?c = [7, 8]"
    by (simp_all add: demo_watched_def Let_def numeral_eq_Suc wazeko_next_def client_next_def split_beta new_wazeko_def new_client_def)
  have "string_fits (jid_to_string (jid_user (js ''1'')))"
    using demo_fits by (simp add: destination_fits_def resolve_recipient_def)
  then obtain bs where "encode watched_node = Inr bs"
    using encode_message_node [of "[]" "jid_user (js ''1'')"] string_fits_short
    by (fastforce simp: watched_node_def js_def)
  then have w: "wz_client (demo_watched 3) = emit_event pong_listener (MessageReceived ?m) (log_node bs ?c)"
    by (simp add: demo_watched_def Let_def numeral_eq_Suc wazeko_dispatch_def dispatch_node_def)
  have due: "due_answers id (\<lambda>_. []) (\<lambda>_ _. [js ''pong'']) ?m (plugin_state (log_node bs ?c)) = [js ''pong'']"
    using sample_parses(2) sample_lookup(2) sample_admitted by (simp add: due_answers_def c sample_fields sample_bot_fields)
  have "\<forall>t \<in> set [js ''pong'']. parse_command id (cmd_prefix (plugin_state (log_node bs ?c))) t = None"
    by (simp add: c sample_fields no_prefix_no_command [OF pong_no_prefix])
  with emit_announces [of "\<lambda>_. replicate 8 0" id "\<lambda>_. []" "\<lambda>_ _. [js ''pong'']" ?m "log_node bs ?c" "\<lambda>_. 0" 0]
  obtain d as where d: "emit_message id (\<lambda>_. []) (\<lambda>_ _. [js ''pong'']) (\<lambda>_. replicate 8 0) (\<lambda>_. 0) (Suc (Suc 0)) ?m (log_node bs ?c) = Some d"
    "emissions d = emissions (log_node bs ?c) @ MessageReceived ?m # map MessageReceived as"
    "heard d = heard (log_node bs ?c) @ map MessageReceived as @ [MessageReceived ?m]"
    "map msg_content as = (if string_fits (jid_to_string (chat (source ?m))) then map (answer_to ?m) [js ''pong''] else [])"
    "next_calls d = next_calls (log_node bs ?c)"
    unfolding due by force
  have "wz_client (demo_watched 3) = d"
    unfolding w pong_listener_def using emit_message_listener [OF d(1)] by simp
  with d(2-5) sample_address [of "''!pi''"] show ?thesis by (auto simp: c)
qed

section \<open>Properties\<close>

text \<open>
  C11. Readers of \<^verbatim>\<open>client.events()\<close> see what the client emits, each event when its emission is over: whatever is
  called, whatever the listeners do with the client inside an emission, and however reads and the
  workers of the queue interleave, the emissions form a forest \<open>ts\<close>; the calls of \<^verbatim>\<open>emit\<close> begin in its
  preorder, the last listener hears the events in its postorder, and so do the readers: the one
  that called \<^verbatim>\<open>next\<close> as the \<open>i\<close>-th gets the \<open>i\<close>-th event of that order, up to the first disconnect event and with
  this one; and once a disconnect event is over every reader has been answered, the remaining
  ones with nothing or with the disconnect event of the closed queue. (Nobody but the client pushes to its
  queue or closes it.)
\<close>

theorem readers_get_emissions:
  assumes "wz_reach om ok given cfg rnd16 rnd now p w" and "lawful given om"
  shows "(\<exists>ts. emissions (wz_client w) = begun ts \<and> heard (wz_client w) = ended ts) \<and>
     take (length (until_disconnect (heard (wz_client w)))) (next_answers (wz_client w)) =
       zip (next_calls (wz_client w)) (map Some (until_disconnect (heard (wz_client w)))) \<and>
     ((\<exists>r. DisconnectEvent r \<in> set (heard (wz_client w))) \<longrightarrow>
        length (next_answers (wz_client w)) = length (next_calls (wz_client w))) \<and>
     set (drop (length (until_disconnect (heard (wz_client w)))) (map snd (next_answers (wz_client w)))) \<subseteq>
       {None, Some (DisconnectEvent (js ''queue closed''))}"
proof -
  let ?c = "wz_client w"
  obtain cs where cs: "eq_run cs = (next_answers ?c, event_q ?c)" "callers cs = next_calls ?c"
    "filter (\<lambda>c. called_by c = []) cs = concat (map calls_of (heard ?c))"
    using wz_reach_explained [OF assms(2,1)] by (auto simp: explained_def)
  have "next_answers ?c = expected_log cs" using eq_inv_run [of cs] cs(1) by (simp add: eq_inv_def)
  moreover have "pushed cs = until_disconnect (heard ?c)"
    using pushed_filter [of cs] by (simp add: cs(3) pushed_calls)
  moreover have "Close \<in> set cs \<longleftrightarrow> Close \<in> set (filter (\<lambda>c. called_by c = []) cs)" by simp
  ultimately show ?thesis
    using wz_reach_explained [OF assms(2,1)] expected_log_split [of cs] cs(2) unfolding cs(3) Close_calls by simp
qed

text \<open>The first reader gets the answer, the second the command it answers.\<close>

theorem readers_get_emissions_witness:
  "\<exists>a. msg_content a = answer_to (sample_message ''!pi'') (js ''pong'') \<and>
     take 4 (next_answers (wz_client (demo_watched 5))) = zip [7, 8, 9] (map Some [MessageReceived a,
       MessageReceived (sample_message ''!pi''), ConnectionUpdate Disconnected, DisconnectEvent (js ''bye'')])"
proof -
  obtain a where a: "msg_content a = answer_to (sample_message ''!pi'') (js ''pong'')"
    "heard (wz_client (demo_watched 3)) = [MessageReceived a, MessageReceived (sample_message ''!pi'')]"
    "next_calls (wz_client (demo_watched 3)) = [7, 8]"
    using demo_watched_heard by blast
  have quiet: "pong_listener (ConnectionUpdate st) c = c" "pong_listener (DisconnectEvent r) c = c" for st r c
    by (simp_all add: pong_listener_def registry_listener_def)
  have w: "wz_client (demo_watched 5) = snd (client_next 9 (disconnect pong_listener (js ''bye'') (wz_client (demo_watched 3))))"
    by (simp add: demo_watched_def Let_def numeral_eq_Suc wazeko_next_def wazeko_disconnect_def client_disconnect_client split_beta)
  have h: "heard (wz_client (demo_watched 5)) = [MessageReceived a, MessageReceived (sample_message ''!pi''),
      ConnectionUpdate Disconnected, DisconnectEvent (js ''bye'')]" "next_calls (wz_client (demo_watched 5)) = [7, 8, 9]"
    unfolding w by (simp_all add: client_next_def disconnect_def set_state_def emit_event_def quiet a split_beta Let_def)
  have "lawful (\<lambda>_. True) pong_listener" unfolding pong_listener_def by (rule lawful_registry)
  from readers_get_emissions [OF demo_watched_reach this] have
    "take (length (until_disconnect (heard (wz_client (demo_watched 5))))) (next_answers (wz_client (demo_watched 5))) =
       zip (next_calls (wz_client (demo_watched 5))) (map Some (until_disconnect (heard (wz_client (demo_watched 5)))))" by blast
  moreover have "until_disconnect (heard (wz_client (demo_watched 5))) = heard (wz_client (demo_watched 5))"
    "length (heard (wz_client (demo_watched 5))) = 4"
    unfolding h(1) by simp_all
  ultimately show ?thesis using a(1) by (intro exI [of _ a]) (simp only: h simp_thms)
qed

end
