(* ===== verification/Bot_Queue.thy ===== *)
theory Bot_Queue
  imports Wazeko_Properties Replies
begin

text \<open>
  A client whose commands answer, together with its queue (\<^verbatim>\<open>packages/wazeko/src/client.ts\<close>). A worker's
  \<^verbatim>\<open>sendMessage\<close> emits the message, the registry handles it, and the answer of its command is
  sent inside that call, by the same client: this is the sender of \<open>Queue_Sender\<close> built
  from the emission of \<open>Replies\<close>. Between the moves of the workers a user enqueues, sends, dispatches
  nodes, connects, disconnects, registers commands and reads the events. What the queue promises holds nevertheless.
\<close>

section \<open>The client as a sender\<close>

text \<open>
  \<^verbatim>\<open>sendMessage\<close> on a stack with room for \<open>s\<close> nested emissions; random bytes and clock of answers by the
  number of emissions.
\<close>

definition bot_send ::
    "(jstr \<Rightarrow> jstr) \<Rightarrow> (rat \<Rightarrow> jstr) \<Rightarrow> 'x answering \<Rightarrow> (nat \<Rightarrow> bytes) \<Rightarrow> (nat \<Rightarrow> int) \<Rightarrow> nat \<Rightarrow> 'x bot sender" where
  "bot_send lower fixed1 answers rnds nows s rnd8 now dest body c =
     (let toJid = resolve_recipient dest;
          meJid = (case get_me c of None \<Rightarrow> jid_user (js ''0'') | Some j \<Rightarrow> j);
          m = new_message rnd8 now toJid meJid body
      in case encode (message_node (msg_id m) toJid) of
           Inl e \<Rightarrow> Some (Inl e, c)
         | Inr encoded \<Rightarrow> map_option (Pair (Inr m)) (emit_message lower fixed1 answers rnds nows s m (log_node encoded c)))"

text \<open>\<^verbatim>\<open>dispatchNode\<close>, with or without a message.\<close>

definition bot_dispatch ::
    "(jstr \<Rightarrow> jstr) \<Rightarrow> (rat \<Rightarrow> jstr) \<Rightarrow> 'x answering \<Rightarrow> (nat \<Rightarrow> bytes) \<Rightarrow> (nat \<Rightarrow> int) \<Rightarrow> nat \<Rightarrow> node \<Rightarrow>
     message option \<Rightarrow> 'x bot \<Rightarrow> ((enc_error + unit) \<times> 'x bot) option" where
  "bot_dispatch lower fixed1 answers rnds nows s n m c =
     (case encode n of
        Inl e \<Rightarrow> Some (Inl e, c)
      | Inr encoded \<Rightarrow>
          (case m of
             None \<Rightarrow> Some (Inr (), log_node encoded c)
           | Some msg \<Rightarrow> map_option (Pair (Inr ())) (emit_message lower fixed1 answers rnds nows s msg (log_node encoded c))))"

text \<open>What the sending relies on: the default prefix, answers that are no commands, and room on the stack.\<close>

definition bot_ok :: "'x answering \<Rightarrow> (nat \<Rightarrow> bytes) \<Rightarrow> nat \<Rightarrow> 'x bot \<Rightarrow> bool" where
  "bot_ok answers rnds s c =
     (cmd_prefix (plugin_state c) = PrefixText (js ''!'') \<and> modest answers \<and> (\<forall>k. length (rnds k) = 8) \<and> 2 \<le> s)"

lemma bot_ok_same: "bot_ok answers rnds s c \<Longrightarrow> same_commands (plugin_state c) (plugin_state d) \<Longrightarrow> bot_ok answers rnds s d"
  by (simp add: bot_ok_def same_commands_def)

lemma bot_emits:
  assumes "bot_ok answers rnds s c"
  shows "\<exists>c' as. emit_message lower fixed1 answers rnds nows s m c = Some c' \<and>
     received c' = received c @ m # as \<and> bot_ok answers rnds s c'"
proof -
  obtain k where s: "s = Suc (Suc k)" using assms by (metis Suc_le_D add_2_eq_Suc bot_ok_def le_add_diff_inverse)
  have "modest answers" "\<And>k. length (rnds k) = 8" "cmd_prefix (plugin_state c) = PrefixText (js ''!'')"
    using assms by (simp_all add: bot_ok_def)
  then have "\<forall>t \<in> set (due_answers lower fixed1 answers m (plugin_state c)). parse_command lower (cmd_prefix (plugin_state c)) t = None"
    using modest_due by blast
  from emit_announces [of rnds, OF \<open>\<And>k. length (rnds k) = 8\<close> this, of nows k] obtain c' as where
    c': "emit_message lower fixed1 answers rnds nows s m c = Some c'"
    "emissions c' = emissions c @ MessageReceived m # map MessageReceived as" "same_commands (plugin_state c) (plugin_state c')"
    unfolding s by blast
  have "received c' = received c @ m # as"
    using c'(2) by (simp add: received_def) (simp add: comp_def concat_map_singleton)
  with c'(1,3) assms bot_ok_same show ?thesis by blast
qed

lemma received_log_node [simp]: "received (log_node bs c) = received c"
  by (simp add: received_def)

lemma bot_ok_log_node [simp]: "bot_ok answers rnds s (log_node bs c) = bot_ok answers rnds s c"
  by (simp add: bot_ok_def)

lemma bot_send_cases:
  assumes "bot_ok answers rnds s c"
  obtains (refused) e where "bot_send lower fixed1 answers rnds nows s rnd8 now dest body c = Some (Inl e, c)"
      and "length rnd8 = 8 \<Longrightarrow> \<not> destination_fits dest"
  | (sent) m c' others where "bot_send lower fixed1 answers rnds nows s rnd8 now dest body c = Some (Inr m, c')"
      and "received c' = received c @ m # others" and "bot_ok answers rnds s c'" and "carries m dest body"
proof -
  let ?m = "new_message rnd8 now (resolve_recipient dest) (case get_me c of None \<Rightarrow> jid_user (js ''0'') | Some j \<Rightarrow> j) body"
  show thesis
  proof (cases "encode (message_node (msg_id ?m) (resolve_recipient dest))")
    case (Inl e)
    moreover have "length rnd8 = 8 \<Longrightarrow> \<not> destination_fits dest"
      using Inl encode_new_message_node [of rnd8 now "resolve_recipient dest"
          "case get_me c of None \<Rightarrow> jid_user (js ''0'') | Some j \<Rightarrow> j" body "resolve_recipient dest"]
      by (simp add: destination_fits_def)
    ultimately show thesis using refused by (simp add: bot_send_def Let_def)
  next
    case (Inr encoded)
    obtain c' others where "emit_message lower fixed1 answers rnds nows s ?m (log_node encoded c) = Some c'"
      "received c' = received c @ ?m # others" "bot_ok answers rnds s c'"
      using bot_emits [of answers rnds s "log_node encoded c" lower fixed1 nows ?m] assms by auto
    then show thesis
      using Inr by (intro sent [of ?m c' others]) (simp_all add: bot_send_def Let_def carries_def new_message_def)
  qed
qed

interpretation bots: job_sender "bot_send lower fixed1 answers rnds nows s" received destination_fits "bot_ok answers rnds s"
  for lower fixed1 answers rnds nows s
proof unfold_locales
  fix rnd8 :: bytes and now dest body c c' r and m :: message and e :: enc_error
  assume c: "bot_ok answers rnds s c" "length rnd8 = 8"
  note cases = bot_send_cases [of answers rnds s c lower fixed1 nows rnd8 now dest body, OF c(1)]
  show "bot_send lower fixed1 answers rnds nows s rnd8 now dest body c \<noteq> None" by (rule cases) simp_all
  show "bot_send lower fixed1 answers rnds nows s rnd8 now dest body c = Some (r, c') \<Longrightarrow> bot_ok answers rnds s c'"
    by (rule cases) (use c in auto)
  show "bot_send lower fixed1 answers rnds nows s rnd8 now dest body c = Some (Inr m, c') \<Longrightarrow>
      (\<exists>others. received c' = received c @ m # others) \<and> carries m dest body"
    by (rule cases) auto
  show "bot_send lower fixed1 answers rnds nows s rnd8 now dest body c = Some (Inl e, c') \<Longrightarrow> c' = c" by (rule cases) auto
  show "destination_fits dest \<Longrightarrow> bot_send lower fixed1 answers rnds nows s rnd8 now dest body c \<noteq> Some (Inl e, c')"
    by (rule cases) (use c in auto)
qed

section \<open>Runs\<close>

text \<open>
  A step of the workers, of the queue's user and the clock, or of the client's user; images and replies
  are sends with a content of their own.
\<close>

inductive bot_step ::
    "(jstr \<Rightarrow> jstr) \<Rightarrow> (rat \<Rightarrow> jstr) \<Rightarrow> 'x answering \<Rightarrow> (nat \<Rightarrow> bytes) \<Rightarrow> (nat \<Rightarrow> int) \<Rightarrow> nat \<Rightarrow>
     message_queue \<times> 'x bot \<Rightarrow> message_queue \<times> 'x bot \<Rightarrow> bool" for lower fixed1 answers rnds nows s where
  worker: "sender_step (bot_send lower fixed1 answers rnds nows s) x x' \<Longrightarrow> bot_step lower fixed1 answers rnds nows s x x'"
| user: "user_step destination_fits q q' \<Longrightarrow> bot_step lower fixed1 answers rnds nows s (q, c) (q', c)"
| sends: "length rnd8 = 8 \<Longrightarrow> bot_send lower fixed1 answers rnds nows s rnd8 now dest body c = Some (r, c') \<Longrightarrow>
    bot_step lower fixed1 answers rnds nows s (q, c) (q, c')"
| dispatches: "bot_dispatch lower fixed1 answers rnds nows s n m c = Some (r, c') \<Longrightarrow>
    bot_step lower fixed1 answers rnds nows s (q, c) (q, c')"
| connects: "bot_step lower fixed1 answers rnds nows s (q, c)
    (q, connect_start (registry_listener lower fixed1 answers rnds nows s) c)"
| loads: "0 < loading c \<Longrightarrow> bot_step lower fixed1 answers rnds nows s (q, c)
    (q, snd (connect_loaded (registry_listener lower fixed1 answers rnds nows s) loaded rs draws c))"
| disconnects: "bot_step lower fixed1 answers rnds nows s (q, c)
    (q, disconnect (registry_listener lower fixed1 answers rnds nows s) reason c)"
| reads: "bot_step lower fixed1 answers rnds nows s (q, c) (q, snd (client_next who c))"
| registers: "bot_step lower fixed1 answers rnds nows s (q, c)
    (q, c\<lparr>plugin_state := register lower resolve cmd (plugin_state c)\<rparr>)"

inductive bot_reach ::
    "(jstr \<Rightarrow> jstr) \<Rightarrow> (rat \<Rightarrow> jstr) \<Rightarrow> 'x answering \<Rightarrow> (nat \<Rightarrow> bytes) \<Rightarrow> (nat \<Rightarrow> int) \<Rightarrow> nat \<Rightarrow>
     'x command_registry \<Rightarrow> message_queue \<times> 'x bot \<Rightarrow> bool" for lower fixed1 answers rnds nows s r where
  new: "bot_reach lower fixed1 answers rnds nows s r (new_message_queue now no_queue_options, new_client cfg rnd16 rnd r)"
| step: "bot_reach lower fixed1 answers rnds nows s r x \<Longrightarrow> bot_step lower fixed1 answers rnds nows s x x' \<Longrightarrow>
    bot_reach lower fixed1 answers rnds nows s r x'"

section \<open>What stays true\<close>

lemma registry_listener_plugins:
  "(\<And>m. ev \<noteq> MessageReceived m) \<Longrightarrow>
     plugin_state (emit_event (registry_listener lower fixed1 answers rnds nows s) ev c) = plugin_state c"
  by (auto simp: emit_event_def registry_listener_def split: event.split)

lemma quiet_plugins:
  fixes lower fixed1 answers rnds nows s
  defines "om \<equiv> registry_listener lower fixed1 answers rnds nows s"
  shows "plugin_state (connect_start om c) = plugin_state c"
    and "plugin_state (snd (connect_loaded om loaded rs draws c)) = plugin_state c"
    and "plugin_state (disconnect om reason c) = plugin_state c"
proof -
  have emit: "plugin_state (emit_event om ev c) = plugin_state c" if "\<And>m. ev \<noteq> MessageReceived m" for ev c
    unfolding om_def using that by (rule registry_listener_plugins)
  show "plugin_state (connect_start om c) = plugin_state c"
    by (simp add: connect_start_def set_state_def emit)
  show "plugin_state (snd (connect_loaded om loaded rs draws c)) = plugin_state c"
    by (simp add: connect_loaded_def run_connection_lifecycle_def set_state_def emit Let_def split_beta
        split: sum.split option.split auth_method.split)
  show "plugin_state (disconnect om reason c) = plugin_state c"
    by (simp add: disconnect_def set_state_def emit Let_def)
qed

lemma register_prefix: "cmd_prefix (register lower resolve cmd r) = cmd_prefix r"
  by (simp add: register_def emit_def Let_def fold_aliases split: option.split)

lemma sound_client:
  assumes "bots.sound answers rnds s (q, c)" and "bot_ok answers rnds s c'" and "received c' = received c @ ms"
  shows "bots.sound answers rnds s (q, c')"
  using assms in_step_more unfolding bots.sound_def by simp

lemma sound_does:
  assumes "bots.sound answers rnds s (q, c)" and "does given c c'" and "same_commands (plugin_state c) (plugin_state c')"
  shows "bots.sound answers rnds s (q, c')"
proof -
  obtain ms where "received c' = received c @ ms" using received_does [OF assms(2)] by blast
  moreover have "bot_ok answers rnds s c'" using assms(1,3) bot_ok_same unfolding bots.sound_def by auto
  ultimately show ?thesis using assms(1) sound_client by blast
qed

lemma bot_dispatch_does:
  assumes "bot_dispatch lower fixed1 answers rnds nows s n m c = Some (r, c')"
  shows "does (\<lambda>_. True) c c' \<and> same_commands (plugin_state c) (plugin_state c')"
proof -
  have "does (\<lambda>_. True) c c' \<and> same_commands (plugin_state c) (plugin_state c')"
    if "emit_message lower fixed1 answers rnds nows s msg (log_node bs c) = Some c'" for msg bs
    using emit_message_does [where given = "\<lambda>_. True", OF _ that] emit_message_same [OF that]
      does_trans [OF does_silent [OF same_events_log_node]] by (simp add: raised_def)
  then show ?thesis
    using assms by (auto simp: bot_dispatch_def does_refl does_silent same_events_log_node split: sum.splits option.splits)
qed

lemma bot_step_sound:
  assumes "bot_step lower fixed1 answers rnds nows s x x'" and "bots.sound answers rnds s x"
  shows "bots.sound answers rnds s x'"
  using assms
proof (induction rule: bot_step.induct)
  case (worker x x')
  from bots.sound_quiet [OF sender_quiet.worker [OF this(1)] this(2)] show ?case .
next
  case (user q q' c)
  then show ?case
    using clean_user reachable.step user_queue_step in_step_settled [OF user_settled]
    unfolding bots.sound_def fst_conv snd_conv by blast
next
  case (sends rnd8 now dest body c r c' q)
  have "bot_ok answers rnds s c" using sends(3) unfolding bots.sound_def by simp
  then show ?case
    by (rule bot_send_cases [of answers rnds s c lower fixed1 nows rnd8 now dest body])
      (use sends sound_client in auto)
next
  case (dispatches n m c r c' q)
  then show ?case using bot_dispatch_does sound_does by metis
next
  case (connects q c)
  then show ?case
    by (rule sound_does [OF _ does_connect_start [OF lawful_registry [of "\<lambda>_. True"]]]) (simp add: quiet_plugins)
next
  case (loads c q loaded rs draws)
  from loads(2) show ?case
    by (rule sound_does [OF _ does_connect_loaded [OF lawful_registry [of "\<lambda>_. True"]]]) (simp add: quiet_plugins)
next
  case (disconnects q c reason)
  then show ?case
    by (rule sound_does [OF _ does_disconnect [OF lawful_registry [of "\<lambda>_. True"]]]) (simp add: quiet_plugins)
next
  case (reads q c who)
  then show ?case
    by (rule sound_does [OF _ does_next]) (simp add: client_next_def split_beta)
next
  case (registers q c resolve cmd)
  let ?c = "c\<lparr>plugin_state := register lower resolve cmd (plugin_state c)\<rparr>"
  have "bot_ok answers rnds s ?c" using registers unfolding bots.sound_def by (simp add: bot_ok_def register_prefix)
  moreover have "received ?c = received c @ []" by (simp add: received_def)
  ultimately show ?case by (rule sound_client [OF registers])
qed

lemma bot_sound:
  assumes "bot_reach lower fixed1 answers rnds nows s r x" and "bot_ok answers rnds s (new_client cfg rnd16 rnd r)"
  shows "bots.sound answers rnds s x \<and> max_concurrency (fst x) = 1"
  using assms
proof (induction rule: bot_reach.induct)
  case (new now cfg' rnd16' rnd')
  have "bot_ok answers rnds s (new_client cfg' rnd16' rnd' r)" using new by (simp add: bot_ok_def new_client_def)
  moreover have "settled (new_message_queue now no_queue_options) = []" "max_concurrency (new_message_queue now no_queue_options) = 1"
    by (simp_all add: new_message_queue_def no_queue_options_def or_default_def)
  ultimately show ?case
    unfolding bots.sound_def by (simp add: reachable.new clean_new in_step_def delivered_def)
next
  case (step x x')
  then have "max_concurrency (fst x') = max_concurrency (fst x)"
    by (induction rule: bot_step.induct [OF step(2)])
      (auto dest: concurrency_kept [OF queue_step.work [OF sender_step_work]] concurrency_kept [OF user_queue_step])
  with step show ?case using bot_step_sound by metis
qed

section \<open>Properties\<close>

text \<open>
  C12. Commands that answer do not disturb the queue: when the queue is processing, only messages to
  addresses that fit the format were enqueued, and no answer is a command itself, then from
  every state the workers and the clock alone come to rest, although every message they send may
  be handled and answered while it is sent; and whenever they do, every promise made so far has been
  resolved with an emitted message of the content and recipient asked for, but for those
  dropped by \<^verbatim>\<open>clear\<close>.
\<close>

theorem answering_client_delivers:
  assumes "bot_reach lower fixed1 answers rnds nows s r (q, c)" and "cmd_prefix r = PrefixText (js ''!'')"
    and "modest answers" and "\<forall>k. length (rnds k) = 8" and "2 \<le> s" and "is_processing q"
  shows "(\<exists>q' c'. rtranclp (sender_quiet (bot_send lower fixed1 answers rnds nows s)) (q, c) (q', c') \<and> workers q' = []) \<and>
     (\<forall>q' c' n. rtranclp (sender_quiet (bot_send lower fixed1 answers rnds nows s)) (q, c) (q', c') \<and> workers q' = [] \<and>
        n < promises q \<and> n \<notin> set (cleared q) \<longrightarrow>
        (\<exists>job m. job_promise job = n \<and> (job, Inr m) \<in> set (settled q') \<and> MessageReceived m \<in> set (emissions c') \<and>
           msg_content m = job_content job \<and> chat (source m) = resolve_recipient (job_to job)))"
proof -
  have "bot_ok answers rnds s (new_client cfg rnd16 rnd r)" for cfg rnd16 rnd
    using assms(2-5) by (simp add: bot_ok_def new_client_def)
  then have sound: "bots.sound answers rnds s (q, c)" and one: "max_concurrency q = 1"
    using bot_sound [OF assms(1)] by simp_all
  then have "bot_ok answers rnds s c" unfolding bots.sound_def by simp
  from bots.comes_to_rest [OF this] have ends:
    "\<exists>q' c'. rtranclp (sender_quiet (bot_send lower fixed1 answers rnds nows s)) (q, c) (q', c') \<and> workers q' = []" .
  have "\<exists>job m. job_promise job = n \<and> (job, Inr m) \<in> set (settled q') \<and> MessageReceived m \<in> set (emissions c') \<and>
      msg_content m = job_content job \<and> chat (source m) = resolve_recipient (job_to job)"
    if run: "rtranclp (sender_quiet (bot_send lower fixed1 answers rnds nows s)) (q, c) (q', c')" and rest: "workers q' = []"
      "n < promises q" "n \<notin> set (cleared q)" for q' c' n
  proof -
    obtain job m where "job_promise job = n" "(job, Inr m) \<in> set (settled q')" "m \<in> set (received c')"
      using bots.delivers [OF sound assms(6) _ run rest] one by auto
    moreover have "in_step q' (received c')" using bots.sound_quiets [OF run sound] unfolding bots.sound_def by simp
    ultimately show ?thesis by (force simp: in_step_def carries_def received_def)
  qed
  with ends show ?thesis by blast
qed

text \<open>A queue that holds the command \<open>!pi\<close> for a client that answers it.\<close>

definition demo_bot_queue :: message_queue where
  "demo_bot_queue = enqueue (js ''j'') (Inr (js ''1'')) (Text (js ''!pi'')) \<lparr>opt_priority = None, opt_max_retries = None,
     opt_retry_delay_ms = None, opt_timeout_ms = None, opt_custom_id = None\<rparr> (new_message_queue 0 no_queue_options)"

lemma demo_bot_queue: "is_processing demo_bot_queue" "promises demo_bot_queue = 1" "cleared demo_bot_queue = []"
  by (simp_all add: demo_bot_queue_def enqueue_def trigger_processing_eq start_jobs_def push_job_def new_job_def
      new_message_queue_def no_queue_options_def or_default_def)

theorem answering_client_delivers_witness:
  "\<exists>q c job m. rtranclp (sender_quiet (bot_send id (\<lambda>_. []) (\<lambda>_ _. [js ''pong'']) (\<lambda>_. replicate 8 0) (\<lambda>_. 0) 2))
       (demo_bot_queue, sample_bot) (q, c) \<and> job_promise job = 0 \<and> (job, Inr m) \<in> set (settled q) \<and>
     MessageReceived m \<in> set (emissions c)"
proof -
  have run: "bot_reach id (\<lambda>_. []) (\<lambda>_ _. [js ''pong'']) (\<lambda>_. replicate 8 0) (\<lambda>_. 0) 2 sample_registry (demo_bot_queue, sample_bot)"
    unfolding sample_bot_def demo_bot_queue_def
    by (rule bot_reach.step [OF bot_reach.new]) (rule bot_step.user, rule user_step.enqueue, rule demo_fits)
  have "modest (\<lambda>_ _. [js ''pong''])" by (simp add: modest_def pong_no_prefix)
  from answering_client_delivers [OF run sample_fields(1) this _ _ demo_bot_queue(1)] show ?thesis
    by (fastforce simp: demo_bot_queue)
qed

end
