(* ===== verification/Message_Schema.thy ===== *)
theory Message_Schema
  imports Js_Number Jid
begin

text \<open>
  The message schema (\<^verbatim>\<open>packages/wazeko-protocol/src/proto.ts\<close>) and the contact
  (\<^verbatim>\<open>packages/wazeko-types/src/contact.ts\<close>): declarations that the library exports and no code of it
  reads. An optional field is an option. A message can quote a message, through the context
  of its text or image: the interfaces of the parts are parametrized by the type of messages, and
  \<open>i_message\<close> ties the knot.
\<close>

record wa_message_key =
  remote_jid :: "jstr option"
  from_me :: "bool option"
  key_id :: "jstr option"
  key_participant :: "jstr option"

datatype 'm context_info = ContextInfo
  (stanza_id: "jstr option")
  (context_participant: "jstr option")
  (quoted_message: "'m option")
  (context_remote_jid: "jstr option")
  (mentioned_jid: "jstr list option")

datatype 'm extended_text_message = ExtendedTextMessage
  (extended_text: "jstr option")
  (matched_text: "jstr option")
  (canonical_url: "jstr option")
  (extended_description: "jstr option")
  (extended_title: "jstr option")
  (extended_thumbnail: "bytes option")
  (extended_context: "'m context_info option")

datatype 'm image_message = ImageMessage
  (image_url: "jstr option")
  (image_mimetype: "jstr option")
  (image_caption: "jstr option")
  (image_sha256: "bytes option")
  (image_length: "jsnum option")
  (image_height: "jsnum option")
  (image_width: "jsnum option")
  (image_media_key: "bytes option")
  (image_enc_sha256: "bytes option")
  (direct_path: "jstr option")
  (image_thumbnail: "bytes option")
  (image_context: "'m context_info option")

record reaction_message =
  reaction_key :: "wa_message_key option"
  reaction_text :: "jstr option"
  grouping_key :: "jstr option"
  sender_timestamp_ms :: "jsnum option"

datatype i_message = IMessage
  (conversation: "jstr option")
  (extended_text_message: "i_message extended_text_message option")
  (image_message: "i_message image_message option")
  (reaction_message: "reaction_message option")

record web_message_info =
  info_key :: wa_message_key
  info_message :: "i_message option"
  message_timestamp :: "jsnum option"
  info_status :: "jsnum option"
  info_participant :: "jstr option"

record contact =
  contact_id :: jid
  contact_name :: "jstr option"
  contact_notify :: "jstr option"
  verified_name :: "jstr option"
  contact_status :: "jstr option"

end
