(* ===== verification/Examples.thy ===== *)
theory Examples
  imports Codec Wazeko_Properties Replies Session_Backup Media_Stream Ttl_Cleanup
begin

text \<open>
  The programs under \<^verbatim>\<open>examples\<close>, which put the library's parts together: the clients that four of them
  build, the listener of the echo bot, and the set-up and the two commands of the
  enterprise bot, with the backup manager, the media handler and the cleanup of temporary files
  that it makes beside its client; and what \<^verbatim>\<open>benchmarks/protocol-bench.ts\<close> runs, less the
  timing. Then what becomes of these programs.
\<close>

section \<open>Clients\<close>

definition basic_client :: "real \<Rightarrow> 'st wazeko_builder" where
  "basic_client rnd = with_print_qr True (with_auth_store (js ''./auth'') (new_wazeko_builder rnd))"

definition qr_login :: "real \<Rightarrow> 'st wazeko_builder" where
  "qr_login rnd =
     with_print_qr True (with_auth_method QrMethod (with_auth_store (js ''./auth_qr'') (new_wazeko_builder rnd)))"

definition pairing_login :: "real \<Rightarrow> 'st wazeko_builder" where
  "pairing_login rnd =
     with_pairing_phone_number (js ''6281234567890'') (with_auth_store (js ''./auth_pairing'') (new_wazeko_builder rnd))"

definition echo_bot :: "real \<Rightarrow> 'st wazeko_builder" where
  "echo_bot rnd = with_print_qr True (with_auth_store (js ''./auth_bot'') (new_wazeko_builder rnd))"

text \<open>The text the echo bot's listener replies to a message with, if it does; if the content is a text.\<close>

definition echo_answer :: "message \<Rightarrow> jstr option" where
  "echo_answer m =
     (if is_from_me (source m) then None
      else case msg_content m of Text t \<Rightarrow> Some (js ''Echo: '' @ t) | _ \<Rightarrow> None)"

section \<open>The enterprise bot\<close>

datatype enterprise_execute = Ping | Status

definition pong_text :: jstr where
  "pong_text = [0xD83C, 0xDFD3] @ js '' Pong! Bot berjalan dengan stabil.''"

text \<open>\<^verbatim>\<open>(n / (1024 * 1024)).toFixed(2)\<close>.\<close>

definition fixed_megabytes :: "nat \<Rightarrow> jstr" where
  "fixed_megabytes n =
     (let h = (n * 200 + 1048576) div 2097152
      in nat_to_js (h div 100) @ js ''.'' @ nat_to_js (h mod 100 div 10) @ nat_to_js (h mod 10))"

definition status_text :: "memory_usage \<Rightarrow> 'p wazeko \<Rightarrow> jstr" where
  "status_text mem w =
     (let stats = get_stats (wz_queue w); bullet = 0x2022
      in [0xD83D, 0xDCCA] @ js '' *Status Sistem Wazeko*'' @ [10] @
         bullet # js '' Koneksi: '' @ state_text (get_connection_state (wz_client w)) @ [10] @
         bullet # js '' RAM Heap: '' @ fixed_megabytes (heap_used mem) @ js '' MB'' @ [10] @
         bullet # js '' Antrean Pending: '' @ nat_to_js (pending_total stats) @ [10] @
         bullet # js '' Pesan Terkirim: '' @ num_to_js (Fin (stat_completed stats)))"

definition enterprise_answers :: "memory_usage \<Rightarrow> 'p wazeko \<Rightarrow> enterprise_execute answering" where
  "enterprise_answers mem w x ctx = [case x of Ping \<Rightarrow> pong_text | Status \<Rightarrow> status_text mem w]"

definition ping_command :: "enterprise_execute command_definition" where
  "ping_command =
     \<lparr>cmd_name = js ''ping'', cmd_aliases = Some [js ''p''],
      cmd_description = Some (js ''Cek respons bot dan latency server''), cmd_category = None, owner_only = None,
      admin_only = None, cooldown_seconds = None, cmd_execute = Ping, file_path = None\<rparr>"

definition status_command :: "enterprise_execute command_definition" where
  "status_command =
     \<lparr>cmd_name = js ''status'', cmd_aliases = None,
      cmd_description = Some (js ''Lihat ringkasan status sistem dan antrean pesan''), cmd_category = None,
      owner_only = None, admin_only = None, cooldown_seconds = None, cmd_execute = Status, file_path = None\<rparr>"

definition change_client :: "('p client \<Rightarrow> 'p client) \<Rightarrow> 'p wazeko \<Rightarrow> 'p wazeko" where
  "change_client f w = w\<lparr>wz_client := f (wz_client w)\<rparr>"

definition change_plugins :: "('p \<Rightarrow> 'p) \<Rightarrow> 'p wazeko \<Rightarrow> 'p wazeko" where
  "change_plugins f = change_client (\<lambda>c. c\<lparr>plugin_state := f (plugin_state c)\<rparr>)"

text \<open>
  What the bot makes beside its client: backups under a key derived from a text, a handler of media
  files, and the cleanup of that handler's directory, which it starts.
\<close>

definition enterprise_parts ::
    "node_crypto \<Rightarrow> (jstr \<Rightarrow> jstr) \<Rightarrow> jstr \<Rightarrow>
     (js_error + session_backup_manager) \<times> stream_media_handler \<times> temp_cleanup_manager" where
  "enterprise_parts nc resolve tmpdir =
     (new_session_backup_manager nc (KeyText (js ''wazeko-cluster-master-secret-key-32b'')),
      new_stream_media_handler tmpdir (Some (resolve (js ''./media-cache''))),
      start_cleanup (new_temp_cleanup_manager (resolve (js ''./media-cache'')) (Some (15 * 60 * 1000)) (Some (5 * 60 * 1000))))"

text \<open>\<open>handle\<close> as for \<^const>\<open>plugin_listener\<close>; \<open>loaded\<close> is what the store gives, \<open>bound\<close> whether the port is free.\<close>

definition enterprise_main ::
    "enterprise_execute plugin_world listeners \<Rightarrow> (jstr \<Rightarrow> jstr) \<Rightarrow> (jstr \<Rightarrow> jstr) \<Rightarrow> jstr \<Rightarrow>
     bool \<Rightarrow> js_error + credentials option \<Rightarrow> bytes \<times> bytes \<times> bytes \<Rightarrow> (nat \<Rightarrow> real) \<Rightarrow>
     enterprise_execute plugin_world wazeko \<Rightarrow> enterprise_execute plugin_world wazeko" where
  "enterprise_main listener lower resolve ts bound loaded rs draws w =
     (let info = (\<lambda>t. change_plugins (apsnd (log_info ts t None client_logger)));
          w = info (js ''Initializing Wazeko Enterprise WhatsApp Client...'') w;
          w = change_plugins (apfst (register lower resolve ping_command)) w;
          w = change_plugins (apfst (register lower resolve status_command)) w;
          w = w\<lparr>wz_monitor := set_qr_supplier (\<lambda>_. Some (js ''2@example_qr_code_token'')) (wz_monitor w)\<rparr>;
          (started, mon) = monitor_start bound (wz_monitor w);
          w = w\<lparr>wz_monitor := mon\<rparr>
      in if started = None then w
         else
           let w = info ([0xD83C, 0xDF10] @ js '' Web Monitoring & QR Scanner berjalan di http://localhost:3000/qr'') w;
               w = info ([0xD83D, 0xDCCA] @ js '' Health API tersedia di http://localhost:3000/health'') w
           in wazeko_connect listener loaded rs draws w)"

section \<open>What becomes of them\<close>

text \<open>
  Which store each client saves to, and what it announces when it connects for the first time.
\<close>

theorem example_logins:
  "fst (builder_build (basic_client rnd) rnd16 rnd p) = AtomicFileStoreAt (js ''./auth'') \<and>
   fst (builder_build (qr_login rnd) rnd16 rnd p) = AtomicFileStoreAt (js ''./auth_qr'') \<and>
   fst (builder_build (pairing_login rnd) rnd16 rnd p) = AtomicFileStoreAt (js ''./auth_pairing'') \<and>
   (\<forall>b \<in> {basic_client rnd, qr_login rnd, echo_bot rnd}.
      emissions (snd (connect (quietly om) (Inr None) rs draws (snd (builder_build b rnd16 rnd p)))) =
        [ConnectionUpdate Connecting, ConnectionUpdate Authenticating,
         Qr \<lparr>raw = qr_challenge rs, attempts = 1, timeout_seconds = 60\<rparr>]) \<and>
   emissions (snd (connect (quietly om) (Inr None) rs draws (snd (builder_build (pairing_login rnd) rnd16 rnd p)))) =
     [ConnectionUpdate Connecting, ConnectionUpdate Authenticating, PairingCode (fst (generate_code draws 120 None))]"
  by (simp add: builder_build_def choose_store_def basic_client_def qr_login_def pairing_login_def echo_bot_def
      with_print_qr_def with_auth_store_def with_auth_method_def with_pairing_phone_number_def new_wazeko_builder_def
      default_client_config_def connect_defs run_connection_lifecycle_def Let_def split_beta update_qr_def new_client_def
      init_credentials_def new_reconnect_def attempt_def js_def)

text \<open>
  The echo bot never answers: whatever happens to the client, its listener is only ever called
  with messages that the client sent itself, and ignores those (unless code of its own passes
  somebody else's message to \<^verbatim>\<open>dispatchNode\<close>).
\<close>

theorem echo_bot_is_silent:
  assumes "wz_reach om ok (\<lambda>_. False) cfg rnd16 rnd now p w" and "lawful (\<lambda>_. False) om"
    and "MessageReceived m \<in> set (emissions (wz_client w))"
  shows "echo_answer m = None"
  using own_messages_reach [OF assms(2,1,3)] by (simp add: echo_answer_def)

theorem echo_bot_is_silent_witness: "echo_answer demo_sent_message = None"
  by (rule echo_bot_is_silent [OF demo_wz_reach lawful_quietly]) (simp add: demo_delivered)

text \<open>
  The cleanup of the enterprise bot takes the files of its media handler: every name of the handler's
  directory whose file is more than a quarter of an hour old is gone after a run that can remove it.
\<close>

theorem enterprise_cleanup_takes_media:
  assumes "distinct names" and "name \<in> set names" and "d name = Some e" and "is_file e" and "now - mtime_ms e > 900000"
    and "\<not> stuck name"
  shows "let (backups, handler, cleaner) = enterprise_parts nc resolve tmpdir
     in Ttl_Cleanup.temp_dir cleaner = Media_Stream.temp_dir handler \<and> cleanup_timer cleaner = Some 300000 \<and>
        snd (snd (run_cleanup now stuck (Some names) cleaner d)) name = None"
proof -
  define cleaner handler where "cleaner = snd (snd (enterprise_parts nc resolve tmpdir))"
    and "handler = fst (snd (enterprise_parts nc resolve tmpdir))"
  have c: "ttl_ms cleaner = 900000" "cleanup_timer cleaner = Some 300000" "Ttl_Cleanup.temp_dir cleaner = Media_Stream.temp_dir handler"
    by (simp_all add: cleaner_def handler_def enterprise_parts_def start_cleanup_def stop_cleanup_def
        new_temp_cleanup_manager_def new_stream_media_handler_def)
  have "name \<in> set (expired_names now (ttl_ms cleaner) d names)"
    using assms(2-5) by (simp add: expired_names_def expired_def c(1))
  then have "snd (snd (run_cleanup now stuck (Some names) cleaner d)) name = None"
    using assms(6) by (simp add: run_cleanup_def clean_files [OF assms(1)] Let_def without_def)
  with c show ?thesis by (simp add: cleaner_def handler_def split_beta)
qed

theorem enterprise_cleanup_takes_media_witness:
  "snd (snd (run_cleanup 1000000 (\<lambda>_. False) (Some [[1]]) (snd (snd (enterprise_parts toy_crypto id [])))
     [[1] \<mapsto> \<lparr>is_file = True, mtime_ms = 0, entry_size = 5\<rparr>])) [1] = None"
  using enterprise_cleanup_takes_media [of "[[1]]" "[1]" "[[1] \<mapsto> \<lparr>is_file = True, mtime_ms = 0, entry_size = 5\<rparr>]"
      "\<lparr>is_file = True, mtime_ms = 0, entry_size = 5\<rparr>" 1000000 "\<lambda>_. False" toy_crypto id "[]"]
  by (simp add: split_beta)

lemma connect_plugins: "plugin_state (snd (connect (quietly om) loaded rs draws c)) = plugin_state c"
  by (simp add: connect_defs run_connection_lifecycle_def set_state_def emit_event_def quietly_def Let_def split_beta
      split: sum.split option.split auth_method.split)

definition enterprise_start :: "real \<Rightarrow> (nat \<Rightarrow> int) \<Rightarrow> enterprise_execute plugin_world wazeko" where
  "enterprise_start rnd clk = new_wazeko (default_client_config rnd) [] rnd 0 (new_command_registry None None None clk, [])"

text \<open>
  The dashboard of the enterprise bot never shows a code that could be scanned: when the bot has
  connected for the first time its client holds the code to log in with, but the supplier
  that the program sets hides it behind a constant.
\<close>

theorem enterprise_dashboard_shows_example:
  "let w = enterprise_main (quietly om) lower resolve ts True (Inr None) rs draws (enterprise_start rnd clk)
   in current_qr_code (qr_mgr (wz_client w)) = Some \<lparr>raw = qr_challenge rs, attempts = 1, timeout_seconds = 60\<rparr> \<and>
      current_qr (active_monitor w) = Some (js ''2@example_qr_code_token'')"
  by (simp add: enterprise_main_def enterprise_start_def new_wazeko_def change_plugins_def change_client_def
      wazeko_connect_def monitor_start_def set_qr_supplier_def current_qr_def active_monitor_def connect_defs
      run_connection_lifecycle_def Let_def split_beta update_qr_def new_client_def init_credentials_def
      default_client_config_def new_reconnect_def attempt_def current_qr_code_def)

text \<open>
  Anybody is answered: a message whose text is the ping command by its name or its alias gets the
  one answer of that command, whoever sends it and however often.
\<close>

theorem enterprise_answers_ping:
  assumes "lower (js ''ping'') = js ''ping''" and "lower (js ''p'') = js ''p''" and "lower (js ''status'') = js ''status''"
    and "extract_message_text (msg_content m) \<in> {js ''!ping'', js ''!p''}"
  shows "let w = enterprise_main (quietly om) lower resolve ts True loaded rs draws (enterprise_start rnd clk); r = fst (plugin_state (wz_client w))
     in new_replies r (begin_handling lower fixed1 (enterprise_answers mem w) m r) = [pong_text]"
proof -
  let ?w = "enterprise_main (quietly om) lower resolve ts True loaded rs draws (enterprise_start rnd clk)"
  let ?r = "fst (plugin_state (wz_client ?w))"
  have r: "?r = register lower resolve status_command (register lower resolve ping_command (new_command_registry None None None clk))"
    by (simp add: enterprise_main_def enterprise_start_def new_wazeko_def change_plugins_def change_client_def
        wazeko_connect_def monitor_start_def connect_plugins new_client_def Let_def)
  have prefix: "cmd_prefix ?r = PrefixText (js ''!'')"
    by (simp add: r register_def new_command_registry_def emit_def ping_command_def status_command_def Let_def)
  have sp: "split_spaces (trim (js ''ping'')) = [js ''ping'']" "split_spaces (trim (js ''p'')) = [js ''p'']"
  proof -
    have "\<not> is_space (cu c)" if "c \<in> set ''ping''" for c using that by (auto simp: is_space_def cu_def)
    then have "list_all (\<lambda>c. \<not> is_space c) (js ''ping'')" "list_all (\<lambda>c. \<not> is_space c) (js ''p'')"
      "trim (js ''ping'') = js ''ping''" "trim (js ''p'') = js ''p''"
      by (simp_all add: trim_def js_def)
    then show "split_spaces (trim (js ''ping'')) = [js ''ping'']" "split_spaces (trim (js ''p'')) = [js ''p'']"
      by (simp_all add: split_spaces_word)
  qed
  obtain n where n: "parse_command lower (cmd_prefix ?r) (extract_message_text (msg_content m)) = Some (n, [])"
    "n \<in> {js ''ping'', js ''p''}"
  proof -
    have "parse_command lower (PrefixText (js ''!'')) (js ''!ping'') = Some (js ''ping'', [])"
      "parse_command lower (PrefixText (js ''!'')) (js ''!p'') = Some (js ''p'', [])"
      using sp assms(1,2) by (simp_all add: parse_command_def strip_prefix_def starts_with_def js_def)
    then show thesis using that assms(4) by (auto simp: prefix)
  qed
  have "js ''status'' \<noteq> js ''ping''" "js ''p'' \<noteq> js ''ping''" "js ''p'' \<noteq> js ''status''" by (simp_all add: js_eq_iff)
  then have found: "get_command lower n ?r = Some ping_command"
    using n(2) assms(1-3)
    by (auto simp: r get_command_def register_def new_command_registry_def emit_def ping_command_def status_command_def
        Let_def)
  have "refusal fixed1 (make_context ?r m ping_command n []) ?r = None"
    by (simp add: refusal_def make_context_def truthy_def ping_command_def cooldown_of_def)
  then have "due_answers lower fixed1 (enterprise_answers mem ?w) m ?r = [pong_text]"
    by (simp add: due_answers_def n(1) found enterprise_answers_def) (simp add: ping_command_def)
  then show ?thesis using begin_answers [of ?r lower fixed1 "enterprise_answers mem ?w" m] by (simp add: Let_def)
qed

theorem enterprise_answers_ping_witness:
  "let w = enterprise_main (quietly (\<lambda>_ p. p)) id id [] True (Inr None) ([], [], []) (\<lambda>_. 0) (enterprise_start 0 int);
       r = fst (plugin_state (wz_client w))
   in new_replies r (begin_handling id (\<lambda>_. []) (enterprise_answers \<lparr>rss = 0, heap_used = 0, heap_total = 0\<rparr> w) (sample_message ''!p'') r) =
     [pong_text]"
  by (rule enterprise_answers_ping) (simp_all add: sample_message_def)

section \<open>The benchmark\<close>

definition bench_node :: node where
  "bench_node =
     build (content_nodes
       [build (content_bytes (text_encode (js ''Benchmark message content text'')) (create (js ''conversation'')))]
       (attr (js ''type'') (js ''text'')
         (attr (js ''to'') (js ''628123456789@s.whatsapp.net'')
           (attr (js ''id'') (js ''3EB0123456789ABC'') (create (js ''message''))))))"

definition bench_payload :: bytes where
  "bench_payload = map (\<lambda>i. word_of_nat (i mod 256)) [0..<1024]"

text \<open>One round of each loop.\<close>

definition bench_codec :: "nat \<Rightarrow> enc_error + (dec_error + node)" where
  "bench_codec s = map_sum id (decode s) (encode bench_node)"

definition bench_crypto :: "node_crypto \<Rightarrow> key_pair \<Rightarrow> js_error + bytes" where
  "bench_crypto nc keyPair =
     bindE (aes_gcm_encrypt nc (private_key keyPair) (replicate 12 0) bench_payload None)
       (\<lambda>(ciphertext, tag). aes_gcm_decrypt nc (private_key keyPair) (replicate 12 0) ciphertext tag None)"

text \<open>
  The benchmark times work that succeeds: the node comes back from every round on a stack of two calls
  or more, and with a key of the right length so does the payload.
\<close>

theorem benchmark_rounds:
  assumes "gcm_laws nc" and "length (snd der) \<ge> 32" and "2 \<le> s"
  shows "bench_codec s = Inr (Inr bench_node) \<and> bench_crypto nc (generate_key_pair der) = Inr bench_payload"
proof
  have short: "string_fits (js cs)" if "length cs \<le> 100" for cs
    using that by (intro string_fits_short) (simp add: js_def)
  have node: "bench_node = Node (js ''message'')
      [(js ''id'', js ''3EB0123456789ABC''), (js ''to'', js ''628123456789@s.whatsapp.net''), (js ''type'', js ''text'')]
      (CNodes [Node (js ''conversation'') [] (CBytes (text_encode (js ''Benchmark message content text'')))])"
  proof -
    have "js ''id'' \<noteq> proto_key" "js ''to'' \<noteq> proto_key" "js ''type'' \<noteq> proto_key"
      "array_index (js ''id'') = None" "array_index (js ''to'') = None" "array_index (js ''type'') = None"
      by code_simp+
    then show ?thesis by (simp add: bench_node_def builder_defs obj_set_def js_eq_iff)
  qed
  have "encodable bench_node" by (simp add: node short)
  then obtain bs where bs: "encode bench_node = Inr bs"
    unfolding succeeds_write_node [symmetric] succeeds_def encode_def by blast
  have "obj_ok (attrs bench_node)"
    unfolding bench_node_def build_def node.sel using builder_ok_steps by (metis builder_ok_def)
  then have "node_ok bench_node"
    using length_text_encode [of "js ''Benchmark message content text''"] by (simp add: node) (simp add: js_def obj_ok_def)
  moreover have "node_depth bench_node \<le> s" using assms(3) by (simp add: node)
  moreover have "normal bench_node = bench_node" by (simp add: node)
  ultimately show "bench_codec s = Inr (Inr bench_node)"
    using decode_encoded [of bench_node s bs "[]"] bs by (simp add: bench_codec_def)
  have "length (private_key (generate_key_pair der)) = 32"
    using assms(2) subarray_from_end [of 32 "snd der"] by (simp add: generate_key_pair_def)
  from gcm_roundtrip [OF assms(1) this, of "replicate 12 0" bench_payload None]
  show "bench_crypto nc (generate_key_pair der) = Inr bench_payload"
    unfolding bench_crypto_def by (metis (no_types, lifting) bindE.simps(2) length_replicate old.prod.case)
qed

end
