(* ===== verification/Spec2Isabelle.thy ===== *)
theory Spec2Isabelle
  imports Malformed Truncated Jid Reconnect Queue_Order Media_Stream Shared_Cipher Signal
    Group_Properties Session_Backup Concurrent_Saves Web_Socket Ttl_Cleanup Client_Events Bot_Queue Message_Schema Examples
begin

text \<open>
  A verification development for wazeko, a client library for the WhatsApp Web protocol written in
  TypeScript.

  THE PROGRAM. A client (\<^verbatim>\<open>packages/wazeko/src/client.ts\<close>, made by a builder) loads credentials from
  a store of \<^verbatim>\<open>packages/wazeko-auth\<close>, announces its connection state and its login codes as events,
  and turns messages and group requests into trees of protocol nodes, which the encoder of
  \<^verbatim>\<open>packages/wazeko-protocol\<close> turns into bytes. Listeners and one asynchronous queue take the events;
  the command registry is the listener that runs bot commands through a middleware pipeline.
  Bulk sending goes through a priority queue with workers, retries and a rate limiter.
  \<^verbatim>\<open>packages/wazeko-core\<close> has the secure channel (a Noise handshake and framed ciphers), the message
  sessions (Signal) and the encryption of media, in memory and streamed through files;
  \<^verbatim>\<open>packages/wazeko-transport\<close> has the WebSocket and the reconnect backoff. A logger, a monitoring
  server and a cleanup of temporary files serve operation.

  GROUND. \<^verbatim>\<open>Prelude\<close>: thrown errors as sums, loops that may throw, slices. \<^verbatim>\<open>Js_String\<close>, \<^verbatim>\<open>Js_Number\<close>,
  \<^verbatim>\<open>Js_Int32\<close>, \<^verbatim>\<open>Js_Object\<close>, \<^verbatim>\<open>Js_Json\<close>, \<^verbatim>\<open>Js_Fs\<close>: what the code uses of the language and its library, with
  strings as 16-bit code units, UTF-8 in both directions, the signed 32-bit operators, objects in
  property order, JSON printing and parsing, and files as a map. \<^verbatim>\<open>Errors\<close>: the error classes.

  PARTS. Each theory names its files in its opening text; the groups of definitions follow the
  order of the methods.
  \<^verbatim>\<open>Tokens\<close>, \<^verbatim>\<open>Node\<close>, \<^verbatim>\<open>Encoder\<close>, \<^verbatim>\<open>Decoder\<close>: the binary codec (the record \<^verbatim>\<open>decoder\<close> is the buffer and its
  offset). \<^verbatim>\<open>Codec\<close> joins the two under the locales \<^verbatim>\<open>wire_format\<close>, interpreted for headers, strings,
  binaries and trees, and proves the round trip; \<^verbatim>\<open>Truncated\<close> extends the locale to cut buffers,
  \<^verbatim>\<open>Malformed\<close> bounds the nesting of the decoder on any bytes and shows the one way it escapes.
  \<^verbatim>\<open>Jid\<close>, \<^verbatim>\<open>Message_Types\<close>, \<^verbatim>\<open>Message_Schema\<close>: addresses and the data of messages, groups and events;
  the declared schema of the protocol's messages.
  \<^verbatim>\<open>Crypto\<close>, \<^verbatim>\<open>Media\<close>, \<^verbatim>\<open>Media_Stream\<close>, \<^verbatim>\<open>Noise\<close>, \<^verbatim>\<open>Signal\<close>: the cryptographic layer; \<^verbatim>\<open>Lockstep\<close> is the interface
  of two ends that advance together, interpreted by frames and by sessions; \<^verbatim>\<open>Shared_Cipher\<close> has the cipher
  state as an object that the handshake and any number of ciphers share; the streamed encryption
  refines the one in memory.
  \<^verbatim>\<open>Session\<close>, \<^verbatim>\<open>Login_Codes\<close>, \<^verbatim>\<open>Auth_Stores\<close>, \<^verbatim>\<open>Store_Properties\<close>, \<^verbatim>\<open>Session_Backup\<close>: credentials, login codes,
  the four stores (interpretations of the contract \<^verbatim>\<open>auth_store\<close>; the database store over the
  contract \<^verbatim>\<open>kv_store\<close>), what a crash in the middle of an atomic save leaves, and backups;
  \<^verbatim>\<open>Concurrent_Saves\<close>: overlapping saves of the atomic store, as schedules of their file operations.
  \<^verbatim>\<open>Web_Socket\<close>, \<^verbatim>\<open>Reconnect\<close>: the transport as a step relation over its sockets, and the schedule of
  retries.
  \<^verbatim>\<open>Rate_Limiter\<close>, \<^verbatim>\<open>Message_Queue\<close>, \<^verbatim>\<open>Queue_Properties\<close>, \<^verbatim>\<open>Queue_Order\<close>: the sending queue. Its asynchronous
  workers are explicit stages of each job and its runs a step relation (any interleaving of calls,
  answers and the clock), with reachable states and their invariant by rule induction.
  \<^verbatim>\<open>Queue_Sender\<close>: the queue over any sender; the contract \<^verbatim>\<open>job_sender\<close> is what it needs of one, interpreted
  on the client and on the client whose commands answer.
  \<^verbatim>\<open>Event_Queue\<close>, \<^verbatim>\<open>Pipeline\<close>, \<^verbatim>\<open>Command_Registry\<close>, \<^verbatim>\<open>Command_Properties\<close>, \<^verbatim>\<open>Client\<close>, \<^verbatim>\<open>Messaging\<close>,
  \<^verbatim>\<open>Client_Properties\<close>, \<^verbatim>\<open>Group_Properties\<close>: events, commands, the client and its requests.
  \<^verbatim>\<open>Logger\<close>, \<^verbatim>\<open>Qr_Page\<close>, \<^verbatim>\<open>Monitoring\<close>, \<^verbatim>\<open>Ttl_Cleanup\<close>: operation.
  \<^verbatim>\<open>Replies\<close>: commands that answer through the client that called them, as far as it happens inside one
  emission (the synchronous part of the calls, up to their first \<^verbatim>\<open>await\<close>); \<^verbatim>\<open>Bot_Queue\<close>: that client with
  its queue.
  \<^verbatim>\<open>Wazeko\<close>, \<^verbatim>\<open>Wazeko_Properties\<close>: the constructor's wiring and the client with its queue and monitor as one
  step relation; \<^verbatim>\<open>Client_Events\<close>: readers of its events beside it. \<^verbatim>\<open>Examples\<close>: the programs under
  \<^verbatim>\<open>examples\<close> and \<^verbatim>\<open>benchmarks\<close>.

  WHAT IS SHOWN. Codec: a node comes back from its encoding; which nodes encode; every cut of an
  encoding is refused, or cut content is accepted, exactly; nesting is bounded unless a length
  is negative. Queue: no job is lost or run twice, promises are settled, work ends, the invariant
  of the counters, and for one worker the rate limit (and its failure for overlapping calls) and that each
  priority is served first in, first out, whatever fails and is retried.
  Cryptography: frames, sessions and media round trip, tampering is refused, both sides of the
  handshake agree on keys, no vector repeats through any aliases of one cipher state, and where a nonce is used
  twice. Stores: what comes back after a save,
  after a crash, after overlapping saves and after a backup. Client: state and announcements agree, a store that
  answers late undoes a disconnect, a login never completes by itself, what a sent message
  and a group request do, who may run a command, and that a handler runs at most once.
  Transport: the reported connection is the open socket as long as sockets do not overlap.
  The whole: it refines its parts, what the queue resolves is what the client sent, every message
  to an address that fits is delivered, every announced message is the client's own, and readers of the
  events get what was emitted, in order, up to the first disconnect.
  Answers: they overtake the command in the event queue, end after one if they are no commands, and
  fill the stack if they repeat their command; commands that answer leave the promises of the queue kept.
  Operation: what a log line, an answer of the monitor and a cleanup contain.

  ARGUMENTS AND LAWS. The clock, random numbers, console output and what a user callback returns
  are arguments. Node's cryptography is the record \<^verbatim>\<open>node_crypto\<close>; the laws theorems assume of it
  (\<^verbatim>\<open>hash_laws\<close>, \<^verbatim>\<open>hkdf_laws\<close>, \<^verbatim>\<open>cbc_laws\<close>, \<^verbatim>\<open>gcm_laws\<close>: lengths, chunks may be split, deciphering undoes
  ciphering) are its documented behaviour, and \<^verbatim>\<open>toy_crypto\<close> meets them all in the witnesses. The
  sockets of the \<^verbatim>\<open>ws\<close> package follow their documented states. A database adapter is any that meets
  \<^verbatim>\<open>kv_store\<close>. Lower-casing, \<^verbatim>\<open>path.resolve\<close>, the path of a parsed URL and the QR drawing are
  functions or values given from outside.

  BOUNDS. \<^verbatim>\<open>read_node s\<close> has room for \<open>s\<close> nested calls; a stack as deep as the tree, or one deeper than
  the buffer has bytes, is enough, and more never changes an answer. \<^verbatim>\<open>emit_message\<close> has room for a number
  of nested emissions, of which two are enough unless an answer is a command. Numbers are integers, exact
  below $2^{53}$ and rounded above; delays and limits are integers in milliseconds. Loops are
  structural or have a measure; nothing else is bounded.

  NOT MODELLED. The index files only re-export; of the benchmarks the timing is left out. In the step relation
  of \<^verbatim>\<open>Wazeko\<close> the message listener works on a state of its own; in \<^verbatim>\<open>Bot_Queue\<close>, where its answers go through the
  client, what a command does after its first \<^verbatim>\<open>await\<close> is left out. Of file operations only a missing file fails;
  listeners of a user other than the command registry do not throw; sockets and HTTP are modelled
  by what the code sees of them.
\<close>

end
